(* ===== verification/Prelude.thy ===== *)
theory Prelude
  imports Main "HOL-Library.Char_ord" "HOL-Library.List_Lexorder"
begin

text \<open>
  What every component shares: Go strings as byte strings (\<open>char list\<close>, one \<open>char\<close> per
  byte) with the functions of the packages \<open>strings\<close>, \<open>bytes\<close> and \<open>strconv\<close> that the
  sources call, the decimal printer and reader, and the list lemmas the component proofs use.
  Comparison of strings (\<open><\<close> in Go) is the bytewise lexicographic order of
  \<open>HOL-Library.List_Lexorder\<close> over \<open>HOL-Library.Char_ord\<close>.

  Two points of Go's Unicode behaviour are kept exactly without Unicode tables: white space
  (\<open>unicode.IsSpace\<close> is a finite set of runes, given here by their UTF-8 encodings), and case
  folding against an ASCII word (only \<open>k\<close> and \<open>s\<close> have non-ASCII fold partners).
  \<open>strings.ToLower\<close> of a string with a byte \<open>\<ge> 0x80\<close> needs the Unicode case table, which is
  the parameter \<open>L\<close> of \<open>to_lower\<close>.
\<close>

named_theorems str_simps \<open>unfolding rules of the Go string functions\<close>
named_theorems wf_intros \<open>introduction rules for well-formedness predicates\<close>

subsection \<open>Characters\<close>

abbreviation nl :: char where "nl \<equiv> CHR 0x0A"
abbreviation quot :: char where "quot \<equiv> CHR 0x22"
abbreviation backtick :: char where "backtick \<equiv> CHR 0x60"

definition is_digit :: "char \<Rightarrow> bool" where
  "is_digit c \<longleftrightarrow> CHR ''0'' \<le> c \<and> c \<le> CHR ''9''"

definition is_lower :: "char \<Rightarrow> bool" where
  "is_lower c \<longleftrightarrow> CHR ''a'' \<le> c \<and> c \<le> CHR ''z''"

definition is_upper :: "char \<Rightarrow> bool" where
  "is_upper c \<longleftrightarrow> CHR ''A'' \<le> c \<and> c \<le> CHR ''Z''"

definition is_ascii :: "char \<Rightarrow> bool" where
  "is_ascii c \<longleftrightarrow> c < CHR 0x80"

definition is_hex :: "char \<Rightarrow> bool" where
  "is_hex c \<longleftrightarrow> is_digit c \<or> CHR ''a'' \<le> c \<and> c \<le> CHR ''f'' \<or> CHR ''A'' \<le> c \<and> c \<le> CHR ''F''"

text \<open>Visible ASCII: the bytes 0x21 to 0x7E. White space is never among them.\<close>

definition is_graph :: "char \<Rightarrow> bool" where
  "is_graph c \<longleftrightarrow> CHR 0x21 \<le> c \<and> c \<le> CHR 0x7E"

lemmas char_class_defs = is_digit_def is_lower_def is_upper_def is_ascii_def is_graph_def

lemma is_graphI [wf_intros]:
  "is_digit c \<Longrightarrow> is_graph c"
  "is_lower c \<Longrightarrow> is_graph c"
  "is_upper c \<Longrightarrow> is_graph c"
  by (auto simp: char_class_defs less_eq_char_def)

lemma is_graph_not_nl [simp]: "is_graph c \<Longrightarrow> c \<noteq> nl"
  by (auto simp: is_graph_def less_eq_char_def)

lemma is_graph_not_space [simp]: "is_graph c \<Longrightarrow> c \<noteq> CHR '' ''"
  by (auto simp: is_graph_def less_eq_char_def)

lemma is_graph_ascii [simp]: "is_graph c \<Longrightarrow> is_ascii c"
  by (auto simp: is_graph_def is_ascii_def less_eq_char_def less_char_def)

text \<open>\<open>c + ('a' - 'A')\<close> for an upper-case byte, as \<open>strings.ToLower\<close> does for ASCII.\<close>

definition lower_byte :: "char \<Rightarrow> char" where
  "lower_byte c = (if is_upper c then char_of (of_char c + (32 :: nat)) else c)"

subsection \<open>Package strings\<close>

definition has_prefix :: "string \<Rightarrow> string \<Rightarrow> bool" where
  "has_prefix p s \<longleftrightarrow> take (length p) s = p"

definition has_suffix :: "string \<Rightarrow> string \<Rightarrow> bool" where
  "has_suffix p s \<longleftrightarrow> drop (length s - length p) s = p \<and> length p \<le> length s"

fun str_contains :: "string \<Rightarrow> string \<Rightarrow> bool" where
  "str_contains [] sub = (sub = [])"
| "str_contains (c # s) sub = (has_prefix sub (c # s) \<or> str_contains s sub)"

text \<open>\<open>strings.Split(s, sep)\<close> for a one-byte separator.\<close>

fun split_on :: "char \<Rightarrow> string \<Rightarrow> string list" where
  "split_on c [] = [[]]"
| "split_on c (x # xs) =
     (if x = c then [] # split_on c xs
      else (case split_on c xs of [] \<Rightarrow> [[x]] | y # ys \<Rightarrow> (x # y) # ys))"

text \<open>\<open>strings.Cut(s, sep)\<close> for a one-byte separator.\<close>

definition cut :: "char \<Rightarrow> string \<Rightarrow> string \<times> string \<times> bool" where
  "cut c s = (takeWhile (\<lambda>x. x \<noteq> c) s, drop 1 (dropWhile (\<lambda>x. x \<noteq> c) s), c \<in> set s)"

text \<open>\<open>strings.Join(xs, sep)\<close>.\<close>

fun join :: "string \<Rightarrow> string list \<Rightarrow> string" where
  "join sep [] = []"
| "join sep [x] = x"
| "join sep (x # y # xs) = x @ sep @ join sep (y # xs)"

text \<open>Lines, each ended by a newline: the shape of the generated files.\<close>

definition unlines :: "string list \<Rightarrow> string" where
  "unlines ls = concat (map (\<lambda>l. l @ [nl]) ls)"

text \<open>
  \<open>strings.ToLower\<close>: bytewise on an ASCII string, the Unicode case mapping \<open>L\<close> otherwise.
\<close>

definition to_lower :: "(string \<Rightarrow> string) \<Rightarrow> string \<Rightarrow> string" where
  "to_lower L s = (if \<forall>c \<in> set s. is_ascii c then map lower_byte s else L s)"

text \<open>
  \<open>strings.EqualFold(t, s)\<close> for an ASCII string \<open>t\<close>: equal up to ASCII case, and the two
  folds of ASCII letters outside ASCII: \<open>U+212A\<close> (bytes E2 84 AA) folds with \<open>k\<close>,
  \<open>U+017F\<close> (bytes C5 BF) with \<open>s\<close>.
\<close>

fun equal_fold :: "string \<Rightarrow> string \<Rightarrow> bool" where
  "equal_fold [] s = (s = [])"
| "equal_fold (t # ts) s =
     (if lower_byte t = CHR ''k'' \<and> has_prefix [CHR 0xE2, CHR 0x84, CHR 0xAA] s
      then equal_fold ts (drop 3 s)
      else if lower_byte t = CHR ''s'' \<and> has_prefix [CHR 0xC5, CHR 0xBF] s
      then equal_fold ts (drop 2 s)
      else (case s of [] \<Rightarrow> False
            | c # cs \<Rightarrow> lower_byte c = lower_byte t \<and> equal_fold ts cs))"

text \<open>The UTF-8 encodings of the runes of \<open>unicode.IsSpace\<close>.\<close>

definition space_seqs :: "string list" where
  "space_seqs =
     [[CHR 0x09], [CHR 0x0A], [CHR 0x0B], [CHR 0x0C], [CHR 0x0D], [CHR 0x20],
      [CHR 0xC2, CHR 0x85], [CHR 0xC2, CHR 0xA0], [CHR 0xE1, CHR 0x9A, CHR 0x80],
      [CHR 0xE2, CHR 0x80, CHR 0x80], [CHR 0xE2, CHR 0x80, CHR 0x81],
      [CHR 0xE2, CHR 0x80, CHR 0x82], [CHR 0xE2, CHR 0x80, CHR 0x83],
      [CHR 0xE2, CHR 0x80, CHR 0x84], [CHR 0xE2, CHR 0x80, CHR 0x85],
      [CHR 0xE2, CHR 0x80, CHR 0x86], [CHR 0xE2, CHR 0x80, CHR 0x87],
      [CHR 0xE2, CHR 0x80, CHR 0x88], [CHR 0xE2, CHR 0x80, CHR 0x89],
      [CHR 0xE2, CHR 0x80, CHR 0x8A], [CHR 0xE2, CHR 0x80, CHR 0xA8],
      [CHR 0xE2, CHR 0x80, CHR 0xA9], [CHR 0xE2, CHR 0x80, CHR 0xAF],
      [CHR 0xE2, CHR 0x81, CHR 0x9F], [CHR 0xE3, CHR 0x80, CHR 0x80]]"

text \<open>The number of bytes of the first listed sequence that \<open>s\<close> starts with, 0 if none.\<close>

fun seq_len :: "string list \<Rightarrow> string \<Rightarrow> nat" where
  "seq_len [] s = 0"
| "seq_len (q # qs) s = (if has_prefix q s then length q else seq_len qs s)"

function trim_seqs :: "string list \<Rightarrow> string \<Rightarrow> string" where
  "trim_seqs qs s =
     (if s = [] \<or> seq_len qs s = 0 then s else trim_seqs qs (drop (seq_len qs s) s))"
  by pat_completeness auto
termination
  by (relation "measure (\<lambda>(qs, s). length s)") auto

declare trim_seqs.simps [simp del]

definition trim_left :: "string \<Rightarrow> string" where
  "trim_left s = trim_seqs space_seqs s"

definition trim_right :: "string \<Rightarrow> string" where
  "trim_right s = rev (trim_seqs (map rev space_seqs) (rev s))"

text \<open>\<open>strings.TrimSpace\<close> and \<open>bytes.TrimSpace\<close>.\<close>

definition trim_space :: "string \<Rightarrow> string" where
  "trim_space s = trim_right (trim_left s)"

text \<open>
  \<open>strings.Fields\<close>: the maximal runs without white space; \<open>cur\<close> is the run being read, last
  byte first.
\<close>

definition push_field :: "string \<Rightarrow> string list \<Rightarrow> string list" where
  "push_field cur fs = (if cur = [] then fs else rev cur # fs)"

function fields_from :: "string \<Rightarrow> string \<Rightarrow> string list" where
  "fields_from cur [] = push_field cur []"
| "fields_from cur (c # s) =
     (let k = seq_len space_seqs (c # s) in
      if k = 0 then fields_from (c # cur) s
      else push_field cur (fields_from [] (drop k (c # s))))"
  by pat_completeness auto
termination
  by (relation "measure (\<lambda>(cur, s). length s)") auto

definition str_fields :: "string \<Rightarrow> string list" where
  "str_fields s = fields_from [] s"

subsection \<open>Package strconv\<close>

fun digit_char :: "nat \<Rightarrow> char" where
  "digit_char d = char_of (48 + d)"

definition digit_val :: "char \<Rightarrow> nat" where
  "digit_val c = of_char c - 48"

fun nat_digits :: "nat \<Rightarrow> string" where
  "nat_digits n = (if n < 10 then [digit_char n] else nat_digits (n div 10) @ [digit_char (n mod 10)])"

declare nat_digits.simps [simp del]

definition digits_val :: "string \<Rightarrow> nat" where
  "digits_val s = foldl (\<lambda>n c. 10 * n + digit_val c) 0 s"

text \<open>\<open>strconv.Itoa\<close>.\<close>

definition itoa :: "int \<Rightarrow> string" where
  "itoa i = (if i < 0 then CHR ''-'' # nat_digits (nat (- i)) else nat_digits (nat i))"

text \<open>
  \<open>strconv.Atoi\<close>: an optional sign, then at least one digit and nothing else, in the range
  of the 64-bit \<open>int\<close>; \<open>None\<close> is a non-nil error.
\<close>

definition atoi :: "string \<Rightarrow> int option" where
  "atoi s =
     (let neg = has_prefix ''-'' s;
          d = (if neg \<or> has_prefix ''+'' s then drop 1 s else s);
          v = (if neg then - int (digits_val d) else int (digits_val d))
      in if d \<noteq> [] \<and> list_all is_digit d \<and> - (2 ^ 63) \<le> v \<and> v < 2 ^ 63 then Some v else None)"

subsection \<open>Lemmas: prefixes and splitting\<close>

lemma has_prefix_Nil [simp]: "has_prefix [] s"
  by (simp add: has_prefix_def)

lemma has_prefix_Cons [simp]:
  "has_prefix (p # ps) [] = False"
  "has_prefix (p # ps) (c # s) = (p = c \<and> has_prefix ps s)"
  by (auto simp: has_prefix_def)

lemma has_prefix_iff: "has_prefix p s \<longleftrightarrow> (\<exists>r. s = p @ r)"
  by (auto simp: has_prefix_def) (metis append_take_drop_id)

lemma has_prefix_append [simp]: "has_prefix p (p @ s)"
  by (simp add: has_prefix_def)

lemma has_suffix_iff: "has_suffix p s \<longleftrightarrow> (\<exists>r. s = r @ p)"
proof
  assume "has_suffix p s"
  then show "\<exists>r. s = r @ p"
    by (metis append_take_drop_id has_suffix_def)
qed (auto simp: has_suffix_def)

lemma str_contains_iff: "str_contains s sub \<longleftrightarrow> (\<exists>a b. s = a @ sub @ b)"
proof (induction s)
  case (Cons c s)
  show ?case
    by (auto simp: Cons has_prefix_iff Cons_eq_append_conv)
qed auto

lemma split_on_not_Nil [simp]: "split_on c s \<noteq> []"
  by (induction s) (auto split: list.splits)

lemma split_on_notin: "c \<notin> set s \<Longrightarrow> split_on c s = [s]"
  by (induction s) auto

lemma split_on_append: "split_on c (a @ c # b) = split_on c a @ split_on c b"
  by (induction a) (auto split: list.splits)

lemma split_on_notin_set: "x \<in> set (split_on c s) \<Longrightarrow> c \<notin> set x"
  by (induction s arbitrary: x) (auto split: list.splits if_splits)

lemma split_on_subset: "x \<in> set (split_on c s) \<Longrightarrow> set x \<subseteq> set s"
proof (induction s arbitrary: x)
  case (Cons a s)
  then show ?case
    by (auto split: list.splits if_splits; fastforce)
qed auto

lemma join_split_on: "join [c] (split_on c s) = s"
proof (induction s)
  case (Cons a s)
  show ?case
  proof (cases "split_on c s")
    case (Cons y ys)
    with Cons.IH show ?thesis by (cases ys) auto
  qed simp
qed simp

lemma cut_found: "c \<notin> set a \<Longrightarrow> cut c (a @ c # b) = (a, b, True)"
  by (simp add: cut_def takeWhile_append dropWhile_append) 

lemma cut_notin: "c \<notin> set s \<Longrightarrow> cut c s = (s, [], False)"
proof -
  assume "c \<notin> set s"
  then have d: "dropWhile (\<lambda>x. x \<noteq> c) s = []" and t: "takeWhile (\<lambda>x. x \<noteq> c) s = s"
    by (auto simp: dropWhile_eq_Nil_conv takeWhile_eq_all_conv)
  show ?thesis unfolding cut_def d t using \<open>c \<notin> set s\<close> by simp
qed

lemma unlines_simps [simp]: "unlines [] = []" "unlines (l # ls) = l @ nl # unlines ls"
  by (simp_all add: unlines_def)

lemma unlines_append: "unlines (xs @ ys) = unlines xs @ unlines ys"
  by (simp add: unlines_def)

text \<open>Nothing but the given lines is in a file of newline-free lines.\<close>

lemma split_on_unlines: "\<forall>l \<in> set ls. nl \<notin> set l \<Longrightarrow> split_on nl (unlines ls) = ls @ [[]]"
  by (induction ls) (auto simp: split_on_append split_on_notin)

subsection \<open>Lemmas: trimming\<close>

definition starts_tight :: "string \<Rightarrow> bool" where
  "starts_tight s \<longleftrightarrow> s \<noteq> [] \<and> is_graph (hd s)"

definition ends_tight :: "string \<Rightarrow> bool" where
  "ends_tight s \<longleftrightarrow> s \<noteq> [] \<and> is_graph (last s)"

lemma seq_len_zero: "(\<And>q. q \<in> set qs \<Longrightarrow> \<not> has_prefix q s) \<Longrightarrow> seq_len qs s = 0"
  by (induction qs) auto

lemma space_seqs_hd: "q \<in> set space_seqs \<Longrightarrow> is_graph c \<Longrightarrow> \<not> has_prefix q (c # s)"
  by (auto simp: space_seqs_def is_graph_def less_eq_char_def)

lemma space_seqs_last: "q \<in> set (map rev space_seqs) \<Longrightarrow> is_graph c \<Longrightarrow> \<not> has_prefix q (c # s)"
  by (auto simp: space_seqs_def is_graph_def less_eq_char_def)

lemma trim_left_tight [simp]: "starts_tight s \<Longrightarrow> trim_left s = s"
  by (cases s) (auto simp: starts_tight_def trim_left_def trim_seqs.simps [of _ "_ # _"]
      seq_len_zero space_seqs_hd)

lemma trim_right_tight [simp]: "ends_tight s \<Longrightarrow> trim_right s = s"
proof (cases s rule: rev_cases)
  case (snoc ys y)
  moreover assume "ends_tight s"
  ultimately have "is_graph y" by (simp add: ends_tight_def)
  then have "seq_len (map rev space_seqs) (y # rev ys) = 0"
    by (intro seq_len_zero space_seqs_last)
  with snoc show ?thesis
    by (simp add: trim_right_def trim_seqs.simps [of _ "y # rev ys"])
qed (simp add: ends_tight_def)

lemma trim_space_tight [simp]: "starts_tight s \<Longrightarrow> ends_tight s \<Longrightarrow> trim_space s = s"
  by (simp add: trim_space_def)

lemma trim_seqs_Nil [simp]: "trim_seqs qs [] = []"
  by (simp add: trim_seqs.simps)

lemma trim_space_Nil [simp]: "trim_space [] = []"
  by (simp add: trim_space_def trim_left_def trim_right_def)

lemma seq_len_ascii_space [simp]:
  "seq_len space_seqs (CHR '' '' # s) = 1" 
  "seq_len space_seqs (nl # s) = 1" 
  "seq_len (map rev space_seqs) (CHR '' '' # s) = 1" 
  by (auto simp: space_seqs_def)

lemma trim_left_space [simp]: "trim_left (CHR '' '' # s) = trim_left s"
  by (simp add: trim_left_def trim_seqs.simps [of _ "_ # _"])

lemma trim_right_space [simp]: "trim_right (s @ '' '') = trim_right s"
  by (simp add: trim_right_def trim_seqs.simps [of _ "_ # _"])

lemma trim_space_lead [simp]: "trim_space (CHR '' '' # s) = trim_space s"
  by (simp add: trim_space_def)

lemma trim_space_trail: "starts_tight s \<Longrightarrow> trim_space (s @ '' '') = trim_space s"
  by (auto simp: trim_space_def starts_tight_def)

lemma tight_append [wf_intros]:
  "starts_tight a \<Longrightarrow> starts_tight (a @ b)"
  "ends_tight b \<Longrightarrow> ends_tight (a @ b)"
  by (auto simp: starts_tight_def ends_tight_def)

lemma tight_all_graph [wf_intros]:
  "s \<noteq> [] \<Longrightarrow> \<forall>c \<in> set s. is_graph c \<Longrightarrow> starts_tight s"
  "s \<noteq> [] \<Longrightarrow> \<forall>c \<in> set s. is_graph c \<Longrightarrow> ends_tight s"
  by (auto simp: starts_tight_def ends_tight_def)

lemma trim_seqs_suffix: "\<exists>p. s = p @ trim_seqs qs s"
proof (induction qs s rule: trim_seqs.induct)
  case (1 qs s)
  show ?case
  proof (cases "s = [] \<or> seq_len qs s = 0")
    case False
    with 1 obtain p where "drop (seq_len qs s) s = p @ trim_seqs qs (drop (seq_len qs s) s)" by blast
    then have "s = (take (seq_len qs s) s @ p) @ trim_seqs qs s"
      using False by (metis append.assoc append_take_drop_id trim_seqs.simps)
    then show ?thesis by blast
  qed (simp add: trim_seqs.simps [of qs s])
qed

lemma trim_space_infix: "\<exists>a b. s = a @ trim_space s @ b"
proof -
  obtain a where a: "s = a @ trim_left s" using trim_seqs_suffix [of s space_seqs] by (auto simp: trim_left_def)
  obtain p where "rev (trim_left s) = p @ trim_seqs (map rev space_seqs) (rev (trim_left s))"
    using trim_seqs_suffix [of "rev (trim_left s)" "map rev space_seqs"] by blast
  then have "trim_left s = trim_space s @ rev p"
    by (metis rev_append rev_rev_ident trim_right_def trim_space_def)
  with a show ?thesis by metis
qed

lemma set_trim_space: "set (trim_space s) \<subseteq> set s"
proof -
  obtain a b where "s = a @ trim_space s @ b" using trim_space_infix by blast
  then have "set s = set a \<union> set (trim_space s) \<union> set b" by (metis set_append Un_assoc)
  then show ?thesis by blast
qed

text \<open>Joining visible words by spaces and splitting at white space are inverse.\<close>

lemma fields_from_graph:
  "\<forall>c \<in> set w. is_graph c \<Longrightarrow> fields_from cur (w @ s) = fields_from (rev w @ cur) s"
proof (induction w arbitrary: cur)
  case (Cons c w)
  then have "seq_len space_seqs (c # w @ s) = 0" by (intro seq_len_zero space_seqs_hd) auto
  with Cons show ?case by (simp add: Let_def)
qed simp

lemma fields_join:
  assumes "\<forall>w \<in> set ws. w \<noteq> [] \<and> (\<forall>c \<in> set w. is_graph c)"
  shows "str_fields (join '' '' ws) = ws"
proof -
  have "fields_from [] (join '' '' ws) = ws"
    using assms
  proof (induction "'' ''" ws rule: join.induct)
    case (2 x)
    then have "fields_from [] (x @ []) = [x]" by (subst fields_from_graph) (auto simp: push_field_def)
    then show ?case by simp
  next
    case (3 x y xs)
    then show ?case by (simp add: fields_from_graph push_field_def)
  qed (simp add: push_field_def)
  then show ?thesis by (simp add: str_fields_def)
qed

subsection \<open>Lemmas: decimal numbers\<close>

lemma of_char_digit_char [simp]: "n < 10 \<Longrightarrow> of_char (digit_char n) = 48 + n"
  by simp

lemma is_digit_digit_char [simp]: "n < 10 \<Longrightarrow> is_digit (digit_char n)"
  by (simp add: is_digit_def less_eq_char_def)

lemma digit_val_digit_char [simp]: "n < 10 \<Longrightarrow> digit_val (digit_char n) = n"
  by (simp add: digit_val_def)

declare digit_char.simps [simp del]

lemma nat_digits_not_Nil [simp]: "nat_digits n \<noteq> []"
  by (subst nat_digits.simps) simp

lemma nat_digits_digit: "c \<in> set (nat_digits n) \<Longrightarrow> is_digit c"
proof (induction n rule: nat_digits.induct)
  case (1 n)
  then show ?case
    by (auto simp: nat_digits.simps [of n] split: if_splits)
qed

lemma digits_val_snoc [simp]: "digits_val (s @ [c]) = 10 * digits_val s + digit_val c"
  by (simp add: digits_val_def)

lemma digits_val_nat_digits [simp]: "digits_val (nat_digits n) = n"
proof (induction n rule: nat_digits.induct)
  case (1 n)
  then show ?case
    by (auto simp: nat_digits.simps [of n] digits_val_def split: if_splits)
qed

lemma nat_digits_hd_not_sign: "hd (nat_digits n) \<noteq> CHR ''-'' \<and> hd (nat_digits n) \<noteq> CHR ''+''"
proof -
  have "is_digit (hd (nat_digits n))"
    by (rule nat_digits_digit) (rule hd_in_set, simp)
  then show ?thesis by (auto simp: is_digit_def less_eq_char_def)
qed

lemma atoi_itoa: "- (2 ^ 63) \<le> i \<Longrightarrow> i < 2 ^ 63 \<Longrightarrow> atoi (itoa i) = Some i"
proof (cases "i < 0")
  case True
  assume "- (2 ^ 63) \<le> i" "i < 2 ^ 63"
  with True show ?thesis
    by (auto simp: atoi_def itoa_def Let_def list_all_iff nat_digits_digit)
next
  case False
  assume b: "- (2 ^ 63) \<le> i" "i < 2 ^ 63"
  obtain c cs where c: "nat_digits (nat i) = c # cs" by (cases "nat_digits (nat i)") auto
  with nat_digits_hd_not_sign [of "nat i"]
  have "\<not> has_prefix ''-'' (nat_digits (nat i))" "\<not> has_prefix ''+'' (nat_digits (nat i))" by auto
  with False b show ?thesis
    by (auto simp: atoi_def itoa_def Let_def list_all_iff nat_digits_digit)
qed

end
