(* ===== verification/Paths.thy ===== *)
theory Paths
  imports Prelude
begin

text \<open>
  Package \<open>path/filepath\<close> on Unix paths, and what the kernel makes of a path: the list of
  names it resolves to from the root, relative paths starting at the working directory.
  Symbolic links are not modelled, so \<open>..\<close> is resolved lexically.
\<close>

type_synonym path = "string list"

text \<open>A file name: one path element that is neither empty nor a dot name.\<close>

definition name_ok :: "string \<Rightarrow> bool" where
  "name_ok n \<longleftrightarrow> n \<noteq> [] \<and> CHR ''/'' \<notin> set n \<and> n \<noteq> ''.'' \<and> n \<noteq> ''..''"

text \<open>
  The loop of \<open>filepath.Clean\<close> over the elements of a path; \<open>acc\<close> holds the elements kept,
  last first. A rooted path drops a leading \<open>..\<close>, a relative one keeps it.
\<close>

fun clean_elems :: "bool \<Rightarrow> string list \<Rightarrow> string list \<Rightarrow> string list" where
  "clean_elems rooted acc [] = rev acc"
| "clean_elems rooted acc (x # xs) =
     (if x = [] \<or> x = ''.'' then clean_elems rooted acc xs
      else if x = ''..'' then
        (if acc \<noteq> [] \<and> hd acc \<noteq> ''..'' then clean_elems rooted (tl acc) xs
         else if rooted then clean_elems rooted acc xs
         else clean_elems rooted (''..'' # acc) xs)
      else clean_elems rooted (x # acc) xs)"

definition filepath_clean :: "string \<Rightarrow> string" where
  "filepath_clean s =
     (let rooted = has_prefix ''/'' s;
          es = clean_elems rooted [] (split_on CHR ''/'' s)
      in if rooted then ''/'' @ join ''/'' es
         else if es = [] then ''.'' else join ''/'' es)"

text \<open>\<open>filepath.Join\<close>.\<close>

definition filepath_join :: "string list \<Rightarrow> string" where
  "filepath_join xs =
     (case dropWhile (\<lambda>x. x = []) xs of [] \<Rightarrow> [] | ys \<Rightarrow> filepath_clean (join ''/'' ys))"

text \<open>\<open>filepath.Dir\<close> and \<open>filepath.Base\<close>.\<close>

definition filepath_dir :: "string \<Rightarrow> string" where
  "filepath_dir s = filepath_clean (rev (dropWhile (\<lambda>c. c \<noteq> CHR ''/'') (rev s)))"

definition filepath_base :: "string \<Rightarrow> string" where
  "filepath_base s =
     (if s = [] then ''.''
      else (let t = dropWhile (\<lambda>c. c = CHR ''/'') (rev s)
            in if t = [] then ''/'' else rev (takeWhile (\<lambda>c. c \<noteq> CHR ''/'') t)))"

text \<open>The names a path resolves to, from working directory \<open>wd\<close>.\<close>

definition resolve :: "path \<Rightarrow> string \<Rightarrow> path" where
  "resolve wd s =
     clean_elems True (if has_prefix ''/'' s then [] else rev wd) (split_on CHR ''/'' s)"

subsection \<open>Lemmas\<close>

lemma name_ok_simps:
  "name_ok n \<Longrightarrow> n \<noteq> []" "name_ok n \<Longrightarrow> n \<noteq> ''.''" "name_ok n \<Longrightarrow> n \<noteq> ''..''"
  "name_ok n \<Longrightarrow> split_on CHR ''/'' n = [n]"
  by (auto simp: name_ok_def split_on_notin)

lemma clean_elems_append:
  "clean_elems True acc (xs @ ys) = clean_elems True (rev (clean_elems True acc xs)) ys"
  by (induction xs arbitrary: acc) auto

lemma clean_elems_set:
  "x \<in> set (clean_elems r acc xs) \<Longrightarrow>
     x \<in> set acc \<or> x \<in> set xs \<and> x \<noteq> [] \<and> x \<noteq> ''.'' \<or> \<not> r \<and> x = ''..''"
proof (induction xs arbitrary: acc)
  case (Cons y ys)
  have "x \<in> set (tl acc) \<Longrightarrow> x \<in> set acc" by (cases acc) auto
  with Cons.prems Cons.IH [of acc] Cons.IH [of "tl acc"] Cons.IH [of "y # acc"]
    Cons.IH [of "''..'' # acc"]
  show ?case by (simp split: if_splits) blast+
qed simp

lemma clean_elems_no_dots:
  "''..'' \<notin> set acc \<Longrightarrow> ''..'' \<notin> set (clean_elems True acc xs)"
proof (induction xs arbitrary: acc)
  case (Cons y ys)
  have "''..'' \<notin> set (tl acc)" using Cons.prems by (cases acc) auto
  with Cons show ?case by auto
qed simp

lemma clean_elems_name_ok:
  "\<forall>x \<in> set acc. name_ok x \<Longrightarrow> \<forall>x \<in> set xs. CHR ''/'' \<notin> set x \<Longrightarrow>
     \<forall>x \<in> set (clean_elems True acc xs). name_ok x"
  using clean_elems_set [of _ True acc xs] clean_elems_no_dots [of acc xs]
  by (fastforce simp: name_ok_def)

lemma resolve_name_ok:
  "\<forall>x \<in> set wd. name_ok x \<Longrightarrow> x \<in> set (resolve wd s) \<Longrightarrow> name_ok x"
proof -
  assume a: "\<forall>x \<in> set wd. name_ok x" "x \<in> set (resolve wd s)"
  have "\<forall>y \<in> set (resolve wd s). name_ok y"
    unfolding resolve_def
    by (rule clean_elems_name_ok) (use a in \<open>auto dest: split_on_notin_set\<close>)
  with a show "name_ok x" by blast
qed

lemma clean_elems_names:
  "\<forall>x \<in> set es. name_ok x \<Longrightarrow> clean_elems r acc es = rev acc @ es"
  by (induction es arbitrary: acc) (auto simp: name_ok_simps)

lemma split_on_join:
  "\<forall>x \<in> set es. c \<notin> set x \<Longrightarrow> es \<noteq> [] \<Longrightarrow> split_on c (join [c] es) = es"
  by (induction "[c]" es rule: join.induct) (auto simp: split_on_append split_on_notin)

text \<open>Cleaning a relative path first does not change what it resolves to.\<close>

lemma clean_elems_rel:
  "\<forall>x \<in> set acc. x \<noteq> [] \<and> x \<noteq> ''.'' \<Longrightarrow>
     clean_elems True w (clean_elems False acc xs) = clean_elems True w (rev acc @ xs)"
proof (induction xs arbitrary: acc)
  case (Cons x xs)
  let ?R = "rev (clean_elems True w (rev acc))"
  show ?case
  proof (cases "x = [] \<or> x = ''.''")
    case True
    then show ?thesis using Cons by (simp add: clean_elems_append)
  next
    case x: False
    show ?thesis
    proof (cases "x = ''..'' \<and> acc \<noteq> [] \<and> hd acc \<noteq> ''..''")
      case True
      then obtain a as where acc: "acc = a # as" "a \<noteq> ''..''" by (cases acc) auto
      with True Cons.prems Cons.IH [of as] show ?thesis by (simp add: clean_elems_append)
    next
      case False
      with x have "clean_elems False acc (x # xs) = clean_elems False (x # acc) xs" by auto
      with x Cons show ?thesis by simp
    qed
  qed
qed simp

lemma resolve_clean:
  assumes "s \<noteq> []"
  shows "resolve wd (filepath_clean s) = resolve wd s"
proof (cases "has_prefix ''/'' s")
  case True
  let ?es = "clean_elems True [] (split_on CHR ''/'' s)"
  have ok: "\<forall>x \<in> set ?es. name_ok x"
    by (rule clean_elems_name_ok) (auto dest: split_on_notin_set)
  then have sl: "\<forall>x \<in> set ?es. CHR ''/'' \<notin> set x" by (auto simp: name_ok_def)
  have "clean_elems True [] (split_on CHR ''/'' (CHR ''/'' # join ''/'' ?es)) = ?es"
  proof (cases "?es = []")
    case False
    then show ?thesis
      using split_on_join [OF sl False] clean_elems_names [OF ok] by simp
  qed simp
  then show ?thesis using True by (simp add: resolve_def filepath_clean_def Let_def)
next
  case False
  let ?xs = "split_on CHR ''/'' s"
  let ?es = "clean_elems False [] ?xs"
  have el: "\<forall>x \<in> set ?es. x \<noteq> [] \<and> CHR ''/'' \<notin> set x"
    using clean_elems_set [of _ False "[]" ?xs] by (fastforce dest: split_on_notin_set)
  have main: "clean_elems True (rev wd) ?es = clean_elems True (rev wd) ?xs"
    using clean_elems_rel [of "[]"] by simp
  show ?thesis
  proof (cases "?es = []")
    case True
    with False main show ?thesis
      by (simp add: resolve_def filepath_clean_def Let_def)
  next
    case es: False
    then obtain y ys where y: "?es = y # ys" by (cases ?es) auto
    with el obtain c z where c: "y = c # z" "c \<noteq> CHR ''/''" by (cases y) auto
    have "\<not> has_prefix ''/'' (join ''/'' ?es)" using y c by (cases ys) auto
    with False es el main show ?thesis
      by (simp add: resolve_def filepath_clean_def Let_def split_on_join)
  qed
qed

lemma resolve_slash_name:
  assumes "name_ok n" "d \<noteq> []"
  shows "resolve wd (d @ ''/'' @ n) = resolve wd d @ [n]"
proof -
  have "has_prefix ''/'' (d @ ''/'' @ n) \<longleftrightarrow> has_prefix ''/'' d" using assms(2) by (cases d) auto
  then show ?thesis
    using assms(1) by (auto simp: resolve_def split_on_append name_ok_simps clean_elems_append)
qed

lemma filepath_join2: "d \<noteq> [] \<Longrightarrow> filepath_join [d, n] = filepath_clean (d @ ''/'' @ n)"
  by (simp add: filepath_join_def)

lemma resolve_join_name:
  "name_ok n \<Longrightarrow> d \<noteq> [] \<Longrightarrow> resolve wd (filepath_join [d, n]) = resolve wd d @ [n]"
  by (simp add: filepath_join2 resolve_clean resolve_slash_name del: append.simps)

lemma filepath_clean_not_Nil [simp]: "filepath_clean s \<noteq> []"
proof -
  have "join sep es \<noteq> []" if "es \<noteq> []" "\<forall>x \<in> set es. x \<noteq> []" for sep and es :: "string list"
    using that by (cases "(sep, es)" rule: join.cases) auto
  moreover have "\<forall>x \<in> set (clean_elems False [] xs). x \<noteq> []" for xs
    using clean_elems_set [of _ False "[]" xs] by fastforce
  ultimately show ?thesis by (auto simp: filepath_clean_def Let_def)
qed

lemma filepath_base_name:
  assumes "name_ok n"
  shows "filepath_base (d @ ''/'' @ n) = n"
proof -
  have n: "n \<noteq> []" "CHR ''/'' \<notin> set n" using assms by (auto simp: name_ok_def)
  then obtain c r where r: "rev n = c # r" "c \<noteq> CHR ''/''" by (cases "rev n") auto
  have "takeWhile (\<lambda>c. c \<noteq> CHR ''/'') (rev n @ CHR ''/'' # rev d) = rev n"
    using n(2) by (subst takeWhile_append2) auto
  with r show ?thesis by (simp add: filepath_base_def Let_def)
qed

lemma resolve_dir_name:
  assumes "name_ok n" "d \<noteq> []"
  shows "resolve wd (filepath_dir (d @ ''/'' @ n)) = resolve wd d"
proof -
  have "dropWhile (\<lambda>c. c \<noteq> CHR ''/'') (rev n @ CHR ''/'' # rev d) = CHR ''/'' # rev d"
    using assms(1) by (subst dropWhile_append2) (auto simp: name_ok_def)
  then have "filepath_dir (d @ ''/'' @ n) = filepath_clean (d @ ''/'')"
    by (simp add: filepath_dir_def)
  moreover have "has_prefix ''/'' (d @ ''/'') \<longleftrightarrow> has_prefix ''/'' d" using assms(2) by (cases d) auto
  then have "resolve wd (d @ ''/'') = resolve wd d"
    by (simp add: resolve_def split_on_append clean_elems_append)
  ultimately show ?thesis by (simp add: resolve_clean)
qed

end
