(* ===== verification/GoTime.thy ===== *)
theory GoTime
  imports Prelude
begin

text \<open>
  The part of package \<open>time\<close> the sources use. A \<open>time.Time\<close> is an instant (whole seconds
  and nanoseconds since 0001-01-01T00:00:00Z, the zero \<open>Time\<close>) with the UTC offset of its
  location in seconds. The calendar is Go's proleptic Gregorian one, split into 400-, 100-, 4-
  and 1-year cycles; formatting and parsing follow \<open>time.RFC3339\<close>, the leniencies of
  \<open>time.Parse\<close> included (one-digit hours, fractional seconds after a dot or a comma,
  offsets of 24 hours and 60 minutes). The second layout is the file-name stamp of the
  configuration snapshots, \<open>2006-01-02T15-04-05Z\<close>.
\<close>

record gotime =
  secs :: int
  nsec :: int
  offs :: int

definition zero_time :: gotime where
  "zero_time = \<lparr>secs = 0, nsec = 0, offs = 0\<rparr>"

text \<open>\<open>Time.UTC\<close>: the same instant at offset 0.\<close>

definition utc :: "gotime \<Rightarrow> gotime" where
  "utc t = t\<lparr>offs := 0\<rparr>"

subsection \<open>The calendar\<close>

definition leap :: "int \<Rightarrow> bool" where
  "leap y \<longleftrightarrow> y mod 4 = 0 \<and> (y mod 100 \<noteq> 0 \<or> y mod 400 = 0)"

definition month_lengths :: "int \<Rightarrow> int list" where
  "month_lengths y = [31, if leap y then 29 else 28, 31, 30, 31, 30, 31, 31, 30, 31, 30, 31]"

fun month_day :: "int list \<Rightarrow> int \<Rightarrow> int \<Rightarrow> int \<times> int" where
  "month_day [] m d = (m, d + 1)"
| "month_day (l # ls) m d = (if d < l then (m, d + 1) else month_day ls (m + 1) (d - l))"

definition civil_of_days :: "int \<Rightarrow> int \<times> int \<times> int" where
  "civil_of_days n =
     (let n400 = n div 146097; d = n mod 146097;
          n100 = min 3 (d div 36524); d = d - 36524 * n100;
          n4 = d div 1461; d = d - 1461 * n4;
          n1 = min 3 (d div 365); yday = d - 365 * n1;
          y = 400 * n400 + 100 * n100 + 4 * n4 + n1 + 1
      in (y, month_day (month_lengths y) 1 yday))"

definition days_before_year :: "int \<Rightarrow> int" where
  "days_before_year y = 365 * (y - 1) + (y - 1) div 4 - (y - 1) div 100 + (y - 1) div 400"

definition days_of_civil :: "int \<Rightarrow> int \<Rightarrow> int \<Rightarrow> int" where
  "days_of_civil y m d =
     days_before_year y + sum_list (take (nat (m - 1)) (month_lengths y)) + d - 1"

definition valid_date :: "int \<Rightarrow> int \<Rightarrow> int \<Rightarrow> bool" where
  "valid_date y m d \<longleftrightarrow> 1 \<le> m \<and> m \<le> 12 \<and> 1 \<le> d \<and> d \<le> month_lengths y ! nat (m - 1)"

lemma month_lengths_sum: "sum_list (month_lengths y) = (if leap y then 366 else 365)"
  by (simp add: month_lengths_def)

lemma month_day_spec:
  assumes "month_day ls m0 n = (m, d)" "0 \<le> n" "n < sum_list ls"
  shows "m0 \<le> m \<and> m < m0 + int (length ls) \<and> 1 \<le> d \<and> d \<le> ls ! nat (m - m0) \<and>
    sum_list (take (nat (m - m0)) ls) + d - 1 = n"
  using assms
proof (induction ls m0 n rule: month_day.induct)
  case (2 l ls m0 n)
  show ?case
  proof (cases "n < l")
    case False
    with 2 have IH: "m0 + 1 \<le> m \<and> m < m0 + 1 + int (length ls) \<and> 1 \<le> d \<and>
        d \<le> ls ! nat (m - (m0 + 1)) \<and> sum_list (take (nat (m - (m0 + 1))) ls) + d - 1 = n - l"
      by simp
    then have "nat (m - m0) = Suc (nat (m - (m0 + 1)))"
      by (simp add: Suc_nat_eq_nat_zadd1 algebra_simps)
    with IH show ?thesis by simp
  qed (use 2 in auto)
qed simp

lemma mod_eqI: "(x :: int) = n * k + r \<Longrightarrow> x mod n = r mod n"
  by simp

lemma mod_topI: "1 \<le> x \<Longrightarrow> x \<le> n \<Longrightarrow> x mod n = 0 \<longleftrightarrow> x = (n :: int)"
  by (cases "x = n") auto

text \<open>A year or century of a four-fold cycle whose last part may be one day longer.\<close>

lemma four_cycle:
  fixes r k :: int
  assumes "0 \<le> r" "r \<le> 4 * k" "0 < k" "e = min 3 (r div k)"
  shows "0 \<le> e \<and> e \<le> 3 \<and> 0 \<le> r - k * e \<and> r - k * e \<le> k \<and>
    (e < 3 \<or> r < 4 * k \<longrightarrow> r - k * e < k)"
proof (cases "r < 4 * k")
  case True
  have "r div k < 4"
  proof (rule ccontr)
    assume "\<not> r div k < 4"
    then have "k * 4 \<le> k * (r div k)" using assms(3) by simp
    also have "\<dots> \<le> r" using assms(3) mult_div_mod_eq [of k r] pos_mod_sign [of k r] by linarith
    finally show False using True by simp
  qed
  with assms show ?thesis
    by (simp add: minus_mult_div_eq_mod pos_imp_zdiv_nonneg_iff order_less_imp_le)
next
  case False
  with assms have "r = 4 * k" by simp
  with assms show ?thesis by simp
qed

lemma leap_cycle:
  assumes "0 \<le> b" "b \<le> 3" "0 \<le> c" "c \<le> 24" "0 \<le> e" "e \<le> (3 :: int)"
  shows "leap (400 * a + 100 * b + 4 * c + e + 1) \<longleftrightarrow> e = 3 \<and> (c \<noteq> 24 \<or> b = 3)"
proof -
  let ?y = "400 * a + 100 * b + 4 * c + e + 1"
  have m4: "?y mod 4 = (e + 1) mod 4"
    by (rule mod_eqI [where k = "100 * a + 25 * b + c"]) simp
  have m100: "?y mod 100 = (4 * c + e + 1) mod 100"
    by (rule mod_eqI [where k = "4 * a + b"]) simp
  have m400: "?y mod 400 = (100 * b + 4 * c + e + 1) mod 400"
    by (rule mod_eqI [where k = a]) simp
  have "(e + 1) mod 4 = 0 \<longleftrightarrow> e = 3"
    by (subst mod_topI) (use assms in auto)
  moreover have "(4 * c + e + 1) mod 100 = 0 \<longleftrightarrow> c = 24 \<and> e = 3"
    by (subst mod_topI) (use assms in \<open>linarith | (rule iffI; (elim conjE)?; (intro conjI)?; linarith)\<close>)+
  moreover have "(100 * b + 4 * c + e + 1) mod 400 = 0 \<longleftrightarrow> b = 3 \<and> c = 24 \<and> e = 3"
    by (subst mod_topI) (use assms in \<open>linarith | (rule iffI; (elim conjE)?; (intro conjI)?; linarith)\<close>)+
  ultimately show ?thesis unfolding leap_def m4 m100 m400 by auto
qed

lemma days_before_year_cycle:
  assumes "0 \<le> b" "b \<le> 3" "0 \<le> c" "c \<le> 24" "0 \<le> e" "e \<le> (3 :: int)"
  shows "days_before_year (400 * a + 100 * b + 4 * c + e + 1) =
    146097 * a + 36524 * b + 1461 * c + 365 * e"
proof -
  let ?y = "400 * a + 100 * b + 4 * c + e"
  have "?y div 4 = 100 * a + 25 * b + c" "?y div 100 = 4 * a + b" "?y div 400 = a"
    by (rule int_div_pos_eq, simp, use assms in simp, use assms in simp)+
  then show ?thesis by (simp add: days_before_year_def)
qed

lemma civil_of_days_spec:
  assumes "civil_of_days n = (y, m, d)"
  shows "valid_date y m d \<and> days_of_civil y m d = n"
proof -
  define a where "a = n div 146097"
  define r where "r = n mod 146097"
  define b where "b = min 3 (r div 36524)"
  define r1 where "r1 = r - 36524 * b"
  define c where "c = r1 div 1461"
  define r2 where "r2 = r1 - 1461 * c"
  define e where "e = min 3 (r2 div 365)"
  define yd where "yd = r2 - 365 * e"
  have n: "n = 146097 * a + 36524 * b + 1461 * c + 365 * e + yd"
    by (simp add: a_def r_def yd_def r2_def r1_def algebra_simps)
  have r: "0 \<le> r" "r < 146097" by (simp_all add: r_def)
  have b: "0 \<le> b" "b \<le> 3" and r1: "0 \<le> r1" "r1 \<le> 36524" "b < 3 \<Longrightarrow> r1 < 36524"
    using four_cycle [of r 36524 b] r by (auto simp: b_def r1_def)
  have "c = r1 div 1461" "r2 = r1 mod 1461" by (simp_all add: c_def r2_def minus_mult_div_eq_mod)
  then have c: "0 \<le> c" "c \<le> 24" and r2: "0 \<le> r2" "r2 \<le> 4 * 365" "c = 24 \<Longrightarrow> b < 3 \<Longrightarrow> r2 < 4 * 365"
    using r1 div_mult_mod_eq [of r1 1461] by auto
  have e: "0 \<le> e" "e \<le> 3" and yd: "0 \<le> yd" "yd \<le> 365" "e < 3 \<or> r2 < 4 * 365 \<Longrightarrow> yd < 365"
    using four_cycle [of r2 365 e] r2 by (auto simp: e_def yd_def)
  let ?y = "400 * a + 100 * b + 4 * c + e + 1"
  have "civil_of_days n = (?y, month_day (month_lengths ?y) 1 yd)"
    by (simp only: civil_of_days_def Let_def a_def b_def c_def e_def r_def r1_def r2_def yd_def)
  then have y: "y = ?y" and md: "month_day (month_lengths y) 1 yd = (m, d)"
    using assms by (simp_all only: prod.inject)
  have "leap y \<longleftrightarrow> e = 3 \<and> (c \<noteq> 24 \<or> b = 3)"
    unfolding y by (rule leap_cycle) (use b c e in auto)
  then have "yd < sum_list (month_lengths y)"
    using yd r2 b c e by (auto simp: month_lengths_sum)
  from month_day_spec [OF md yd(1) this]
  have md': "1 \<le> m \<and> m < 13 \<and> 1 \<le> d \<and> d \<le> month_lengths y ! nat (m - 1) \<and>
      sum_list (take (nat (m - 1)) (month_lengths y)) + d - 1 = yd"
    by (simp add: month_lengths_def)
  moreover have "days_before_year y = 146097 * a + 36524 * b + 1461 * c + 365 * e"
    unfolding y by (rule days_before_year_cycle) (use b c e in auto)
  ultimately show ?thesis by (auto simp: valid_date_def days_of_civil_def n)
qed

subsection \<open>Formatting\<close>

text \<open>\<open>appendInt(x, width)\<close>: decimal, a sign if negative, zero-padded to the width.\<close>

definition pad_int :: "nat \<Rightarrow> int \<Rightarrow> string" where
  "pad_int w x =
     (let ds = nat_digits (nat \<bar>x\<bar>)
      in (if x < 0 then ''-'' else []) @ replicate (w - length ds) CHR ''0'' @ ds)"

definition clock_of :: "int \<Rightarrow> int \<times> int \<times> int" where
  "clock_of s = (s div 3600, s div 60 mod 60, s mod 60)"

definition format_zone :: "int \<Rightarrow> string" where
  "format_zone z =
     (if z = 0 then ''Z''
      else (let m = \<bar>z\<bar> div 60
            in (if z \<le> - 60 then ''-'' else ''+'') @ pad_int 2 (m div 60) @ '':'' @ pad_int 2 (m mod 60)))"

text \<open>\<open>t.Format(time.RFC3339)\<close>.\<close>

definition format_rfc3339 :: "gotime \<Rightarrow> string" where
  "format_rfc3339 t =
     (let l = secs t + offs t;
          (y, mo, d) = civil_of_days (l div 86400);
          (h, mi, s) = clock_of (l mod 86400)
      in pad_int 4 y @ ''-'' @ pad_int 2 mo @ ''-'' @ pad_int 2 d @ ''T'' @
         pad_int 2 h @ '':'' @ pad_int 2 mi @ '':'' @ pad_int 2 s @ format_zone (offs t))"

text \<open>\<open>t.Format("2006-01-02T15-04-05Z")\<close>, the stamp of a snapshot's file name.\<close>

definition format_stamp :: "gotime \<Rightarrow> string" where
  "format_stamp t =
     (let l = secs t + offs t;
          (y, mo, d) = civil_of_days (l div 86400);
          (h, mi, s) = clock_of (l mod 86400)
      in pad_int 4 y @ ''-'' @ pad_int 2 mo @ ''-'' @ pad_int 2 d @ ''T'' @
         pad_int 2 h @ ''-'' @ pad_int 2 mi @ ''-'' @ pad_int 2 s @ ''Z'')"

subsection \<open>Parsing\<close>

definition digit_at :: "string \<Rightarrow> nat \<Rightarrow> bool" where
  "digit_at s i \<longleftrightarrow> i < length s \<and> is_digit (s ! i)"

text \<open>\<open>getnum(s, fixed)\<close>: one or two leading digits, exactly two if \<open>fixed\<close>.\<close>

definition getnum :: "bool \<Rightarrow> string \<Rightarrow> (int \<times> string) option" where
  "getnum fixed s =
     (if \<not> digit_at s 0 then None
      else if \<not> digit_at s 1
      then (if fixed then None else Some (int (digits_val (take 1 s)), drop 1 s))
      else Some (int (digits_val (take 2 s)), drop 2 s))"

definition get_year :: "string \<Rightarrow> (int \<times> string) option" where
  "get_year s =
     (if length s < 4 \<or> \<not> list_all is_digit (take 4 s) then None
      else Some (int (digits_val (take 4 s)), drop 4 s))"

definition skip :: "char \<Rightarrow> string \<Rightarrow> string option" where
  "skip c s = (case s of [] \<Rightarrow> None | x # xs \<Rightarrow> if x = c then Some xs else None)"

definition in_range :: "int \<Rightarrow> int \<Rightarrow> (int \<times> string) option \<Rightarrow> (int \<times> string) option" where
  "in_range lo hi r = (case r of None \<Rightarrow> None
     | Some (x, s) \<Rightarrow> if lo \<le> x \<and> x \<le> hi then Some (x, s) else None)"

text \<open>
  The optional fraction after the seconds: a dot or a comma and digits, of which at most nine
  count (\<open>parseNanoseconds\<close>).
\<close>

definition get_fraction :: "string \<Rightarrow> int \<times> string" where
  "get_fraction s =
     (if s \<noteq> [] \<and> (hd s = CHR ''.'' \<or> hd s = CHR '','') \<and> digit_at s 1
      then (let ds = takeWhile is_digit (tl s); k = take 9 ds
            in (int (digits_val k) * 10 ^ (9 - length k), drop (length ds) (tl s)))
      else (0, s))"

text \<open>The chunk \<open>Z07:00\<close>, which must end the value.\<close>

definition get_zone :: "string \<Rightarrow> int option" where
  "get_zone s =
     (if has_prefix ''Z'' s then (if tl s = [] then Some 0 else None)
      else if length s \<noteq> 6 \<or> s ! 3 \<noteq> CHR '':'' then None
      else (case (getnum True (take 2 (drop 1 s)), getnum True (take 2 (drop 4 s))) of
          (Some (hh, _), Some (mm, _)) \<Rightarrow>
            if hh > 24 \<or> mm > 60 then None
            else if hd s = CHR ''+'' then Some ((hh * 60 + mm) * 60)
            else if hd s = CHR ''-'' then Some (- ((hh * 60 + mm) * 60))
            else None
        | _ \<Rightarrow> None))"

text \<open>\<open>time.Parse(time.RFC3339, s)\<close>; \<open>None\<close> is a non-nil error.\<close>

definition parse_rfc3339 :: "string \<Rightarrow> gotime option" where
  "parse_rfc3339 s0 =
     Option.bind (get_year s0) (\<lambda>(y, s1).
     Option.bind (Option.bind (skip CHR ''-'' s1) (in_range 1 12 \<circ> getnum True)) (\<lambda>(mo, s2).
     Option.bind (Option.bind (skip CHR ''-'' s2) (getnum True)) (\<lambda>(d, s3).
     Option.bind (Option.bind (skip CHR ''T'' s3) (in_range 0 23 \<circ> getnum False)) (\<lambda>(h, s4).
     Option.bind (Option.bind (skip CHR '':'' s4) (in_range 0 59 \<circ> getnum True)) (\<lambda>(mi, s5).
     Option.bind (Option.bind (skip CHR '':'' s5) (in_range 0 59 \<circ> getnum True)) (\<lambda>(sc, s6).
     (let (ns, s7) = get_fraction s6
      in Option.bind (get_zone s7) (\<lambda>z.
           if valid_date y mo d
           then Some \<lparr>secs = days_of_civil y mo d * 86400 + h * 3600 + mi * 60 + sc - z,
                      nsec = ns, offs = z\<rparr>
           else None))))))))"

subsection \<open>Lemmas: padded numbers\<close>

lemma nat_digits_length: "n < 10 ^ w \<Longrightarrow> 0 < w \<Longrightarrow> length (nat_digits n) \<le> w"
proof (induction n arbitrary: w rule: nat_digits.induct)
  case (1 n)
  show ?case
  proof (cases "n < 10")
    case True
    with 1 show ?thesis by (simp add: nat_digits.simps [of n])
  next
    case False
    with "1.prems" obtain v where w: "w = Suc v" "0 < v"
      by (cases w; cases "w - 1") auto
    with "1.prems" have "n div 10 < 10 ^ v" by (simp add: div_less_iff_less_mult mult.commute)
    with "1.IH" [OF False this] w False show ?thesis by (simp add: nat_digits.simps [of n])
  qed
qed

lemma digits_val_zeros: "digits_val (replicate k CHR ''0'' @ ds) = digits_val ds"
  by (induction k) (auto simp: digits_val_def digit_val_def)

lemma pad_int_props:
  assumes "0 \<le> x" "x < 10 ^ w" "0 < w"
  shows "length (pad_int w x) = w" "list_all is_digit (pad_int w x)"
    "int (digits_val (pad_int w x)) = x"
proof -
  have "nat x < 10 ^ w" using assms by (simp add: nat_less_iff)
  then have "length (nat_digits (nat x)) \<le> w" using assms(3) by (rule nat_digits_length)
  then show "length (pad_int w x) = w" using assms by (simp add: pad_int_def Let_def)
  show "list_all is_digit (pad_int w x)"
    using assms by (auto simp: pad_int_def Let_def list_all_iff is_digit_def
        dest: nat_digits_digit [unfolded is_digit_def])
  show "int (digits_val (pad_int w x)) = x"
    using assms by (simp add: pad_int_def Let_def digits_val_zeros)
qed

lemmas pad2 = pad_int_props [where w = 2, simplified]
lemmas pad4 = pad_int_props [where w = 4, simplified]

lemma getnum_pad2: "0 \<le> x \<Longrightarrow> x < 100 \<Longrightarrow> getnum f (pad_int 2 x @ r) = Some (x, r)"
  using pad2 [of x]
  by (auto simp: getnum_def digit_at_def list_all_length nth_append)

lemma get_year_pad4: "0 \<le> x \<Longrightarrow> x < 10000 \<Longrightarrow> get_year (pad_int 4 x @ r) = Some (x, r)"
  using pad4 [of x] by (auto simp: get_year_def)

lemma clock_sum:
  "a = b \<Longrightarrow> q * 60 + r = n \<Longrightarrow> b * 60 + c = q \<Longrightarrow> a * 3600 + c * 60 + r = (n :: int)"
  by simp

lemma clock_of_spec:
  assumes "clock_of n = (h, m, s)" "0 \<le> n" "n < 86400"
  shows "h * 3600 + m * 60 + s = n" "0 \<le> h" "h < 24" "0 \<le> m" "m < 60" "0 \<le> s" "s < 60"
proof -
  have e: "h = n div 3600" "m = n div 60 mod 60" "s = n mod 60"
    using assms(1) by (simp_all add: clock_of_def)
  have "n div 3600 = n div 60 div 60"
    using zdiv_zmult2_eq [of 60 n 60] by simp
  then show sum: "h * 3600 + m * 60 + s = n"
    unfolding e by (rule clock_sum) (rule div_mult_mod_eq)+
  show m: "0 \<le> m" "m < 60" and s: "0 \<le> s" "s < 60" unfolding e by simp_all
  show "0 \<le> h" unfolding e using assms(2) by (simp only: pos_imp_zdiv_nonneg_iff)
  show "h < 24" using sum m s assms(3) by linarith
qed

lemma format_zone_fraction: "get_fraction (format_zone z) = (0, format_zone z)"
  by (cases "z = 0"; cases "z \<le> - 60") (simp_all add: get_fraction_def format_zone_def Let_def)

lemma get_zone_format_zone:
  assumes "z mod 60 = 0" "\<bar>z\<bar> < 90000"
  shows "get_zone (format_zone z) = Some z"
proof (cases "z = 0")
  case False
  define m where "m = \<bar>z\<bar> div 60"
  have z: "\<bar>z\<bar> = 60 * m" using assms(1) by (auto simp: m_def abs_if zmod_zminus1_eq_if)
  have m: "0 \<le> m div 60" "m div 60 < 100" "m div 60 \<le> 24" "0 \<le> m mod 60" "m mod 60 < 100" "m mod 60 \<le> 60"
    using assms z by (auto intro: order_less_imp_le)
  have "length (pad_int 2 (m div 60)) = 2" "length (pad_int 2 (m mod 60)) = 2"
    using pad2 m by auto
  then obtain a b c d where p: "pad_int 2 (m div 60) = [a, b]" "pad_int 2 (m mod 60) = [c, d]"
    by (auto simp: numeral_2_eq_2 length_Suc_conv)
  have g: "getnum True [a, b] = Some (m div 60, [])" "getnum True [c, d] = Some (m mod 60, [])"
    using getnum_pad2 [of "m div 60" True "[]"] getnum_pad2 [of "m mod 60" True "[]"] m p by auto
  have zz: "z = (if z \<le> - 60 then - (60 * m) else 60 * m)" "m div 60 * 60 + m mod 60 = m"
    using z False assms(1) by auto
  have "get_zone ((if z \<le> - 60 then ''-'' else ''+'') @ [a, b] @ '':'' @ [c, d]) = Some z"
    using m zz by (auto simp: get_zone_def g numeral_eq_Suc algebra_simps split: if_splits)
  with False show ?thesis by (simp add: format_zone_def Let_def p flip: m_def)
qed (simp add: format_zone_def get_zone_def)

definition year_of :: "gotime \<Rightarrow> int" where
  "year_of t = fst (civil_of_days ((secs t + offs t) div 86400))"

lemma valid_date_bounds:
  "valid_date y m d \<Longrightarrow> 1 \<le> m \<and> m \<le> 12 \<and> 1 \<le> d \<and> d \<le> 31"
proof -
  assume v: "valid_date y m d"
  have "l \<in> set (month_lengths y) \<Longrightarrow> l \<le> 31" for l by (auto simp: month_lengths_def)
  moreover have "month_lengths y ! nat (m - 1) \<in> set (month_lengths y)"
    using v by (intro nth_mem) (auto simp: valid_date_def month_lengths_def)
  ultimately have "month_lengths y ! nat (m - 1) \<le> 31" by blast
  with v show ?thesis by (auto simp: valid_date_def)
qed

lemma parse_format_rfc3339:
  assumes "0 \<le> year_of t" "year_of t < 10000" "offs t mod 60 = 0" "\<bar>offs t\<bar> < 90000"
  shows "parse_rfc3339 (format_rfc3339 t) = Some (t\<lparr>nsec := 0\<rparr>)"
proof -
  define l where "l = secs t + offs t"
  obtain y mo d where c: "civil_of_days (l div 86400) = (y, mo, d)" by (metis prod_cases3)
  obtain h mi s where k: "clock_of (l mod 86400) = (h, mi, s)" by (metis prod_cases3)
  have v: "valid_date y mo d" "days_of_civil y mo d = l div 86400"
    using civil_of_days_spec [OF c] by auto
  note b = valid_date_bounds [OF v(1)]
  note clk = clock_of_spec [OF k, simplified]
  have y: "0 \<le> y" "y < 10000" using assms c by (auto simp: year_of_def l_def)
  have secs: "l div 86400 * 86400 + h * 3600 + mi * 60 + s = l"
    using clk(1) div_mult_mod_eq [of l 86400] by linarith
  have "parse_rfc3339 (format_rfc3339 t) =
      Some \<lparr>secs = l div 86400 * 86400 + h * 3600 + mi * 60 + s - offs t, nsec = 0, offs = offs t\<rparr>"
    using b clk y v assms
    by (simp add: format_rfc3339_def parse_rfc3339_def c k get_year_pad4 getnum_pad2 skip_def
        in_range_def format_zone_fraction get_zone_format_zone flip: l_def)
  then show ?thesis by (simp add: secs) (simp add: l_def)
qed


subsection \<open>Lemmas: the stamp sorts as time does\<close>

lemma div_succ: "0 < k \<Longrightarrow> y div k = (y - 1) div k + (if y mod k = 0 then 1 else (0 :: int))"
proof -
  assume k: "0 < k"
  have y: "y = k * (y div k) + y mod k" by simp
  show ?thesis
  proof (cases "y mod k = 0")
    case True
    then have "y - 1 = k * (y div k - 1) + (k - 1)" using y by (simp add: algebra_simps)
    with k have "(y - 1) div k = y div k - 1"
      by (intro int_div_pos_eq [where r = "k - 1"]) auto
    with True show ?thesis by simp
  next
    case False
    then have "0 < y mod k" using k pos_mod_sign [of k y] by linarith
    then have "(y - 1) div k = y div k"
      using k y pos_mod_bound [OF k, of y] by (intro int_div_pos_eq [where r = "y mod k - 1"]) auto
    with False show ?thesis by simp
  qed
qed

lemma leap_count:
  "(b \<Longrightarrow> a) \<Longrightarrow> (c \<Longrightarrow> b) \<Longrightarrow>
   365 * y + (q4 + (if a then 1 else 0)) - (q100 + (if b then 1 else 0)) + (q400 + (if c then 1 else 0)) =
   365 * (y - 1) + q4 - q100 + q400 + (if a \<and> (\<not> b \<or> c) then 366 else (365 :: int))"
  by (cases a; cases b; cases c; simp)

lemma days_before_next_year:
  "days_before_year (y + 1) = days_before_year y + (if leap y then 366 else 365)"
proof -
  have i: "y mod 100 = 0 \<Longrightarrow> y mod 4 = 0" "y mod 400 = 0 \<Longrightarrow> y mod 100 = 0"
  proof -
    have "y mod 100 mod 4 = y mod 4" "y mod 400 mod 100 = y mod 100"
      by (rule mod_mod_cancel, simp)+
    then show "y mod 100 = 0 \<Longrightarrow> y mod 4 = 0" "y mod 400 = 0 \<Longrightarrow> y mod 100 = 0"
      by (metis mod_0)+
  qed
  have d: "y div 4 = (y - 1) div 4 + (if y mod 4 = 0 then 1 else 0)"
    "y div 100 = (y - 1) div 100 + (if y mod 100 = 0 then 1 else 0)"
    "y div 400 = (y - 1) div 400 + (if y mod 400 = 0 then 1 else 0)"
    by (rule div_succ, simp)+
  show ?thesis
    unfolding days_before_year_def leap_def add_diff_cancel_right' d
    by (rule leap_count [OF i])
qed

lemma days_before_year_mono: "y \<le> y' \<Longrightarrow> days_before_year y \<le> days_before_year y'"
proof (induction y' rule: int_ge_induct)
  case (step i)
  then show ?case using days_before_next_year [of i] by (auto split: if_splits)
qed simp

lemma sum_take_mono:
  assumes "\<forall>l \<in> set ls. (0 :: int) \<le> l" "i \<le> j"
  shows "sum_list (take i ls) \<le> sum_list (take j ls)"
proof -
  have "take j ls = take i ls @ take (j - i) (drop i ls)"
    using assms(2) by (metis le_add_diff_inverse take_add)
  moreover have "0 \<le> sum_list (take (j - i) (drop i ls))"
    using assms(1) by (intro sum_list_nonneg) (meson in_set_dropD in_set_takeD)
  ultimately show ?thesis by simp
qed

lemma month_lengths_nonneg: "\<forall>l \<in> set (month_lengths y). 0 \<le> l"
  by (auto simp: month_lengths_def)

lemma month_end:
  assumes "valid_date y m d"
  shows "sum_list (take (nat (m - 1)) (month_lengths y)) + d \<le>
    sum_list (take (nat m) (month_lengths y))"
proof -
  have "nat m = Suc (nat (m - 1))" "nat (m - 1) < length (month_lengths y)"
    using assms by (auto simp: valid_date_def month_lengths_def)
  then show ?thesis using assms by (simp add: take_Suc_conv_app_nth valid_date_def)
qed

lemma days_of_civil_strict:
  assumes v: "valid_date y m d" "valid_date y' m' d'"
    and lt: "y < y' \<or> y = y' \<and> (m < m' \<or> m = m' \<and> d < d')"
  shows "days_of_civil y m d < days_of_civil y' m' d'"
  using lt
proof (elim disjE conjE)
  assume "y < y'"
  have "sum_list (take (nat m) (month_lengths y)) \<le> sum_list (month_lengths y)"
    using sum_take_mono [OF month_lengths_nonneg, of "nat m" 12 y] valid_date_bounds [OF v(1)]
    by (auto simp: month_lengths_def)
  moreover have "days_before_year (y + 1) \<le> days_before_year y'"
    using \<open>y < y'\<close> by (intro days_before_year_mono) simp
  moreover have "0 \<le> sum_list (take (nat (m' - 1)) (month_lengths y'))"
    using month_lengths_nonneg [of y'] by (intro sum_list_nonneg) (meson in_set_takeD)
  ultimately show ?thesis
    using month_end [OF v(1)] valid_date_bounds [OF v(2)] days_before_next_year [of y]
    by (simp add: days_of_civil_def month_lengths_sum)
next
  assume "y = y'" "m < m'"
  then have "sum_list (take (nat m) (month_lengths y)) \<le> sum_list (take (nat (m' - 1)) (month_lengths y'))"
    using sum_take_mono [OF month_lengths_nonneg, of "nat m" "nat (m' - 1)" y] by auto
  then show ?thesis
    using month_end [OF v(1)] valid_date_bounds [OF v(2)] \<open>y = y'\<close> by (simp add: days_of_civil_def)
qed (simp add: days_of_civil_def)

lemma list_less_append:
  fixes a b u v :: "'a :: linorder list"
  shows "length a = length b \<Longrightarrow> a @ u < b @ v \<longleftrightarrow> a < b \<or> a = b \<and> u < v"
proof (induction a b rule: list_induct2)
  case (Cons x xs y ys)
  then show ?case by auto
qed simp

lemma digits_val_append: "digits_val (a @ b) = digits_val a * 10 ^ length b + digits_val b"
proof (induction b rule: rev_induct)
  case (snoc x xs)
  have "digits_val (a @ xs @ [x]) = digits_val ((a @ xs) @ [x])" by simp
  then show ?case using snoc by (simp only: digits_val_snoc) (simp add: algebra_simps)
qed (simp add: digits_val_def)

lemma digit_val_bound: "is_digit c \<Longrightarrow> digit_val c \<le> 9"
  by (auto simp: is_digit_def digit_val_def less_eq_char_def)

lemma digits_val_bound: "list_all is_digit s \<Longrightarrow> digits_val s < 10 ^ length s"
proof (induction s rule: rev_induct)
  case (snoc x xs)
  then show ?case using digit_val_bound [of x] by simp
qed (simp add: digits_val_def)

lemma digit_val_less:
  "is_digit c \<Longrightarrow> is_digit c' \<Longrightarrow> digit_val c < digit_val c' \<Longrightarrow> c < c'"
  "is_digit c \<Longrightarrow> is_digit c' \<Longrightarrow> digit_val c = digit_val c' \<Longrightarrow> c = c'"
  by (auto simp: is_digit_def digit_val_def less_eq_char_def less_char_def)
    (metis add_diff_cancel_left' le_Suc_ex of_char_eq_iff)

lemma digits_less:
  "length a = length b \<Longrightarrow> list_all is_digit a \<Longrightarrow> list_all is_digit b \<Longrightarrow>
     digits_val a < digits_val b \<Longrightarrow> a < b"
proof (induction a b rule: list_induct2)
  case (Cons x xs y ys)
  have v: "digits_val (c # s) = digit_val c * 10 ^ length s + digits_val s" for c s
    using digits_val_append [of "[c]" s] by (simp add: digits_val_def)
  consider "digit_val x < digit_val y" | "digit_val x = digit_val y" | "digit_val y < digit_val x"
    by linarith
  then show ?case
  proof cases
    case 1
    with Cons.prems show ?thesis by (auto dest: digit_val_less)
  next
    case 2
    with Cons show ?thesis by (auto simp: v dest: digit_val_less)
  next
    case 3
    then have "(digit_val y + 1) * 10 ^ length ys \<le> digit_val x * 10 ^ length ys"
      by (intro mult_le_mono1) simp
    moreover have "digits_val ys < 10 ^ length ys"
      using Cons.prems by (intro digits_val_bound) simp
    ultimately show ?thesis using Cons by (simp add: v)
  qed
qed simp

lemma pad_int_less:
  assumes "0 \<le> x" "x < x'" "x' < 10 ^ w" "0 < w"
  shows "pad_int w x < pad_int w x'"
proof (rule digits_less)
  have x: "x < 10 ^ w" "0 \<le> x'" using assms by auto
  show "digits_val (pad_int w x) < digits_val (pad_int w x')"
    using pad_int_props(3) [OF assms(1) x(1) assms(4)] pad_int_props(3) [OF x(2) assms(3,4)] assms(2)
    by linarith
qed (use assms pad_int_props in auto)

lemma pad_int_lex:
  assumes "0 \<le> x" "x < 10 ^ w" "0 \<le> x'" "x' < 10 ^ w" "0 < w" "x < x' \<or> x = x' \<and> u < v"
  shows "pad_int w x @ u < pad_int w x' @ v"
proof -
  have "length (pad_int w x) = length (pad_int w x')" using assms pad_int_props(1) by simp
  then show ?thesis using assms pad_int_less [of x x' w] by (auto simp: list_less_append)
qed

lemma clock_lex:
  fixes h i s h' i' s' :: int
  assumes "h * 3600 + i * 60 + s < h' * 3600 + i' * 60 + s'"
    and "0 \<le> i" "i < 60" "0 \<le> s" "s < 60" "0 \<le> i'" "i' < 60" "0 \<le> s'" "s' < 60"
  shows "h < h' \<or> h = h' \<and> (i < i' \<or> i = i' \<and> s < s')"
proof -
  consider "h < h'" | "h = h'" "i < i'" | "h = h'" "i = i'" | "h = h'" "i' < i" | "h' < h" by linarith
  then show ?thesis using assms by cases linarith+
qed

lemma format_stamp_strict:
  assumes "secs t < secs t'" "offs t = 0" "offs t' = 0"
    and "0 \<le> year_of t" "year_of t < 10000" "0 \<le> year_of t'" "year_of t' < 10000"
  shows "format_stamp t < format_stamp t'"
proof -
  obtain y m d y' m' d' where c: "civil_of_days (secs t div 86400) = (y, m, d)"
    "civil_of_days (secs t' div 86400) = (y', m', d')" by (metis prod_cases3)
  obtain h i s h' i' s' where k: "clock_of (secs t mod 86400) = (h, i, s)"
    "clock_of (secs t' mod 86400) = (h', i', s')" by (metis prod_cases3)
  have v: "valid_date y m d" "days_of_civil y m d = secs t div 86400"
    and v': "valid_date y' m' d'" "days_of_civil y' m' d' = secs t' div 86400"
    using civil_of_days_spec c by auto
  note clk = clock_of_spec [OF k(1), simplified] and clk' = clock_of_spec [OF k(2), simplified]
  have yb: "0 \<le> y" "y < 10000" "0 \<le> y'" "y' < 10000" using assms c by (auto simp: year_of_def)
  have day: "secs t div 86400 \<le> secs t' div 86400" using assms(1) by (intro zdiv_mono1) auto
  have "(y < y' \<or> y = y' \<and> (m < m' \<or> m = m' \<and> d < d')) \<or>
      y = y' \<and> m = m' \<and> d = d' \<and> secs t mod 86400 < secs t' mod 86400"
  proof (cases "secs t div 86400 = secs t' div 86400")
    case True
    then have "secs t mod 86400 < secs t' mod 86400"
      using assms(1) div_mult_mod_eq [of "secs t" 86400] div_mult_mod_eq [of "secs t'" 86400]
      by linarith
    with True c show ?thesis by simp
  next
    case False
    then have "\<not> days_of_civil y' m' d' \<le> days_of_civil y m d" using day v v' by simp
    then show ?thesis
      using days_of_civil_strict [OF v'(1) v(1)] by (metis linorder_less_linear order_less_imp_le order_refl)
  qed
  moreover have "h < h' \<or> h = h' \<and> (i < i' \<or> i = i' \<and> s < s')"
    if "secs t mod 86400 < secs t' mod 86400"
    by (rule clock_lex) (use that clk clk' in simp_all)
  ultimately have lex: "y < y' \<or> y = y' \<and> (m < m' \<or> m = m' \<and> (d < d' \<or> d = d' \<and>
      (h < h' \<or> h = h' \<and> (i < i' \<or> i = i' \<and> s < s'))))" by blast
  note mb = valid_date_bounds [OF v(1)] and mb' = valid_date_bounds [OF v'(1)]
  have 1: "pad_int 2 s @ ''Z'' < pad_int 2 s' @ ''Z''" if "s < s'"
    by (rule pad_int_lex) (use clk clk' that in simp_all)
  have 2: "pad_int 2 i @ ''-'' @ pad_int 2 s @ ''Z'' < pad_int 2 i' @ ''-'' @ pad_int 2 s' @ ''Z''"
    if "i < i' \<or> i = i' \<and> s < s'"
    by (rule pad_int_lex) (use clk clk' that 1 in simp_all, blast)
  have 3: "pad_int 2 h @ ''-'' @ pad_int 2 i @ ''-'' @ pad_int 2 s @ ''Z'' <
      pad_int 2 h' @ ''-'' @ pad_int 2 i' @ ''-'' @ pad_int 2 s' @ ''Z''"
    if "h < h' \<or> h = h' \<and> (i < i' \<or> i = i' \<and> s < s')"
    by (rule pad_int_lex) (use clk clk' that 2 in simp_all, blast)
  let ?t = "''T'' @ pad_int 2 h @ ''-'' @ pad_int 2 i @ ''-'' @ pad_int 2 s @ ''Z''"
  let ?t' = "''T'' @ pad_int 2 h' @ ''-'' @ pad_int 2 i' @ ''-'' @ pad_int 2 s' @ ''Z''"
  have 4: "pad_int 2 d @ ?t < pad_int 2 d' @ ?t'"
    if "d < d' \<or> d = d' \<and> (h < h' \<or> h = h' \<and> (i < i' \<or> i = i' \<and> s < s'))"
    by (rule pad_int_lex) (use mb mb' that 3 in simp_all, blast)
  have 5: "pad_int 2 m @ ''-'' @ pad_int 2 d @ ?t < pad_int 2 m' @ ''-'' @ pad_int 2 d' @ ?t'"
    if "m < m' \<or> m = m' \<and> (d < d' \<or> d = d' \<and> (h < h' \<or> h = h' \<and> (i < i' \<or> i = i' \<and> s < s')))"
    by (rule pad_int_lex) (use mb mb' that 4 in simp_all, blast)
  have "pad_int 4 y @ ''-'' @ pad_int 2 m @ ''-'' @ pad_int 2 d @ ?t <
      pad_int 4 y' @ ''-'' @ pad_int 2 m' @ ''-'' @ pad_int 2 d' @ ?t'"
    by (rule pad_int_lex) (use yb lex 5 in simp_all, blast)
  then show ?thesis
    by (simp add: format_stamp_def Let_def c k assms(2,3))
qed

end
