(* ===== verification/FileSys.thy ===== *)
theory FileSys
  imports Paths GoTime
begin

text \<open>
  The operating system the program runs on, as far as the sources use it: a file system of
  directories, a clock and the names \<open>os.CreateTemp\<close> draws. Every call is one tick of the
  world; at each tick the environment may make the call fail (\<open>fault\<close>), after it has moved
  some bytes where the call moves bytes. A theorem for every \<open>fault\<close> schedule is therefore a
  theorem about every I/O error. Directories are association lists sorted by name, which is the
  order \<open>os.ReadDir\<close> promises. Not modelled: symbolic links, permissions beyond the mode bits
  of a file, and other processes writing the same directories.
\<close>

datatype os_fault = EIO | EACCES | ENOSPC | EROFS

datatype errno = ENOENT | EEXIST | EISDIR | ENOTDIR | ENOTEMPTY | Fault os_fault

text \<open>\<open>*fs.PathError\<close>: the failing call and the error number.\<close>

datatype os_error = PathError string string errno

fun is_not_exist :: "os_error \<Rightarrow> bool" where
  "is_not_exist (PathError _ _ e) = (e = ENOENT)"

datatype node = Reg (content: string) (mode: nat) | SubDir

type_synonym dir = "(string \<times> node) list"

record fsys =
  cwd :: path
  tree :: "path \<Rightarrow> dir option"
  tick :: nat
  fault :: "nat \<Rightarrow> (os_fault \<times> nat) option"
  clock :: "nat \<Rightarrow> gotime"
  tmp_num :: "nat \<Rightarrow> nat"
  create_mode :: nat

type_synonym 'a os_result = "os_error + 'a"

subsection \<open>Directories\<close>

fun dir_put :: "string \<Rightarrow> node \<Rightarrow> dir \<Rightarrow> dir" where
  "dir_put n x [] = [(n, x)]"
| "dir_put n x ((m, y) # d) =
     (if n < m then (n, x) # (m, y) # d
      else if n = m then (n, x) # d
      else (m, y) # dir_put n x d)"

definition dir_del :: "string \<Rightarrow> dir \<Rightarrow> dir" where
  "dir_del n d = filter (\<lambda>e. fst e \<noteq> n) d"

definition dir_wf :: "dir \<Rightarrow> bool" where
  "dir_wf d \<longleftrightarrow> sorted_wrt (<) (map fst d)"

text \<open>The node a resolved path names. The root is a directory.\<close>

definition node_at :: "('a) fsys_scheme \<Rightarrow> path \<Rightarrow> node option" where
  "node_at w p =
     (if p = [] then Some SubDir
      else (case tree w (butlast p) of None \<Rightarrow> None | Some d \<Rightarrow> map_of d (last p)))"

text \<open>What a lookup of a missing path reports: \<open>ENOTDIR\<close> below a regular file.\<close>

definition below_file :: "('a) fsys_scheme \<Rightarrow> path \<Rightarrow> bool" where
  "below_file w p \<longleftrightarrow>
     list_ex (\<lambda>k. case node_at w (take k p) of Some (Reg _ _) \<Rightarrow> True | _ \<Rightarrow> False) [1 ..< length p]"

definition missing :: "('a) fsys_scheme \<Rightarrow> path \<Rightarrow> errno" where
  "missing w p = (if below_file w p then ENOTDIR else ENOENT)"

definition put_node :: "path \<Rightarrow> node \<Rightarrow> ('a) fsys_scheme \<Rightarrow> ('a) fsys_scheme" where
  "put_node p x w =
     (case tree w (butlast p) of None \<Rightarrow> w
      | Some d \<Rightarrow> w\<lparr>tree := (tree w)(butlast p \<mapsto> dir_put (last p) x d)\<rparr>)"

definition del_node :: "path \<Rightarrow> ('a) fsys_scheme \<Rightarrow> ('a) fsys_scheme" where
  "del_node p w =
     (case tree w (butlast p) of None \<Rightarrow> w
      | Some d \<Rightarrow> w\<lparr>tree := (tree w)(butlast p \<mapsto> dir_del (last p) d)\<rparr>)"

definition tock :: "('a) fsys_scheme \<Rightarrow> ('a) fsys_scheme" where
  "tock w = w\<lparr>tick := Suc (tick w)\<rparr>"

definition now_fault :: "('a) fsys_scheme \<Rightarrow> (os_fault \<times> nat) option" where
  "now_fault w = fault w (tick w)"

subsection \<open>Calls\<close>

definition os_read_file :: "string \<Rightarrow> ('a) fsys_scheme \<Rightarrow> string os_result \<times> ('a) fsys_scheme" where
  "os_read_file f w =
     (let p = resolve (cwd w) f in
      (case now_fault w of Some (e, _) \<Rightarrow> Inl (PathError ''open'' f (Fault e))
       | None \<Rightarrow> (case node_at w p of
           None \<Rightarrow> Inl (PathError ''open'' f (missing w p))
         | Some SubDir \<Rightarrow> Inl (PathError ''read'' f EISDIR)
         | Some (Reg c _) \<Rightarrow> Inr c),
       tock w))"

definition os_stat :: "string \<Rightarrow> ('a) fsys_scheme \<Rightarrow> node os_result \<times> ('a) fsys_scheme" where
  "os_stat f w =
     (let p = resolve (cwd w) f in
      (case now_fault w of Some (e, _) \<Rightarrow> Inl (PathError ''stat'' f (Fault e))
       | None \<Rightarrow> (case node_at w p of
           None \<Rightarrow> Inl (PathError ''stat'' f (missing w p))
         | Some x \<Rightarrow> Inr x),
       tock w))"

definition os_read_dir :: "string \<Rightarrow> ('a) fsys_scheme \<Rightarrow> dir os_result \<times> ('a) fsys_scheme" where
  "os_read_dir f w =
     (let p = resolve (cwd w) f in
      (case now_fault w of Some (e, _) \<Rightarrow> Inl (PathError ''open'' f (Fault e))
       | None \<Rightarrow> (case tree w p of
           Some d \<Rightarrow> Inr d
         | None \<Rightarrow> Inl (PathError ''open'' f
             (case node_at w p of Some (Reg _ _) \<Rightarrow> ENOTDIR | _ \<Rightarrow> missing w p))),
       tock w))"

text \<open>\<open>os.Remove\<close>: a file, or an empty directory.\<close>

definition os_remove :: "string \<Rightarrow> ('a) fsys_scheme \<Rightarrow> unit os_result \<times> ('a) fsys_scheme" where
  "os_remove f w =
     (let p = resolve (cwd w) f in
      (case now_fault w of Some (e, _) \<Rightarrow> (Inl (PathError ''remove'' f (Fault e)), tock w)
       | None \<Rightarrow> (case node_at w p of
           None \<Rightarrow> (Inl (PathError ''remove'' f (missing w p)), tock w)
         | Some (Reg _ _) \<Rightarrow> (Inr (), tock (del_node p w))
         | Some SubDir \<Rightarrow>
             (if p \<noteq> [] \<and> tree w p = Some []
              then (Inr (), tock (let w' = del_node p w in w'\<lparr>tree := (tree w')(p := None)\<rparr>))
              else (Inl (PathError ''remove'' f ENOTEMPTY), tock w)))))"

text \<open>
  \<open>os.MkdirAll\<close>: every missing directory on the way, outermost first. A fault may come after
  some of them have been made.
\<close>

fun mkdirs :: "path list \<Rightarrow> ('a) fsys_scheme \<Rightarrow> bool \<times> ('a) fsys_scheme" where
  "mkdirs [] w = (True, w)"
| "mkdirs (p # ps) w =
     (case node_at w p of
        Some SubDir \<Rightarrow> mkdirs ps w
      | Some (Reg _ _) \<Rightarrow> (False, w)
      | None \<Rightarrow> mkdirs ps ((put_node p SubDir w)\<lparr>tree := (tree (put_node p SubDir w))(p \<mapsto> [])\<rparr>))"

definition os_mkdir_all :: "string \<Rightarrow> ('a) fsys_scheme \<Rightarrow> unit os_result \<times> ('a) fsys_scheme" where
  "os_mkdir_all f w =
     (let p = resolve (cwd w) f;
          dirs = (\<lambda>n. map (\<lambda>k. take k p) [1 ..< Suc n]) in
      case now_fault w of
        Some (e, n) \<Rightarrow>
          (Inl (PathError ''mkdir'' f (Fault e)), tock (snd (mkdirs (dirs (min n (length p))) w)))
      | None \<Rightarrow>
          (let (ok, w') = mkdirs (dirs (length p)) w
           in (if ok then Inr () else Inl (PathError ''mkdir'' f ENOTDIR), tock w')))"

text \<open>\<open>os.Create\<close>: an existing file is truncated and keeps its mode.\<close>

definition os_create :: "string \<Rightarrow> ('a) fsys_scheme \<Rightarrow> unit os_result \<times> ('a) fsys_scheme" where
  "os_create f w =
     (let p = resolve (cwd w) f in
      (case now_fault w of Some (e, _) \<Rightarrow> (Inl (PathError ''open'' f (Fault e)), tock w)
       | None \<Rightarrow> (case node_at w p of
           Some SubDir \<Rightarrow> (Inl (PathError ''open'' f EISDIR), tock w)
         | Some (Reg _ m) \<Rightarrow> (Inr (), tock (put_node p (Reg [] m) w))
         | None \<Rightarrow>
             (if tree w (butlast p) = None then (Inl (PathError ''open'' f (missing w p)), tock w)
              else (Inr (), tock (put_node p (Reg [] (create_mode w)) w))))))"

text \<open>
  \<open>os.CreateTemp(dir, base + ".tmp-*")\<close>: a new file of mode 0600 whose name ends in a random
  number; the result is the file's name. Go retries on a name that exists and gives up in the
  end, so the outcome is a fresh name or \<open>EEXIST\<close>.
\<close>

definition temp_name :: "string \<Rightarrow> nat \<Rightarrow> string" where
  "temp_name base k = base @ ''.tmp-'' @ nat_digits k"

definition os_create_temp :: "string \<Rightarrow> string \<Rightarrow> ('a) fsys_scheme \<Rightarrow> string os_result \<times> ('a) fsys_scheme" where
  "os_create_temp d base w =
     (let f = d @ (if has_suffix ''/'' d then [] else ''/'') @ temp_name base (tmp_num w (tick w));
          p = resolve (cwd w) f in
      (case now_fault w of Some (e, _) \<Rightarrow> (Inl (PathError ''open'' f (Fault e)), tock w)
       | None \<Rightarrow>
           (if tree w (butlast p) = None then (Inl (PathError ''open'' f (missing w p)), tock w)
            else if node_at w p \<noteq> None then (Inl (PathError ''createtemp'' f EEXIST), tock w)
            else (Inr f, tock (put_node p (Reg [] 384) w)))))"

text \<open>
  Calls on an open file, which is named by the path it was opened with. A write appends; on an
  error the first bytes may have reached the file. A file that no longer has its name is
  written without any visible effect.
\<close>

definition os_write :: "string \<Rightarrow> string \<Rightarrow> ('a) fsys_scheme \<Rightarrow> unit os_result \<times> ('a) fsys_scheme" where
  "os_write f bytes w =
     (let p = resolve (cwd w) f;
          append = (\<lambda>bs. case node_at w p of Some (Reg c m) \<Rightarrow> put_node p (Reg (c @ bs) m) w | _ \<Rightarrow> w)
      in (case now_fault w of
            Some (e, n) \<Rightarrow> (Inl (PathError ''write'' f (Fault e)), tock (append (take n bytes)))
          | None \<Rightarrow> (Inr (), tock (append bytes))))"

definition os_chmod :: "string \<Rightarrow> nat \<Rightarrow> ('a) fsys_scheme \<Rightarrow> unit os_result \<times> ('a) fsys_scheme" where
  "os_chmod f m w =
     (let p = resolve (cwd w) f in
      case now_fault w of
        Some (e, _) \<Rightarrow> (Inl (PathError ''chmod'' f (Fault e)), tock w)
      | None \<Rightarrow>
          (Inr (), tock (case node_at w p of Some (Reg c _) \<Rightarrow> put_node p (Reg c m) w | _ \<Rightarrow> w)))"

definition os_close :: "string \<Rightarrow> ('a) fsys_scheme \<Rightarrow> unit os_result \<times> ('a) fsys_scheme" where
  "os_close f w =
     (case now_fault w of
        Some (e, _) \<Rightarrow> (Inl (PathError ''close'' f (Fault e)), tock w)
      | None \<Rightarrow> (Inr (), tock w))"

text \<open>
  \<open>os.Open\<close>, and \<open>io.Copy\<close> between two open files, which is one write of the bytes the
  source holds at that moment.
\<close>

definition os_open :: "string \<Rightarrow> ('a) fsys_scheme \<Rightarrow> unit os_result \<times> ('a) fsys_scheme" where
  "os_open f w =
     (let p = resolve (cwd w) f in
      (case now_fault w of Some (e, _) \<Rightarrow> Inl (PathError ''open'' f (Fault e))
       | None \<Rightarrow> (if node_at w p = None then Inl (PathError ''open'' f (missing w p)) else Inr ()),
       tock w))"

definition io_copy :: "string \<Rightarrow> string \<Rightarrow> ('a) fsys_scheme \<Rightarrow> unit os_result \<times> ('a) fsys_scheme" where
  "io_copy dst src w =
     (case node_at w (resolve (cwd w) src) of
        Some (Reg c _) \<Rightarrow> os_write dst c w
      | _ \<Rightarrow> (Inl (PathError ''read'' src EISDIR), tock w))"

text \<open>\<open>os.Rename\<close> of a file: the new name refers to the old file, in one step.\<close>

definition os_rename :: "string \<Rightarrow> string \<Rightarrow> ('a) fsys_scheme \<Rightarrow> unit os_result \<times> ('a) fsys_scheme" where
  "os_rename from dst w =
     (let p = resolve (cwd w) from; q = resolve (cwd w) dst in
      case now_fault w of
        Some (e, _) \<Rightarrow> (Inl (PathError ''rename'' dst (Fault e)), tock w)
      | None \<Rightarrow>
          (case node_at w p of
             Some (Reg c m) \<Rightarrow>
               (if node_at w q = Some SubDir then (Inl (PathError ''rename'' dst EEXIST), tock w)
                else if tree w (butlast q) = None then (Inl (PathError ''rename'' dst (missing w q)), tock w)
                else (Inr (), tock (put_node q (Reg c m) (del_node p w))))
           | _ \<Rightarrow> (Inl (PathError ''rename'' dst (missing w p)), tock w)))"

text \<open>\<open>time.Now()\<close>.\<close>

definition time_now :: "('a) fsys_scheme \<Rightarrow> gotime \<times> ('a) fsys_scheme" where
  "time_now w = (clock w (tick w), tock w)"


subsection \<open>Lemmas: directories and nodes\<close>

lemma map_of_dir_put [simp]: "map_of (dir_put n x d) = (map_of d)(n \<mapsto> x)"
  by (induction n x d rule: dir_put.induct) auto

lemma map_of_dir_del [simp]: "map_of (dir_del n d) = (map_of d)(n := None)"
  by (induction d) (auto simp: dir_del_def)

lemma set_dir_put: "fst ` set (dir_put n x d) = insert n (fst ` set d)"
  by (induction n x d rule: dir_put.induct) auto

lemma set_dir_put_other: "fst e \<noteq> n \<Longrightarrow> e \<in> set (dir_put n x d) \<longleftrightarrow> e \<in> set d"
  by (induction n x d rule: dir_put.induct) auto

lemma dir_wf_put: "dir_wf d \<Longrightarrow> dir_wf (dir_put n x d)"
proof (induction n x d rule: dir_put.induct)
  case (2 n x m y d)
  have "dir_put n x d = (k, z) # r \<Longrightarrow> True" for k z r by simp
  from 2 show ?case
    using set_dir_put [of n x d] by (auto simp: dir_wf_def)
qed (simp add: dir_wf_def)

lemma dir_wf_Nil [simp]: "dir_wf []"
  by (simp add: dir_wf_def)

lemma dir_wf_del: "dir_wf d \<Longrightarrow> dir_wf (dir_del n d)"
  by (induction d) (auto simp: dir_wf_def dir_del_def)

lemma dir_wf_distinct: "dir_wf d \<Longrightarrow> distinct (map fst d)"
  by (simp add: dir_wf_def strict_sorted_iff)

text \<open>
  What a well-formed tree keeps true: the listings are sorted without duplicates, and a
  directory is listed in its parent exactly if it exists.
\<close>

definition fs_wf :: "('a) fsys_scheme \<Rightarrow> bool" where
  "fs_wf w \<longleftrightarrow> (\<forall>p d. tree w p = Some d \<longrightarrow> dir_wf d) \<and>
     (\<forall>p. tree w p \<noteq> None \<longleftrightarrow> node_at w p = Some SubDir)"

lemma fs_wfD:
  "fs_wf w \<Longrightarrow> tree w p = Some d \<Longrightarrow> dir_wf d"
  "fs_wf w \<Longrightarrow> (tree w p = None) = (node_at w p \<noteq> Some SubDir)"
  by (simp add: fs_wf_def, metis fs_wf_def)

lemma fsys_tock [simp]:
  "tree (tock w) = tree w" "cwd (tock w) = cwd w" "node_at (tock w) = node_at w"
  "fault (tock w) = fault w" "clock (tock w) = clock w" "tmp_num (tock w) = tmp_num w"
  "create_mode (tock w) = create_mode w" "tick (tock w) = Suc (tick w)"
  "fs_wf (tock w) = fs_wf w"
  by (auto simp: tock_def node_at_def fun_eq_iff fs_wf_def)

lemma node_at_Nil [simp]: "node_at w [] = Some SubDir"
  by (simp add: node_at_def)

lemma node_at_snoc: "node_at w (p @ [n]) = (case tree w p of None \<Rightarrow> None | Some d \<Rightarrow> map_of d n)"
  by (simp add: node_at_def split: option.split)

lemma node_at_put:
  assumes "p \<noteq> []" "tree w (butlast p) \<noteq> None"
  shows "node_at (put_node p x w) q = (if q = p then Some x else node_at w q)"
proof (cases "q = []")
  case False
  then have "butlast q = butlast p \<and> last q = last p \<longleftrightarrow> q = p"
    using assms(1) by (metis append_butlast_last_id)
  with assms False show ?thesis by (auto simp: node_at_def put_node_def)
qed (use assms in auto)

lemma node_at_del:
  assumes "p \<noteq> []"
  shows "node_at (del_node p w) q = (if q = p then None else node_at w q)"
proof (cases "q = []")
  case False
  then have "butlast q = butlast p \<and> last q = last p \<longleftrightarrow> q = p"
    using assms(1) by (metis append_butlast_last_id)
  with assms False show ?thesis by (auto simp: node_at_def del_node_def split: option.splits)
qed (use assms in auto)

lemma tree_put_None [simp]: "tree (put_node p x w) q = None \<longleftrightarrow> tree w q = None"
  by (auto simp: put_node_def split: option.splits)

lemma tree_del_None [simp]: "tree (del_node p w) q = None \<longleftrightarrow> tree w q = None"
  by (auto simp: del_node_def split: option.splits)

lemma node_at_Some_parent: "node_at w p = Some x \<Longrightarrow> p \<noteq> [] \<Longrightarrow> tree w (butlast p) \<noteq> None"
  by (auto simp: node_at_def split: option.splits)

lemma cwd_put_del [simp]: "cwd (put_node p x w) = cwd w" "cwd (del_node p w) = cwd w"
  by (auto simp: put_node_def del_node_def split: option.splits)

subsection \<open>What a call can change\<close>

text \<open>
  \<open>changes w w' K\<close>: from \<open>w\<close> to \<open>w'\<close> only the nodes named in \<open>K\<close> and the tick have changed,
  no directory was removed or made outside \<open>K\<close>, and well-formedness was kept.
\<close>

definition changes :: "('a) fsys_scheme \<Rightarrow> ('a) fsys_scheme \<Rightarrow> path set \<Rightarrow> bool" where
  "changes w w' K \<longleftrightarrow>
     w' = w\<lparr>tree := tree w', tick := tick w'\<rparr> \<and>
     (\<forall>q. q \<notin> K \<longrightarrow> node_at w' q = node_at w q) \<and>
     (\<forall>q. tree w q \<noteq> None \<longrightarrow> tree w' q \<noteq> None) \<and>
     (\<forall>q. q \<notin> K \<longrightarrow> (tree w' q = None \<longleftrightarrow> tree w q = None)) \<and>
     (fs_wf w \<longrightarrow> fs_wf w')"

lemma changes_node: "changes w w' K \<Longrightarrow> q \<notin> K \<Longrightarrow> node_at w' q = node_at w q"
  by (simp add: changes_def)

lemma changes_tree_None: "changes w w' K \<Longrightarrow> q \<notin> K \<Longrightarrow> tree w' q = None \<longleftrightarrow> tree w q = None"
  by (simp add: changes_def)

lemma changes_tree_Some: "changes w w' K \<Longrightarrow> tree w q \<noteq> None \<Longrightarrow> tree w' q \<noteq> None"
  by (simp add: changes_def)

lemma changes_wf: "changes w w' K \<Longrightarrow> fs_wf w \<Longrightarrow> fs_wf w'"
  by (simp add: changes_def)

lemma changes_fields:
  assumes "changes w w' K"
  shows "cwd w' = cwd w" "fault w' = fault w" "clock w' = clock w" "tmp_num w' = tmp_num w"
    "create_mode w' = create_mode w" "fsys.more w' = fsys.more w"
proof -
  have "w' = w\<lparr>tree := tree w', tick := tick w'\<rparr>" using assms by (simp add: changes_def)
  then show "cwd w' = cwd w" "fault w' = fault w" "clock w' = clock w" "tmp_num w' = tmp_num w"
    "create_mode w' = create_mode w" "fsys.more w' = fsys.more w"
    by (metis (no_types, lifting) fsys.select_convs fsys.surjective fsys.update_convs)+
qed

lemma changes_refl [simp]: "changes w w K"
  by (simp add: changes_def)

lemma changes_tock [simp]: "changes w (tock w') K \<longleftrightarrow> changes w w' K"
proof -
  have "tock w' = w\<lparr>tree := tree w', tick := Suc (tick w')\<rparr> \<longleftrightarrow> w' = w\<lparr>tree := tree w', tick := tick w'\<rparr>"
    by (cases w; cases w') (auto simp: tock_def)
  then show ?thesis by (simp add: changes_def)
qed

lemma changes_trans: "changes w w' K \<Longrightarrow> changes w' w'' K' \<Longrightarrow> changes w w'' (K \<union> K')"
  by (cases w; cases w'; cases w'') (auto simp: changes_def)

lemma changes_mono: "changes w w' K \<Longrightarrow> K \<subseteq> K' \<Longrightarrow> changes w w' K'"
  by (auto simp: changes_def)

lemma changes_trans_same: "changes w w' K \<Longrightarrow> changes w' w'' K \<Longrightarrow> changes w w'' K"
  using changes_trans [of w w' K w'' K] by simp

lemma changes_put:
  assumes "p \<noteq> []" "tree w (butlast p) \<noteq> None" "node_at w p \<noteq> Some SubDir"
  shows "changes w (put_node p (Reg c m) w) {p}"
proof -
  have "put_node p (Reg c m) w = w\<lparr>tree := tree (put_node p (Reg c m) w), tick := tick (put_node p (Reg c m) w)\<rparr>"
    by (cases w) (auto simp: put_node_def split: option.splits)
  moreover have "fs_wf (put_node p (Reg c m) w)" if "fs_wf w"
    using that assms
    by (auto simp: fs_wf_def node_at_put) (auto simp: put_node_def dir_wf_put split: if_splits option.splits)
  ultimately show ?thesis using assms by (auto simp: changes_def node_at_put)
qed

lemma changes_del:
  assumes "p \<noteq> []" "node_at w p \<noteq> Some SubDir"
  shows "changes w (del_node p w) {p}"
proof -
  have "del_node p w = w\<lparr>tree := tree (del_node p w), tick := tick (del_node p w)\<rparr>"
    by (cases w) (auto simp: del_node_def split: option.splits)
  moreover have "fs_wf (del_node p w)" if "fs_wf w"
    using that assms
    by (auto simp: fs_wf_def node_at_del) (auto simp: del_node_def dir_wf_del split: if_splits option.splits)
  ultimately show ?thesis using assms by (auto simp: changes_def node_at_del)
qed

subsection \<open>Calls, one by one\<close>

lemma os_read_file_snd [simp]: "snd (os_read_file f w) = tock w"
  by (simp add: os_read_file_def Let_def)

lemma os_stat_snd [simp]: "snd (os_stat f w) = tock w"
  by (simp add: os_stat_def Let_def)

lemma os_read_dir_snd [simp]: "snd (os_read_dir f w) = tock w"
  by (simp add: os_read_dir_def Let_def)

lemma os_close_snd [simp]: "snd (os_close f w) = tock w"
  by (simp add: os_close_def split: option.split)

lemma os_open_pair: "os_open f w = (r, w') \<Longrightarrow> w' = tock w"
  by (auto simp: os_open_def Let_def)

lemma time_now_snd [simp]: "snd (time_now w) = tock w"
  by (simp add: time_now_def)

lemma os_read_file_pair: "os_read_file f w = (r, w') \<Longrightarrow> w' = tock w"
  using os_read_file_snd [of f w] by simp

lemma os_stat_pair: "os_stat f w = (r, w') \<Longrightarrow> w' = tock w"
  using os_stat_snd [of f w] by simp

lemma os_read_dir_pair: "os_read_dir f w = (r, w') \<Longrightarrow> w' = tock w"
  using os_read_dir_snd [of f w] by simp

lemma os_close_pair: "os_close f w = (r, w') \<Longrightarrow> w' = tock w"
  using os_close_snd [of f w] by simp

lemma time_now_pair: "time_now w = (r, w') \<Longrightarrow> w' = tock w"
  using time_now_snd [of w] by simp

lemmas os_pairs = os_open_pair os_read_file_pair os_stat_pair os_read_dir_pair os_close_pair time_now_pair

lemma os_read_file_Inr:
  "os_read_file f w = (Inr c, w') \<Longrightarrow> \<exists>m. node_at w (resolve (cwd w) f) = Some (Reg c m)"
  by (auto simp: os_read_file_def Let_def split: option.splits node.splits)

lemma is_not_exist_missing: "is_not_exist (PathError op f (missing w p)) \<Longrightarrow> \<not> below_file w p"
  by (auto simp: missing_def split: if_splits)

lemma os_read_file_not_exist:
  "os_read_file f w = (Inl e, w') \<Longrightarrow> is_not_exist e \<Longrightarrow> node_at w (resolve (cwd w) f) = None"
  by (auto simp: os_read_file_def Let_def split: option.splits node.splits)

text \<open>Without a fault, a read of a regular file returns its bytes.\<close>

lemma os_read_file_ok:
  "now_fault w = None \<Longrightarrow> node_at w (resolve (cwd w) f) = Some (Reg c m) \<Longrightarrow>
     os_read_file f w = (Inr c, tock w)"
  by (simp add: os_read_file_def)

lemma put_same:
  assumes "node_at w p = Some (Reg c m)" "p \<noteq> []"
  shows "changes w (put_node p (Reg c' m') w) {p}"
    "node_at (put_node p (Reg c' m') w) p = Some (Reg c' m')"
  using changes_put [of p w c' m'] node_at_Some_parent [of w p] node_at_put [of p w] assms by auto

lemma Reg_not_root: "node_at w p = Some (Reg c m) \<Longrightarrow> p \<noteq> []"
  by (auto simp: node_at_def)

lemma os_write_changes:
  "os_write f bs w = (r, w') \<Longrightarrow> changes w w' {resolve (cwd w) f}"
  by (auto simp: os_write_def Let_def put_same Reg_not_root split: option.splits node.splits)

lemma os_write_Inr:
  "os_write f bs w = (Inr u, w') \<Longrightarrow> node_at w (resolve (cwd w) f) = Some (Reg c m) \<Longrightarrow>
     node_at w' (resolve (cwd w) f) = Some (Reg (c @ bs) m)"
  by (auto simp: os_write_def Let_def put_same Reg_not_root split: option.splits)

lemma os_write_Reg:
  "os_write f bs w = (r, w') \<Longrightarrow> node_at w (resolve (cwd w) f) = Some (Reg c m) \<Longrightarrow>
     \<exists>c'. node_at w' (resolve (cwd w) f) = Some (Reg c' m)"
  by (auto simp: os_write_def Let_def put_same Reg_not_root split: option.splits)

lemma os_chmod_changes:
  "os_chmod f md w = (r, w') \<Longrightarrow> changes w w' {resolve (cwd w) f}"
  by (auto simp: os_chmod_def Let_def put_same Reg_not_root split: option.splits node.splits)

lemma os_chmod_Inr:
  "os_chmod f md w = (Inr u, w') \<Longrightarrow> node_at w (resolve (cwd w) f) = Some (Reg c m) \<Longrightarrow>
     node_at w' (resolve (cwd w) f) = Some (Reg c md)"
  by (auto simp: os_chmod_def Let_def put_same Reg_not_root split: option.splits)

lemma os_chmod_Reg:
  "os_chmod f md w = (r, w') \<Longrightarrow> node_at w (resolve (cwd w) f) = Some (Reg c m) \<Longrightarrow>
     \<exists>m'. node_at w' (resolve (cwd w) f) = Some (Reg c m')"
  by (auto simp: os_chmod_def Let_def put_same Reg_not_root split: option.splits)

lemma os_remove_changes:
  assumes "os_remove f w = (r, w')" "node_at w (resolve (cwd w) f) \<noteq> Some SubDir"
  shows "changes w w' {resolve (cwd w) f}"
  using assms
  by (auto simp: os_remove_def Let_def changes_del Reg_not_root split: option.splits node.splits)

lemma os_remove_Inr:
  assumes "os_remove f w = (Inr u, w')" "node_at w (resolve (cwd w) f) \<noteq> Some SubDir"
  shows "node_at w' (resolve (cwd w) f) = None"
  using assms
  by (auto simp: os_remove_def Let_def node_at_del Reg_not_root split: option.splits node.splits)

lemma os_remove_Inl:
  assumes "os_remove f w = (Inl e, w')"
  shows "w' = tock w"
  using assms by (auto simp: os_remove_def Let_def split: option.splits node.splits if_splits)

lemma os_remove_not_exist:
  assumes "os_remove f w = (Inl e, w')" "is_not_exist e"
  shows "node_at w (resolve (cwd w) f) = None"
  using assms by (auto simp: os_remove_def Let_def split: option.splits node.splits if_splits)

lemma os_create_changes:
  assumes "os_create f w = (r, w')"
  shows "changes w w' {resolve (cwd w) f}"
proof -
  have "resolve (cwd w) f \<noteq> []" if "node_at w (resolve (cwd w) f) = None" using that by auto
  with assms show ?thesis
    by (auto simp: os_create_def Let_def put_same Reg_not_root changes_put
        split: option.splits node.splits if_splits)
qed

lemma os_create_Inr:
  assumes "os_create f w = (Inr u, w')"
  shows "\<exists>m. node_at w' (resolve (cwd w) f) = Some (Reg [] m)"
proof -
  have "resolve (cwd w) f \<noteq> []" if "node_at w (resolve (cwd w) f) = None" using that by auto
  with assms show ?thesis
    by (auto simp: os_create_def Let_def put_same Reg_not_root node_at_put
        split: option.splits node.splits if_splits)
qed

lemma os_create_Inl:
  "os_create f w = (Inl e, w') \<Longrightarrow> w' = tock w"
  by (auto simp: os_create_def Let_def split: option.splits node.splits if_splits)

lemma resolve_trailing_slash: "d \<noteq> [] \<Longrightarrow> resolve wd (d @ ''/'') = resolve wd d"
proof -
  assume "d \<noteq> []"
  then have "has_prefix ''/'' (d @ ''/'') \<longleftrightarrow> has_prefix ''/'' d" by (cases d) auto
  then show ?thesis by (simp add: resolve_def split_on_append clean_elems_append)
qed

lemma temp_path:
  assumes "name_ok n" "d \<noteq> []"
  shows "resolve wd (d @ (if has_suffix ''/'' d then [] else ''/'') @ n) = resolve wd d @ [n]"
proof (cases "has_suffix ''/'' d")
  case True
  then obtain d0 where d: "d = d0 @ ''/''" by (auto simp: has_suffix_iff)
  show ?thesis
  proof (cases d0)
    case Nil
    with d assms show ?thesis by (simp add: resolve_def name_ok_simps)
  next
    case (Cons a d1)
    then have "d0 \<noteq> []" by simp
    with d True show ?thesis
      using resolve_slash_name [OF assms(1), of d0 wd] by (simp add: resolve_trailing_slash)
  qed
next
  case False
  with resolve_slash_name [OF assms, of wd] show ?thesis by simp
qed

lemma temp_name_ok:
  assumes "CHR ''/'' \<notin> set base"
  shows "name_ok (temp_name base k)"
proof -
  have "CHR ''/'' \<notin> set (nat_digits k)"
    using nat_digits_digit [of "CHR ''/''" k] by (auto simp: is_digit_def less_eq_char_def)
  moreover have "length (temp_name base k) > 2" by (simp add: temp_name_def)
  then have "temp_name base k \<noteq> ''.''" "temp_name base k \<noteq> ''..''" "temp_name base k \<noteq> []" by auto
  ultimately show ?thesis using assms by (auto simp: name_ok_def temp_name_def)
qed

lemma os_create_temp_Inl:
  "os_create_temp d base w = (Inl e, w') \<Longrightarrow> w' = tock w"
  by (auto simp: os_create_temp_def Let_def split: option.splits if_splits)

lemma os_create_temp_Inr:
  assumes "os_create_temp d base w = (Inr f, w')" "CHR ''/'' \<notin> set base" "d \<noteq> []"
  shows "\<exists>k. resolve (cwd w) f = resolve (cwd w) d @ [temp_name base k]
      \<and> node_at w (resolve (cwd w) f) = None
      \<and> node_at w' (resolve (cwd w) f) = Some (Reg [] 384)
      \<and> changes w w' {resolve (cwd w) f}"
proof -
  let ?k = "tmp_num w (tick w)"
  have f: "f = d @ (if has_suffix ''/'' d then [] else ''/'') @ temp_name base ?k"
    using assms(1) by (auto simp: os_create_temp_def Let_def split: option.splits if_splits)
  then have r: "resolve (cwd w) f = resolve (cwd w) d @ [temp_name base ?k]"
    using temp_path [OF temp_name_ok, OF assms(2,3)] by simp
  have n: "node_at w (resolve (cwd w) f) = None" "tree w (butlast (resolve (cwd w) f)) \<noteq> None"
    and w': "w' = tock (put_node (resolve (cwd w) f) (Reg [] 384) w)"
    using assms(1) f
    by (auto simp: os_create_temp_def Let_def split: option.splits if_splits)
  have ne: "resolve (cwd w) f \<noteq> []" using r by simp
  show ?thesis
    using r n w' ne changes_put [OF ne n(2)] by (intro exI [of _ ?k]) (simp add: node_at_put)
qed

lemma os_rename_Inl: "os_rename a b w = (Inl e, w') \<Longrightarrow> w' = tock w"
  by (auto simp: os_rename_def Let_def split: option.splits node.splits if_splits)

lemma os_rename_Inr:
  assumes "os_rename a b w = (Inr u, w')"
  shows "\<exists>c m. node_at w (resolve (cwd w) a) = Some (Reg c m)
      \<and> node_at w' (resolve (cwd w) b) = Some (Reg c m)
      \<and> (resolve (cwd w) a \<noteq> resolve (cwd w) b \<longrightarrow> node_at w' (resolve (cwd w) a) = None)
      \<and> changes w w' {resolve (cwd w) a, resolve (cwd w) b}"
proof -
  let ?p = "resolve (cwd w) a" and ?q = "resolve (cwd w) b"
  obtain c m where p: "node_at w ?p = Some (Reg c m)"
    and q: "node_at w ?q \<noteq> Some SubDir" "tree w (butlast ?q) \<noteq> None"
    and w': "w' = tock (put_node ?q (Reg c m) (del_node ?p w))"
    using assms by (auto simp: os_rename_def Let_def split: option.splits node.splits if_splits)
  have ne: "?p \<noteq> []" "?q \<noteq> []" using p q(1) by auto
  let ?v = "del_node ?p w"
  have t: "tree ?v (butlast ?q) \<noteq> None" and s: "node_at ?v ?q \<noteq> Some SubDir"
    using q ne by (auto simp: node_at_del)
  have "changes w ?v {?p}" using changes_del [OF ne(1), of w] p by simp
  moreover have "changes ?v (put_node ?q (Reg c m) ?v) {?q}" by (rule changes_put [OF ne(2) t s])
  ultimately have "changes w (put_node ?q (Reg c m) ?v) ({?p} \<union> {?q})" by (rule changes_trans)
  then have "changes w w' {?p, ?q}" using w' by (simp add: insert_commute)
  moreover have "node_at w' ?q = Some (Reg c m)" "?p \<noteq> ?q \<longrightarrow> node_at w' ?p = None"
    using w' ne t by (auto simp: node_at_put node_at_del)
  ultimately show ?thesis using p by blast
qed

text \<open>\<open>os.MkdirAll\<close> on a path that is a directory already does nothing.\<close>

lemma mkdirs_exist: "\<forall>p \<in> set ps. node_at w p = Some SubDir \<Longrightarrow> mkdirs ps w = (True, w)"
  by (induction ps) auto

lemma mkdirs_snoc:
  "mkdirs (ps @ [q]) w = (let (ok, w1) = mkdirs ps w in if ok then mkdirs [q] w1 else (False, w1))"
  by (induction ps arbitrary: w) (auto simp: Let_def split: option.splits node.splits)

definition mk_node :: "path \<Rightarrow> ('a) fsys_scheme \<Rightarrow> ('a) fsys_scheme" where
  "mk_node p w = (put_node p SubDir w)\<lparr>tree := (tree (put_node p SubDir w))(p \<mapsto> [])\<rparr>"

lemma mkdirs_one:
  "mkdirs [q] w = (case node_at w q of Some SubDir \<Rightarrow> (True, w) | Some (Reg _ _) \<Rightarrow> (False, w)
     | None \<Rightarrow> (True, mk_node q w))"
  by (simp add: mk_node_def split: option.split node.split)

lemma mk_node_node:
  assumes "fs_wf w" "p \<noteq> []" "node_at w p = None" "tree w (butlast p) \<noteq> None"
  shows "node_at (mk_node p w) q = (if q = p then Some SubDir else node_at w q)"
    "tree (mk_node p w) q = None \<longleftrightarrow> tree w q = None \<and> q \<noteq> p"
proof -
  have t: "tree w p = None" using assms(1,3) by (simp add: fs_wfD)
  have b: "butlast p \<noteq> p" using assms(2) by (metis append_butlast_last_id append_self_conv list.discI)
  let ?u = "put_node p SubDir w"
  have u: "node_at ?u q = (if q = p then Some SubDir else node_at w q)"
    by (rule node_at_put [OF assms(2,4)])
  have "tree ?u p = None" using t by simp
  have "node_at (mk_node p w) q = node_at ?u q" if "butlast q \<noteq> p \<or> q = []"
    using that by (auto simp: mk_node_def node_at_def)
  moreover have "node_at (mk_node p w) q = None \<and> node_at ?u q = None" if "butlast q = p" "q \<noteq> []"
    using that \<open>tree ?u p = None\<close> by (auto simp: mk_node_def node_at_def simp del: tree_put_None)
  ultimately show "node_at (mk_node p w) q = (if q = p then Some SubDir else node_at w q)"
    using u by metis
  show "tree (mk_node p w) q = None \<longleftrightarrow> tree w q = None \<and> q \<noteq> p"
    by (auto simp: mk_node_def)
qed

lemma mk_node_changes:
  assumes "fs_wf w" "p \<noteq> []" "node_at w p = None" "tree w (butlast p) \<noteq> None"
  shows "changes w (mk_node p w) {p}"
proof -
  have "mk_node p w = w\<lparr>tree := tree (mk_node p w), tick := tick (mk_node p w)\<rparr>"
    by (cases w) (auto simp: mk_node_def put_node_def split: option.splits)
  moreover have "dir_wf d" if "tree (mk_node p w) q = Some d" for q d
    using that assms(1) fs_wfD(1) [OF assms(1)]
    by (auto simp: mk_node_def put_node_def dir_wf_put split: if_splits option.splits)
  then have "fs_wf (mk_node p w)"
    using assms(1) mk_node_node [OF assms] by (auto simp: fs_wf_def)
  ultimately show ?thesis using mk_node_node [OF assms] by (simp add: changes_def)
qed

lemma mkdirs_changes:
  assumes "fs_wf w" "n \<le> length p" "mkdirs (map (\<lambda>k. take k p) [1 ..< Suc n]) w = (ok, w')"
  shows "changes w w' {q. \<exists>k\<ge>1. q = take k p} \<and> (ok \<longrightarrow> node_at w' (take n p) = Some SubDir)
    \<and> (\<forall>q. node_at w q \<noteq> None \<longrightarrow> node_at w' q = node_at w q)
    \<and> (\<forall>q. node_at w q = None \<longrightarrow> node_at w' q = None \<or> node_at w' q = Some SubDir)"
  using assms(2,3)
proof (induction n arbitrary: ok w')
  case (Suc n)
  let ?K = "{q. \<exists>k\<ge>1. q = take k p}"
  obtain ok1 w1 where 1: "mkdirs (map (\<lambda>k. take k p) [1 ..< Suc n]) w = (ok1, w1)" by fastforce
  have IH: "changes w w1 ?K" "ok1 \<longrightarrow> node_at w1 (take n p) = Some SubDir"
    "\<And>q. node_at w q \<noteq> None \<Longrightarrow> node_at w1 q = node_at w q"
    "\<And>q. node_at w q = None \<Longrightarrow> node_at w1 q = None \<or> node_at w1 q = Some SubDir"
    using Suc.IH [OF _ 1] Suc.prems(1) by auto
  have step: "(ok, w') = (if ok1 then mkdirs [take (Suc n) p] w1 else (False, w1))"
    using Suc.prems(2) 1 mkdirs_snoc [of "map (\<lambda>k. take k p) [1 ..< Suc n]" "take (Suc n) p" w]
    by (simp add: Let_def)
  let ?p = "take (Suc n) p"
  consider "ok1" "node_at w1 ?p = None" | "w' = w1" "ok \<longrightarrow> node_at w1 ?p = Some SubDir"
    using step by (auto simp del: mkdirs.simps simp: mkdirs_one split: option.splits node.splits if_splits)
  then show ?case
  proof cases
    case 1
    then have w': "w' = mk_node ?p w1" using step by (simp del: mkdirs.simps add: mkdirs_one)
    have b: "butlast ?p = take n p" "?p \<noteq> []" using Suc.prems(1) by (auto simp: butlast_take)
    have wf1: "fs_wf w1" using changes_wf [OF IH(1) assms(1)] .
    then have t: "tree w1 (butlast ?p) \<noteq> None" using IH(2) 1 b fs_wfD(2) [OF wf1] by simp
    have "changes w1 w' {?p}" unfolding w' by (rule mk_node_changes [OF wf1 b(2) 1(2) t])
    then have "changes w w' (?K \<union> {?p})" by (rule changes_trans [OF IH(1)])
    moreover have "?K \<union> {?p} = ?K" by (auto intro: exI [of _ "Suc n"])
    ultimately have "changes w w' ?K" by simp
    with IH 1 show ?thesis unfolding w' using mk_node_node [OF wf1 b(2) 1(2) t] by auto
  qed (use IH in auto)
qed simp

lemma mkdirs_tick [simp]: "tick (snd (mkdirs ps w)) = tick w"
proof (induction ps w rule: mkdirs.induct)
  case (2 p ps w)
  have "tick (put_node p SubDir w) = tick w" by (simp add: put_node_def split: option.split)
  with 2 show ?case by (auto split: option.split node.split)
qed simp

lemma os_mkdir_all_tick: "os_mkdir_all f w = (r, w') \<Longrightarrow> tick w' = Suc (tick w)"
proof -
  assume "os_mkdir_all f w = (r, w')"
  moreover have "tick v = tick w" if "mkdirs ps w = (ok, v)" for ps ok v
    using mkdirs_tick [of ps w] that by simp
  ultimately show ?thesis
    by (auto simp: os_mkdir_all_def Let_def split: option.splits prod.splits)
qed

lemma os_mkdir_all_spec:
  assumes "fs_wf w" "os_mkdir_all f w = (r, w')"
  shows "changes w w' {q. \<exists>k\<ge>1. q = take k (resolve (cwd w) f)}"
    and "r = Inr u \<Longrightarrow> node_at w' (resolve (cwd w) f) = Some SubDir"
    and "node_at w q \<noteq> None \<Longrightarrow> node_at w' q = node_at w q"
    and "node_at w q = None \<Longrightarrow> node_at w' q = None \<or> node_at w' q = Some SubDir"
proof -
  let ?p = "resolve (cwd w) f"
  obtain n ok v where m: "n \<le> length ?p" "mkdirs (map (\<lambda>k. take k ?p) [1 ..< Suc n]) w = (ok, v)"
    and r: "w' = tock v \<and> (r = Inr u \<longrightarrow> ok \<and> n = length ?p)"
  proof (cases "now_fault w")
    case None
    obtain ok v where m: "mkdirs (map (\<lambda>k. take k ?p) [1 ..< Suc (length ?p)]) w = (ok, v)" by fastforce
    with None assms(2) show ?thesis
      by (intro that [of "length ?p" ok v]) (auto simp: os_mkdir_all_def Let_def split: if_splits)
  next
    case (Some en)
    obtain e n where en: "en = (e, n)" by fastforce
    obtain ok v where m: "mkdirs (map (\<lambda>k. take k ?p) [1 ..< Suc (min n (length ?p))]) w = (ok, v)"
      by fastforce
    with Some en assms(2) show ?thesis
      by (intro that [of "min n (length ?p)" ok v]) (auto simp: os_mkdir_all_def Let_def)
  qed
  note spec = mkdirs_changes [OF assms(1) m]
  from r
  show "changes w w' {q. \<exists>k\<ge>1. q = take k ?p}"
    "r = Inr u \<Longrightarrow> node_at w' (resolve (cwd w) f) = Some SubDir"
    "node_at w q \<noteq> None \<Longrightarrow> node_at w' q = node_at w q"
    using spec by auto
  from spec r show "node_at w q = None \<Longrightarrow> node_at w' q = None \<or> node_at w' q = Some SubDir"
    by (metis fsys_tock(3))
qed

subsection \<open>Listings\<close>

definition listing :: "('a) fsys_scheme \<Rightarrow> path \<Rightarrow> dir" where
  "listing w p = (case tree w p of None \<Rightarrow> [] | Some d \<Rightarrow> d)"

lemma listing_tock [simp]: "listing (tock w) = listing w"
  by (simp add: listing_def fun_eq_iff)

lemma dir_eqI:
  assumes "dir_wf a" "dir_wf b" "map_of a = map_of b"
  shows "a = b"
proof -
  note d = dir_wf_distinct [OF assms(1)] dir_wf_distinct [OF assms(2)]
  have s: "set a = set b" using assms(3) d by (simp add: map_of_inject_set)
  have "inj_on fst (set a \<union> set b)" using d s by (simp add: distinct_map)
  moreover have "sorted (map fst a)" "sorted (map fst b)"
    using assms(1,2) by (simp_all add: dir_wf_def strict_sorted_iff)
  ultimately show ?thesis using d s by (intro map_sorted_distinct_set_unique [of fst]) auto
qed

lemma node_at_listing: "node_at w (p @ [n]) = map_of (listing w p) n"
  by (simp add: node_at_snoc listing_def split: option.split)

lemma listing_wf: "fs_wf w \<Longrightarrow> dir_wf (listing w p)"
  by (auto simp: listing_def fs_wfD(1) split: option.split)

text \<open>A well-formed listing is known once every name in it is.\<close>

lemma listing_eqI:
  assumes "fs_wf w" "dir_wf es" "\<And>n. node_at w (p @ [n]) = map_of es n"
  shows "listing w p = es"
  using assms by (intro dir_eqI listing_wf) (auto simp: node_at_listing fun_eq_iff)

lemma tree_listing: "tree w p \<noteq> None \<Longrightarrow> tree w p = Some (listing w p)"
  by (auto simp: listing_def)

end
