(* ===== verification/Process.thy ===== *)
theory Process
  imports FileSys
begin

text \<open>
  The process around the components: error values, the structured log of package
  \<open>internal/logs\<close> (\<open>logger.go\<close>) and the process state, which extends the operating system's with
  the environment variables, the Unicode lower-case mapping and the log written so far.

  An error keeps what a caller can observe of a Go error: the sentinel \<open>errors.Is\<close> finds, the
  operating system's error, the constant format string of \<open>fmt.Errorf\<close> with the strings put into
  it, the errors only shown in it (\<open>%v\<close>) and the one it wraps (\<open>%w\<close>). The rendered message is
  not built.
\<close>

datatype sentinel = ErrInvalidDomain | ErrInvalidMode | ErrInvalidBackup

datatype gerr =
    Sentinel sentinel
  | OsErr os_error
  | Errorf string "string list" "gerr list" "gerr option"

text \<open>\<open>errors.Is(err, s)\<close>: the chain of \<open>%w\<close> verbs is followed.\<close>

fun errors_is :: "gerr \<Rightarrow> sentinel \<Rightarrow> bool" where
  "errors_is (Sentinel t) s = (t = s)"
| "errors_is (OsErr _) s = False"
| "errors_is (Errorf _ _ _ (Some e)) s = errors_is e s"
| "errors_is (Errorf _ _ _ None) s = False"

subsection \<open>The structured log\<close>

text \<open>
  A text of the log: a literal and the errors rendered after it, as in
  \<open>"read error: "+err.Error()\<close>.
\<close>

datatype log_text = Text string "gerr list"

record audit_event =
  ev_event :: string
  ev_domain :: string
  ev_from :: string
  ev_to :: string
  ev_remote_ip :: string
  ev_caddy_reload :: log_text

datatype log_line =
    Audit audit_event
  | Info string "string list"
  | Warn string "string list"
  | LogError string "string list"
  | Request string string string int

record proc = fsys +
  env :: "string \<Rightarrow> string"
  ulower :: "string \<Rightarrow> string"
  slog :: "log_line list"

definition log_append :: "log_line \<Rightarrow> ('a) proc_scheme \<Rightarrow> ('a) proc_scheme" where
  "log_append l w = w\<lparr>slog := slog w @ [l]\<rparr>"

definition or_unknown :: "string \<Rightarrow> string" where
  "or_unknown s = (if s = [] then ''unknown'' else s)"

definition or_unknown_text :: "log_text \<Rightarrow> log_text" where
  "or_unknown_text t = (if t = Text [] [] then Text ''unknown'' [] else t)"

definition log_action ::
  "string \<Rightarrow> string \<Rightarrow> string \<Rightarrow> string \<Rightarrow> string \<Rightarrow> log_text \<Rightarrow> ('a) proc_scheme \<Rightarrow> ('a) proc_scheme" where
  "log_action event dn from dst remote_ip reload_status w =
     log_append (Audit \<lparr>ev_event = event, ev_domain = dn, ev_from = or_unknown from,
       ev_to = or_unknown dst, ev_remote_ip = remote_ip,
       ev_caddy_reload = or_unknown_text reload_status\<rparr>) w"

definition log_request :: "string \<Rightarrow> string \<Rightarrow> string \<Rightarrow> int \<Rightarrow> ('a) proc_scheme \<Rightarrow> ('a) proc_scheme" where
  "log_request meth pth remote_ip status w = log_append (Request meth pth remote_ip status) w"

datatype level = LevelDebug | LevelInfo | LevelWarn | LevelError

definition parse_level :: "string \<Rightarrow> level" where
  "parse_level s =
     (if s = ''debug'' then LevelDebug
      else if s = ''warn'' then LevelWarn
      else if s = ''error'' then LevelError
      else LevelInfo)"

definition is_audit :: "log_line \<Rightarrow> bool" where
  "is_audit l = (case l of Audit _ \<Rightarrow> True | _ \<Rightarrow> False)"

text \<open>The audit events of a log, in order.\<close>

definition audits :: "('a) proc_scheme \<Rightarrow> audit_event list" where
  "audits w = List.map_filter (\<lambda>l. case l of Audit e \<Rightarrow> Some e | _ \<Rightarrow> None) (slog w)"

subsection \<open>Lemmas\<close>

lemma log_append_fields [simp]:
  "tree (log_append l w) = tree w" "cwd (log_append l w) = cwd w" "node_at (log_append l w) = node_at w"
  "tick (log_append l w) = tick w" "fault (log_append l w) = fault w" "clock (log_append l w) = clock w"
  "tmp_num (log_append l w) = tmp_num w" "create_mode (log_append l w) = create_mode w"
  "env (log_append l w) = env w" "ulower (log_append l w) = ulower w"
  "slog (log_append l w) = slog w @ [l]" "fs_wf (log_append l w) = fs_wf w"
  by (auto simp: log_append_def node_at_def fun_eq_iff fs_wf_def)

lemma log_action_fields [simp]:
  "tree (log_action ev d f t ip s w) = tree w" "cwd (log_action ev d f t ip s w) = cwd w"
  "node_at (log_action ev d f t ip s w) = node_at w" "tick (log_action ev d f t ip s w) = tick w"
  "fault (log_action ev d f t ip s w) = fault w" "env (log_action ev d f t ip s w) = env w"
  "ulower (log_action ev d f t ip s w) = ulower w" "fs_wf (log_action ev d f t ip s w) = fs_wf w"
  by (simp_all add: log_action_def)

lemma map_filter_snoc: "List.map_filter f (xs @ ys) = List.map_filter f xs @ List.map_filter f ys"
  by (simp add: List.map_filter_def)

lemma audits_log_action [simp]:
  "audits (log_action ev d f t ip s w) = audits w @
     [\<lparr>ev_event = ev, ev_domain = d, ev_from = or_unknown f, ev_to = or_unknown t,
       ev_remote_ip = ip, ev_caddy_reload = or_unknown_text s\<rparr>]"
  by (simp add: audits_def log_action_def map_filter_snoc)

lemma audits_tock [simp]: "audits (tock w) = audits w"
  by (simp add: audits_def tock_def)

lemma proc_tock [simp]:
  "env (tock w) = env w" "ulower (tock w) = ulower w" "slog (tock w) = slog w"
  by (simp_all add: tock_def)

text \<open>A file-system call keeps the process fields.\<close>

lemma changes_proc:
  assumes "changes w w' K"
  shows "env w' = env w" "ulower w' = ulower w" "slog w' = slog w" "audits w' = audits w"
proof -
  have "w' = w\<lparr>tree := tree w', tick := tick w'\<rparr>" using assms by (simp add: changes_def)
  then have "env w' = env (w\<lparr>tree := tree w', tick := tick w'\<rparr>)"
    "ulower w' = ulower (w\<lparr>tree := tree w', tick := tick w'\<rparr>)"
    "slog w' = slog (w\<lparr>tree := tree w', tick := tick w'\<rparr>)" by metis+
  then show "env w' = env w" "ulower w' = ulower w" "slog w' = slog w" "audits w' = audits w"
    by (simp_all add: audits_def)
qed

end
