(* ===== verification/Config.thy ===== *)
theory Config
  imports Process
begin

text \<open>
  Package \<open>internal/config\<close>: every setting is read from the environment on each call.
  \<open>os.Getenv\<close> of an unset variable is the empty string.
\<close>

definition env_or :: "(string \<Rightarrow> string) \<Rightarrow> string \<Rightarrow> string \<Rightarrow> string" where
  "env_or e key fallback = (if e key \<noteq> [] then e key else fallback)"

definition managed_dir :: "(string \<Rightarrow> string) \<Rightarrow> string" where
  "managed_dir e = env_or e ''CADDY_UI_MANAGED_DIR'' ''/ui-managed''"

definition backup_dir :: "(string \<Rightarrow> string) \<Rightarrow> string" where
  "backup_dir e = env_or e ''CADDY_UI_BACKUP_DIR'' ''/backups''"

definition backup_keep :: "(string \<Rightarrow> string) \<Rightarrow> int" where
  "backup_keep e =
     (case atoi (e ''CADDY_UI_BACKUP_KEEP'') of
        Some k \<Rightarrow> if k > 0 then k else 10
      | None \<Rightarrow> 10)"

definition audit_log_path :: "(string \<Rightarrow> string) \<Rightarrow> string" where
  "audit_log_path e = env_or e ''CADDY_UI_AUDIT_LOG'' ''/data/logs/coraza-audit.log''"

definition caddyfile_path :: "(string \<Rightarrow> string) \<Rightarrow> string" where
  "caddyfile_path e = env_or e ''CADDY_UI_CADDYFILE'' ''/etc/caddy/Caddyfile''"

definition admin_url :: "(string \<Rightarrow> string) \<Rightarrow> string" where
  "admin_url e = env_or e ''CADDY_ADMIN_URL'' ''http://caddy-waf:2019''"

definition include_dir :: "(string \<Rightarrow> string) \<Rightarrow> string" where
  "include_dir e = env_or e ''CADDY_UI_INCLUDE_DIR'' ''/etc/caddy/ui-managed''"

definition bind_addr :: "(string \<Rightarrow> string) \<Rightarrow> string" where
  "bind_addr e = env_or e ''CADDY_UI_BIND'' ''0.0.0.0:8080''"

definition log_level :: "(string \<Rightarrow> string) \<Rightarrow> string" where
  "log_level e = env_or e ''CADDY_UI_LOG_LEVEL'' ''info''"

definition ui_token :: "(string \<Rightarrow> string) \<Rightarrow> string" where
  "ui_token e = e ''CADDY_UI_TOKEN''"

lemma env_or_not_Nil: "d \<noteq> [] \<Longrightarrow> env_or e k d \<noteq> []"
  by (simp add: env_or_def)

lemma dirs_not_Nil [simp]: "managed_dir e \<noteq> []" "backup_dir e \<noteq> []"
  by (simp_all add: managed_dir_def backup_dir_def env_or_not_Nil)

lemma backup_keep_pos: "backup_keep e > 0"
  by (simp add: backup_keep_def split: option.split)

subsection \<open>The output of the log\<close>

text \<open>
  \<open>logs.Setup\<close> reads the level once, before the server starts; the handler drops every record below
  it. \<open>slog w\<close> holds all the records made, \<open>setup_output\<close> what reaches standard output.
\<close>

fun level_num :: "level \<Rightarrow> int" where
  "level_num LevelDebug = - 4"
| "level_num LevelInfo = 0"
| "level_num LevelWarn = 4"
| "level_num LevelError = 8"

fun line_level :: "log_line \<Rightarrow> level" where
  "line_level (Audit _) = LevelInfo"
| "line_level (Info _ _) = LevelInfo"
| "line_level (Request _ _ _ _) = LevelInfo"
| "line_level (Warn _ _) = LevelWarn"
| "line_level (LogError _ _) = LevelError"

definition setup_output :: "(string \<Rightarrow> string) \<Rightarrow> log_line list \<Rightarrow> log_line list" where
  "setup_output e ls = filter (\<lambda>l. level_num (parse_level (log_level e)) \<le> level_num (line_level l)) ls"

lemma setup_output_info:
  "level_num (parse_level (log_level e)) \<le> 0 \<Longrightarrow> setup_output e ls = ls"
proof -
  assume a: "level_num (parse_level (log_level e)) \<le> 0"
  have "0 \<le> level_num (line_level l)" for l by (cases l) simp_all
  with a show ?thesis by (simp add: setup_output_def filter_id_conv order_trans)
qed

end
