(* ===== verification/Regex.thy ===== *)
theory Regex
  imports Prelude
begin

text \<open>
  The regular expressions of package \<open>regexp\<close> that the sources compile: byte classes,
  sequence, alternation, greedy repetition, capture groups and anchors, with the
  leftmost-first (Perl) semantics Go documents. \<open>rm r p s\<close> lists, in order of preference,
  every way to match \<open>r\<close> at the position whose text to the left is \<open>p\<close> (reversed) and to
  the right is \<open>s\<close>: the captures recorded and the position reached. All classes of the
  sources' patterns are ASCII classes, or \<open>.\<close> whose greedy repetition runs to the end of
  the line, so matching bytes and matching runes agree.
\<close>

datatype re =
    Eps
  | Chr "char \<Rightarrow> bool"
  | Seq re re
  | Alt re re
  | Star re
  | Cap nat re
  | BeginText
  | BeginLine
  | EndText

type_synonym caps = "(nat \<times> string) list"
type_synonym rmatch = "caps \<times> string \<times> string"

definition with_caps :: "caps \<Rightarrow> rmatch list \<Rightarrow> rmatch list" where
  "with_caps cs ms = map (\<lambda>(cs', p, s). (cs @ cs', p, s)) ms"

function rm :: "re \<Rightarrow> string \<Rightarrow> string \<Rightarrow> rmatch list" where
  "rm Eps p s = [([], p, s)]"
| "rm (Chr f) p s =
     (case s of [] \<Rightarrow> [] | c # cs \<Rightarrow> if f c then [([], c # p, cs)] else [])"
| "rm (Seq a b) p s = concat (map (\<lambda>(cs, p', s'). with_caps cs (rm b p' s')) (rm a p s))"
| "rm (Alt a b) p s = rm a p s @ rm b p s"
| "rm (Star a) p s =
     concat (map (\<lambda>(cs, p', s').
       if length s' < length s then with_caps cs (rm (Star a) p' s') else []) (rm a p s))
     @ [([], p, s)]"
| "rm (Cap n a) p s =
     map (\<lambda>(cs, p', s'). (cs @ [(n, take (length s - length s') s)], p', s')) (rm a p s)"
| "rm BeginText p s = (if p = [] then [([], p, s)] else [])"
| "rm BeginLine p s = (if p = [] \<or> hd p = nl then [([], p, s)] else [])"
| "rm EndText p s = (if s = [] then [([], p, s)] else [])"
  by pat_completeness auto
termination
  by (relation "measures [\<lambda>(r, p, s). size r, \<lambda>(r, p, s). length s]") auto

fun seqs :: "re list \<Rightarrow> re" where
  "seqs [] = Eps"
| "seqs [r] = r"
| "seqs (r # q # rs) = Seq r (seqs (q # rs))"

definition lit :: "string \<Rightarrow> re" where
  "lit w = seqs (map (\<lambda>c. Chr (\<lambda>x. x = c)) w)"

definition rep :: "nat \<Rightarrow> (char \<Rightarrow> bool) \<Rightarrow> re" where
  "rep n f = seqs (replicate n (Chr f))"

definition plus :: "(char \<Rightarrow> bool) \<Rightarrow> re" where
  "plus f = Seq (Chr f) (Star (Chr f))"

definition opt :: "re \<Rightarrow> re" where
  "opt r = Alt r Eps"

text \<open>The perl class \<open>\s\<close> and the class \<open>.\<close> (any byte but a newline).\<close>

definition re_space :: "char \<Rightarrow> bool" where
  "re_space c \<longleftrightarrow> c \<in> {CHR 0x09, CHR 0x0A, CHR 0x0C, CHR 0x0D, CHR 0x20}"

definition re_dot :: "char \<Rightarrow> bool" where
  "re_dot c \<longleftrightarrow> c \<noteq> nl"

text \<open>
  The first match at or after a position, as \<open>FindSubmatch\<close> reports it, and the successive
  non-overlapping ones of \<open>FindAllSubmatch\<close> (an empty match advances by one byte).
\<close>

fun find_from :: "re \<Rightarrow> string \<Rightarrow> string \<Rightarrow> rmatch option" where
  "find_from r p [] = (case rm r p [] of [] \<Rightarrow> None | m # _ \<Rightarrow> Some m)"
| "find_from r p (c # s) =
     (case rm r p (c # s) of [] \<Rightarrow> find_from r (c # p) s | m # _ \<Rightarrow> Some m)"

definition find_submatch :: "re \<Rightarrow> string \<Rightarrow> caps option" where
  "find_submatch r s = map_option fst (find_from r [] s)"

definition match_string :: "re \<Rightarrow> string \<Rightarrow> bool" where
  "match_string r s \<longleftrightarrow> find_submatch r s \<noteq> None"

function find_all :: "re \<Rightarrow> string \<Rightarrow> string \<Rightarrow> caps list" where
  "find_all r p s =
     (case find_from r p s of
        None \<Rightarrow> []
      | Some (cs, p', s') \<Rightarrow>
          cs # (if length s' < length s then find_all r p' s'
                else (case s of [] \<Rightarrow> [] | c # t \<Rightarrow> find_all r (c # p) t)))"
  by pat_completeness auto
termination
  by (relation "measure (\<lambda>(r, p, s). length s)") auto

declare find_all.simps [simp del]

definition group :: "nat \<Rightarrow> caps \<Rightarrow> string" where
  "group n cs = (case map_of (rev cs) n of None \<Rightarrow> [] | Some t \<Rightarrow> t)"

subsection \<open>Matching lemmas\<close>

lemma with_caps_simps [simp]:
  "with_caps cs [] = []"
  "with_caps cs ((cs', p, s) # ms) = (cs @ cs', p, s) # with_caps cs ms"
  "with_caps [] ms = ms"
  by (auto simp: with_caps_def)

lemma with_caps_with_caps [simp]: "with_caps a (with_caps b ms) = with_caps (a @ b) ms"
  by (auto simp: with_caps_def)

lemma with_caps_eq_Nil [simp]: "with_caps cs ms = [] \<longleftrightarrow> ms = []"
  by (simp add: with_caps_def)

text \<open>A match of an anchored pattern can only start at the first byte.\<close>

lemma find_from_BeginText: "p \<noteq> [] \<Longrightarrow> find_from (Seq BeginText r) p s = None"
  by (induction s arbitrary: p) auto

lemma find_submatch_BeginText:
  "find_submatch (Seq BeginText r) s =
     (case rm r [] s of [] \<Rightarrow> None | m # _ \<Rightarrow> Some (fst m))"
  by (cases s) (auto simp: find_submatch_def find_from_BeginText split: list.splits)

lemma rm_Seq_Eps [simp]: "rm (Seq r Eps) p s = rm r p s"
proof -
  have "(\<lambda>(cs, p', s'). with_caps cs (rm Eps p' s')) = (\<lambda>m. [m])" by auto
  then show ?thesis by (simp only: rm.simps(3) concat_map_singleton) simp
qed

lemma concat_with_caps:
  "concat (map (\<lambda>(cs, p', s'). with_caps cs (F p' s')) (with_caps cs0 ms)) =
     with_caps cs0 (concat (map (\<lambda>(cs, p', s'). with_caps cs (F p' s')) ms))"
  by (induction ms) (auto simp: with_caps_def)

lemma rm_Seq_assoc: "rm (Seq (Seq a b) c) p s = rm (Seq a (Seq b c)) p s"
proof -
  have "concat (map (\<lambda>(cs, p', s'). with_caps cs (rm c p' s'))
          (concat (map (\<lambda>(cs, p', s'). with_caps cs (rm b p' s')) ms))) =
        concat (map (\<lambda>(cs, p', s'). with_caps cs (rm (Seq b c) p' s')) ms)" for ms
    by (induction ms) (auto simp: concat_with_caps)
  then show ?thesis by simp
qed

lemma rm_Seq_Chr:
  "rm (Seq (Chr f) r) p s =
     (case s of [] \<Rightarrow> [] | c # cs \<Rightarrow> if f c then rm r (c # p) cs else [])"
  by (simp split: list.splits)

lemma rm_seqs_Cons: "rm (seqs (r # rs)) p s = rm (Seq r (seqs rs)) p s"
  by (cases rs) (simp_all del: rm.simps(3))

lemma rm_Seq_seqs_Cons:
  "rm (Seq (seqs (r # rs)) q) p s = rm (Seq r (Seq (seqs rs) q)) p s"
proof -
  have "rm (Seq (seqs (r # rs)) q) p s = rm (Seq (Seq r (seqs rs)) q) p s"
    by (simp only: rm.simps(3) rm_seqs_Cons)
  then show ?thesis by (simp only: rm_Seq_assoc)
qed

lemma rm_seqs_chrs:
  "rm (Seq (seqs (map Chr fs)) r) p s =
     (if length fs \<le> length s \<and> list_all2 (\<lambda>f c. f c) fs (take (length fs) s)
      then rm r (rev (take (length fs) s) @ p) (drop (length fs) s) else [])"
proof (induction fs arbitrary: p s)
  case (Cons f fs)
  show ?case
    by (auto simp: Cons rm_Seq_seqs_Cons rm_Seq_Chr simp del: rm.simps(3) seqs.simps
        split: list.splits)
qed simp

lemma rm_lit:
  "rm (Seq (lit w) r) p s =
     (if has_prefix w s then rm r (rev w @ p) (drop (length w) s) else [])"
proof -
  have l2: "list_all2 (\<lambda>f c. f c) (map (\<lambda>c x. x = c) w) u \<longleftrightarrow> u = w" for u
    by (auto simp: list_all2_conv_all_nth intro: nth_equalityI)
  show ?thesis
    using rm_seqs_chrs [of "map (\<lambda>c x. x = c) w" r p s]
    by (auto simp: lit_def comp_def has_prefix_def l2)
qed

lemma rm_Star_Chr:
  "rm (Star (Chr f)) p s =
     map (\<lambda>k. ([], rev (take k s) @ p, drop k s)) (rev [0 ..< Suc (length (takeWhile f s))])"
proof (induction s arbitrary: p)
  case (Cons c s)
  show ?case
  proof (cases "f c")
    case True
    have "rev [0 ..< Suc (Suc n)] = map Suc (rev [0 ..< Suc n]) @ [0]" for n
      by (simp add: upt_conv_Cons map_Suc_upt rev_map flip: map_Suc_upt del: upt_Suc)
    with True Cons show ?thesis by simp
  qed simp
qed simp

lemma rm_plus:
  "rm (plus f) p s =
     map (\<lambda>k. ([], rev (take k s) @ p, drop k s)) (rev [1 ..< Suc (length (takeWhile f s))])"
proof (cases s)
  case (Cons c cs)
  have "rev [Suc 0 ..< Suc (Suc n)] = map Suc (rev [0 ..< Suc n])" for n
    by (simp only: map_Suc_upt flip: rev_map)
  with Cons show ?thesis
    by (auto simp: plus_def rm_Seq_Chr rm_Star_Chr simp del: rm.simps upt_Suc)
qed (simp add: plus_def)

lemma takeWhile_run:
  assumes "k < length (takeWhile f s)"
  shows "\<exists>c t. drop k s = c # t \<and> f c"
proof -
  from assms have "k < length s" "f (s ! k)"
    using length_takeWhile_le [of f s] nth_mem [of k "takeWhile f s"]
    by (auto simp: takeWhile_nth dest: set_takeWhileD)
  then show ?thesis by (metis Cons_nth_drop_Suc)
qed

text \<open>
  Maximal munch: when what follows a repetition cannot start with a byte of its class, only
  the longest repetition leads to a match.
\<close>

lemma rm_Cap_plus_munch:
  assumes "\<And>p c s. f c \<Longrightarrow> rm r p (c # s) = []"
  shows "rm (Seq (Cap n (plus f)) r) p s =
    (if takeWhile f s = [] then []
     else with_caps [(n, takeWhile f s)] (rm r (rev (takeWhile f s) @ p) (dropWhile f s)))"
proof -
  let ?n = "length (takeWhile f s)"
  let ?g = "\<lambda>k. with_caps [(n, take k s)] (rm r (rev (take k s) @ p) (drop k s))"
  have le: "?n \<le> length s" by (rule length_takeWhile_le)
  have none: "?g k = []" if "k < ?n" for k
    using takeWhile_run [OF that] assms by auto
  have "rm (Seq (Cap n (plus f)) r) p s = concat (map ?g (rev [1 ..< Suc ?n]))"
    using le by (simp add: rm_plus comp_def del: upt_Suc)
      (rule arg_cong [where f = concat], rule map_cong, auto)
  also have "\<dots> = (if ?n = 0 then [] else ?g ?n)"
    using none by (cases ?n) auto
  finally show ?thesis
    by (simp only: length_0_conv flip: takeWhile_eq_take dropWhile_eq_drop)
qed

lemma rm_plus_munch:
  assumes "\<And>p c s. f c \<Longrightarrow> rm r p (c # s) = []"
  shows "rm (Seq (plus f) r) p s =
    (if takeWhile f s = [] then []
     else rm r (rev (takeWhile f s) @ p) (dropWhile f s))"
proof -
  let ?n = "length (takeWhile f s)"
  let ?g = "\<lambda>k. rm r (rev (take k s) @ p) (drop k s)"
  have none: "?g k = []" if "k < ?n" for k
    using takeWhile_run [OF that] assms by auto
  have "rm (Seq (plus f) r) p s = concat (map ?g (rev [1 ..< Suc ?n]))"
    by (simp add: rm_plus comp_def del: upt_Suc)
  also have "\<dots> = (if ?n = 0 then [] else ?g ?n)"
    using none by (cases ?n) auto
  finally show ?thesis
    by (simp only: length_0_conv flip: takeWhile_eq_take dropWhile_eq_drop)
qed

text \<open>A whole-string match of one class, \<open>^[...]+$\<close>.\<close>

lemma match_plus:
  "match_string (seqs [BeginText, plus f, EndText]) s \<longleftrightarrow> s \<noteq> [] \<and> list_all f s"
proof -
  have "rm (Seq (plus f) EndText) [] s =
      (if takeWhile f s = [] then [] else rm EndText (rev (takeWhile f s)) (dropWhile f s))"
    by (subst rm_plus_munch) auto
  moreover have "dropWhile f s = [] \<longleftrightarrow> list_all f s"
    by (simp add: dropWhile_eq_Nil_conv list_all_iff)
  moreover have "takeWhile f s = [] \<and> dropWhile f s = [] \<longleftrightarrow> s = []"
    by (metis append_Nil takeWhile_dropWhile_id takeWhile.simps(1) dropWhile.simps(1))
  ultimately show ?thesis
    by (auto simp: match_string_def find_submatch_BeginText split: list.splits if_splits)
qed

end
