(* ===== verification/Json.thy ===== *)
theory Json
  imports Prelude
begin

text \<open>
  The part of package \<open>encoding/json\<close> the sources use: the scanner (one value at the front of the
  input), \<open>Decoder.Decode\<close>, \<open>json.Unmarshal\<close>, and the decoding of a value into \<open>any\<close> and into
  structs (case-insensitive keys, unknown keys ignored, \<open>null\<close> without effect, the last of repeated
  keys wins). Objects are association lists in the order of the text. Not modelled: the range of
  \<open>float64\<close>, which only matters for numbers decoded into \<open>any\<close>.
\<close>

datatype json = JNull | JBool bool | JNum string | JStr string
  | JArr "json list" | JObj "(string \<times> json) list"

text \<open>What reading finds: a syntax error, an input that ends inside the value, or a value and the rest.\<close>

datatype json_read = Bad | More | Val json string

datatype str_read = SBad | SMore | SVal string string

definition json_space :: "char \<Rightarrow> bool" where
  "json_space c \<longleftrightarrow> c \<in> {CHR '' '', CHR 0x09, CHR 0x0A, CHR 0x0D}"

definition skip_ws :: "string \<Rightarrow> string" where
  "skip_ws s = dropWhile json_space s"

subsection \<open>Strings\<close>

text \<open>The length of the valid UTF-8 sequence \<open>s\<close> starts with, 0 if there is none.\<close>

definition byte_in :: "nat \<Rightarrow> nat \<Rightarrow> string \<Rightarrow> nat \<Rightarrow> bool" where
  "byte_in lo hi s i \<longleftrightarrow> i < length s \<and> lo \<le> of_char (s ! i) \<and> of_char (s ! i) \<le> hi"

definition rune_len :: "string \<Rightarrow> nat" where
  "rune_len s =
     (if byte_in 0 0x7F s 0 then 1
      else if byte_in 0xC2 0xDF s 0 \<and> byte_in 0x80 0xBF s 1 then 2
      else if (byte_in 0xE0 0xE0 s 0 \<and> byte_in 0xA0 0xBF s 1
               \<or> byte_in 0xED 0xED s 0 \<and> byte_in 0x80 0x9F s 1
               \<or> (byte_in 0xE1 0xEC s 0 \<or> byte_in 0xEE 0xEF s 0) \<and> byte_in 0x80 0xBF s 1)
              \<and> byte_in 0x80 0xBF s 2 then 3
      else if (byte_in 0xF0 0xF0 s 0 \<and> byte_in 0x90 0xBF s 1
               \<or> byte_in 0xF1 0xF3 s 0 \<and> byte_in 0x80 0xBF s 1
               \<or> byte_in 0xF4 0xF4 s 0 \<and> byte_in 0x80 0x8F s 1)
              \<and> byte_in 0x80 0xBF s 2 \<and> byte_in 0x80 0xBF s 3 then 4
      else 0)"

definition encode_rune :: "nat \<Rightarrow> string" where
  "encode_rune r =
     (if r < 0x80 then [char_of r]
      else if r < 0x800 then [char_of (0xC0 + r div 64), char_of (0x80 + r mod 64)]
      else if r < 0x10000
      then [char_of (0xE0 + r div 4096), char_of (0x80 + r div 64 mod 64), char_of (0x80 + r mod 64)]
      else [char_of (0xF0 + r div 262144), char_of (0x80 + r div 4096 mod 64),
            char_of (0x80 + r div 64 mod 64), char_of (0x80 + r mod 64)])"

definition replacement :: string where
  "replacement = [CHR 0xEF, CHR 0xBF, CHR 0xBD]"

definition nibble :: "char \<Rightarrow> nat" where
  "nibble c = (if is_digit c then of_char c - 48 else of_char (lower_byte c) - 87)"

definition hex4 :: "string \<Rightarrow> nat" where
  "hex4 s = foldl (\<lambda>n c. 16 * n + nibble c) 0 (take 4 s)"

text \<open>The low half of a surrogate pair, written \<open>\uXXXX\<close> at the front of \<open>s\<close>.\<close>

definition low_surrogate :: "string \<Rightarrow> nat option" where
  "low_surrogate s =
     (if has_prefix [CHR 0x5C, CHR ''u''] s \<and> 6 \<le> length s \<and> list_all is_hex (take 4 (drop 2 s))
         \<and> 0xDC00 \<le> hex4 (drop 2 s) \<and> hex4 (drop 2 s) < 0xE000
      then Some (hex4 (drop 2 s)) else None)"

definition escapes :: "(char \<times> char) list" where
  "escapes = [(quot, quot), (CHR 0x5C, CHR 0x5C), (CHR ''/'', CHR ''/''), (CHR ''b'', CHR 0x08),
     (CHR ''f'', CHR 0x0C), (CHR ''n'', CHR 0x0A), (CHR ''r'', CHR 0x0D), (CHR ''t'', CHR 0x09)]"

fun s_cons :: "string \<Rightarrow> str_read \<Rightarrow> str_read" where
  "s_cons a (SVal b r) = SVal (a @ b) r"
| "s_cons a e = e"

text \<open>The rest of a string, after its opening quote.\<close>

function json_str :: "string \<Rightarrow> str_read" where
  "json_str [] = SMore"
| "json_str (c # cs) =
     (if c = quot then SVal [] cs
      else if c = CHR 0x5C
      then (case cs of [] \<Rightarrow> SMore
            | e # r \<Rightarrow>
                if e = CHR ''u''
                then (if \<not> list_all is_hex (take 4 r) then SBad
                      else if length r < 4 then SMore
                      else (let x = hex4 r; r1 = drop 4 r in
                            if 0xD800 \<le> x \<and> x < 0xE000
                            then (case low_surrogate r1 of
                                Some y \<Rightarrow>
                                  if x < 0xDC00
                                  then s_cons (encode_rune (0x10000 + (x - 0xD800) * 1024 + (y - 0xDC00)))
                                         (json_str (drop 6 r1))
                                  else s_cons replacement (json_str r1)
                              | None \<Rightarrow> s_cons replacement (json_str r1))
                            else s_cons (encode_rune x) (json_str r1)))
                else (case map_of escapes e of None \<Rightarrow> SBad | Some b \<Rightarrow> s_cons [b] (json_str r)))
      else if c < CHR '' '' then SBad
      else (let k = rune_len (c # cs) in
            if k = 0 then s_cons replacement (json_str cs)
            else s_cons (take k (c # cs)) (json_str (drop k (c # cs)))))"
  by pat_completeness auto
termination
  by (relation "measure length") auto

declare json_str.simps [simp del]

subsection \<open>Values\<close>

text \<open>A number: the text scanned, or what stops it.\<close>

definition digits_then :: "string \<Rightarrow> string \<times> string" where
  "digits_then s = (takeWhile is_digit s, dropWhile is_digit s)"

definition number_exp :: "string \<Rightarrow> string \<Rightarrow> json_read" where
  "number_exp pre s =
     (if s \<noteq> [] \<and> (hd s = CHR ''e'' \<or> hd s = CHR ''E'')
      then (let t = tl s;
                sg = (if t \<noteq> [] \<and> (hd t = CHR ''+'' \<or> hd t = CHR ''-'') then [hd t] else []);
                (ds, r) = digits_then (drop (length sg) t)
            in if ds = [] then (if r = [] then More else Bad)
               else Val (JNum (pre @ hd s # sg @ ds)) r)
      else Val (JNum pre) s)"

definition number_frac :: "string \<Rightarrow> string \<Rightarrow> json_read" where
  "number_frac pre s =
     (if s \<noteq> [] \<and> hd s = CHR ''.''
      then (let (ds, r) = digits_then (tl s)
            in if ds = [] then (if r = [] then More else Bad) else number_exp (pre @ CHR ''.'' # ds) r)
      else number_exp pre s)"

definition json_number :: "string \<Rightarrow> json_read" where
  "json_number s =
     (let sg = (if has_prefix ''-'' s then ''-'' else []);
          t = drop (length sg) s
      in if t = [] then More
         else if hd t = CHR ''0'' then number_frac (sg @ ''0'') (tl t)
         else (let (ds, r) = digits_then t in if ds = [] then Bad else number_frac (sg @ ds) r))"

definition json_word :: "string \<Rightarrow> json \<Rightarrow> string \<Rightarrow> json_read" where
  "json_word w v s =
     (if has_prefix w s then Val v (drop (length w) s)
      else if has_prefix s w then More else Bad)"

definition json_scalar :: "string \<Rightarrow> json_read" where
  "json_scalar s =
     (if hd s = CHR ''t'' then json_word ''true'' (JBool True) s
      else if hd s = CHR ''f'' then json_word ''false'' (JBool False) s
      else if hd s = CHR ''n'' then json_word ''null'' JNull s
      else json_number s)"

text \<open>
  \<open>n\<close> is fuel (twice the length of the input is enough, see \<open>json_fuel\<close>), \<open>d\<close> the nesting still allowed.
\<close>

fun json_val :: "nat \<Rightarrow> nat \<Rightarrow> string \<Rightarrow> json_read"
  and json_elems :: "nat \<Rightarrow> nat \<Rightarrow> json list \<Rightarrow> string \<Rightarrow> json_read"
  and json_members :: "nat \<Rightarrow> nat \<Rightarrow> (string \<times> json) list \<Rightarrow> string \<Rightarrow> json_read" where
  "json_val 0 d s = Bad"
| "json_val (Suc n) d s =
     (case skip_ws s of
        [] \<Rightarrow> More
      | c # cs \<Rightarrow>
          if c = CHR ''{''
          then (if d = 0 then Bad
                else (case skip_ws cs of [] \<Rightarrow> More
                      | x # xs \<Rightarrow> if x = CHR ''}'' then Val (JObj []) xs else json_members n (d - 1) [] (x # xs)))
          else if c = CHR ''[''
          then (if d = 0 then Bad
                else (case skip_ws cs of [] \<Rightarrow> More
                      | x # xs \<Rightarrow> if x = CHR '']'' then Val (JArr []) xs else json_elems n (d - 1) [] (x # xs)))
          else if c = quot
          then (case json_str cs of SBad \<Rightarrow> Bad | SMore \<Rightarrow> More | SVal t r \<Rightarrow> Val (JStr t) r)
          else json_scalar (c # cs))"
| "json_elems 0 d acc s = Bad"
| "json_elems (Suc n) d acc s =
     (case json_val n d s of
        Val v r \<Rightarrow>
          (case skip_ws r of
             [] \<Rightarrow> More
           | x # xs \<Rightarrow> if x = CHR '','' then json_elems n d (acc @ [v]) xs
                       else if x = CHR '']'' then Val (JArr (acc @ [v])) xs else Bad)
      | e \<Rightarrow> e)"
| "json_members 0 d acc s = Bad"
| "json_members (Suc n) d acc s =
     (case skip_ws s of
        [] \<Rightarrow> More
      | q # cs \<Rightarrow>
          if q \<noteq> quot then Bad
          else (case json_str cs of
                  SBad \<Rightarrow> Bad
                | SMore \<Rightarrow> More
                | SVal k r \<Rightarrow>
                    (case skip_ws r of
                       [] \<Rightarrow> More
                     | x # xs \<Rightarrow>
                         if x \<noteq> CHR '':'' then Bad
                         else (case json_val n d xs of
                                 Val v r2 \<Rightarrow>
                                   (case skip_ws r2 of
                                      [] \<Rightarrow> More
                                    | y # ys \<Rightarrow> if y = CHR '','' then json_members n d (acc @ [(k, v)]) ys
                                                else if y = CHR ''}'' then Val (JObj (acc @ [(k, v)])) ys
                                                else Bad)
                               | e \<Rightarrow> e))))"

definition max_nesting :: nat where "max_nesting = 10000"

definition json_read_value :: "string \<Rightarrow> json_read" where
  "json_read_value s = json_val (Suc (length s + length s)) max_nesting s"

text \<open>\<open>json.Unmarshal\<close>: one value and white space, nothing else.\<close>

definition json_unmarshal :: "string \<Rightarrow> json option" where
  "json_unmarshal s =
     (case json_read_value s of Val v r \<Rightarrow> if skip_ws r = [] then Some v else None | _ \<Rightarrow> None)"

text \<open>Decoding into \<open>any\<close>: an object is a map, so a later value replaces an earlier one.\<close>

fun last_wins :: "(string \<times> 'v) list \<Rightarrow> (string \<times> 'v) list" where
  "last_wins [] = []"
| "last_wins ((k, v) # kvs) = (if k \<in> fst ` set kvs then last_wins kvs else (k, v) # last_wins kvs)"

fun json_any :: "json \<Rightarrow> json" where
  "json_any (JObj kvs) = JObj (last_wins (map (\<lambda>kv. (fst kv, json_any (snd kv))) kvs))"
| "json_any (JArr xs) = JArr (map json_any xs)"
| "json_any v = v"

text \<open>\<open>json.NewDecoder(r).Decode(&v)\<close> for \<open>v any\<close>: the first value of the stream.\<close>

definition json_decode :: "string \<Rightarrow> json option" where
  "json_decode s = (case json_read_value s of Val v _ \<Rightarrow> Some (json_any v) | _ \<Rightarrow> None)"

subsection \<open>Decoding into Go values\<close>

text \<open>
  A decoder takes the value in the text and the Go value it overwrites; \<open>None\<close> is an
  \<open>UnmarshalTypeError\<close>.
\<close>

type_synonym 'a decoder = "json \<Rightarrow> 'a \<Rightarrow> 'a option"

fun dec_string :: "string decoder" where
  "dec_string JNull old = Some old"
| "dec_string (JStr s) old = Some s"
| "dec_string _ old = None"

fun dec_bool :: "bool decoder" where
  "dec_bool JNull old = Some old"
| "dec_bool (JBool b) old = Some b"
| "dec_bool _ old = None"

fun dec_int64 :: "int decoder" where
  "dec_int64 JNull old = Some old"
| "dec_int64 (JNum t) old = atoi t"
| "dec_int64 _ old = None"

text \<open>The fields of a struct, by JSON name, and what each does to the struct.\<close>

fun dec_field :: "(string \<times> 'a decoder) list \<Rightarrow> string \<Rightarrow> json \<Rightarrow> 'a \<Rightarrow> 'a option" where
  "dec_field [] k v a = Some a"
| "dec_field ((name, f) # fs) k v a = (if equal_fold name k then f v a else dec_field fs k v a)"

fun dec_members :: "(string \<times> 'a decoder) list \<Rightarrow> (string \<times> json) list \<Rightarrow> 'a \<Rightarrow> 'a option" where
  "dec_members fs [] a = Some a"
| "dec_members fs ((k, v) # kvs) a = Option.bind (dec_field fs k v a) (dec_members fs kvs)"

fun dec_struct :: "(string \<times> 'a decoder) list \<Rightarrow> 'a decoder" where
  "dec_struct fs JNull a = Some a"
| "dec_struct fs (JObj kvs) a = dec_members fs kvs a"
| "dec_struct fs _ a = None"

text \<open>A slice: element \<open>i\<close> is decoded over the old element \<open>i\<close>, if there was one.\<close>

fun dec_elems :: "'a \<Rightarrow> 'a decoder \<Rightarrow> json list \<Rightarrow> 'a list \<Rightarrow> 'a list option" where
  "dec_elems zero f [] old = Some []"
| "dec_elems zero f (v # vs) old =
     Option.bind (f v (case old of [] \<Rightarrow> zero | a # _ \<Rightarrow> a)) (\<lambda>a.
       map_option (Cons a) (dec_elems zero f vs (tl old)))"

fun dec_slice :: "'a \<Rightarrow> 'a decoder \<Rightarrow> ('a list) decoder" where
  "dec_slice zero f JNull old = Some []"
| "dec_slice zero f (JArr vs) old = dec_elems zero f vs old"
| "dec_slice zero f _ old = None"

text \<open>A pointer: \<open>null\<close> is nil, any other value is decoded into what it points to.\<close>

definition dec_ptr :: "'a \<Rightarrow> 'a decoder \<Rightarrow> ('a option) decoder" where
  "dec_ptr zero f v old =
     (if v = JNull then Some None
      else map_option Some (f v (case old of None \<Rightarrow> zero | Some a \<Rightarrow> a)))"


text \<open>JSON text for the examples, written with a tilde for each quote.\<close>

definition json_text :: "string \<Rightarrow> string" where
  "json_text s = map (\<lambda>c. if c = CHR ''~'' then quot else c) s"

subsection \<open>Lemmas: reading consumes its input, and the fuel is enough\<close>

lemma skip_ws_length: "length (skip_ws s) \<le> length s"
  by (simp add: skip_ws_def length_dropWhile_le)

lemma skip_ws_Cons: "skip_ws s = x # xs \<Longrightarrow> Suc (length xs) \<le> length s"
  using skip_ws_length [of s] by simp

lemma s_cons_SVal: "s_cons a x = SVal t r \<Longrightarrow> \<exists>b. x = SVal b r"
  by (cases x) auto

lemma json_str_length: "json_str s = SVal t r \<Longrightarrow> length r < length s"
proof (induction s arbitrary: t rule: json_str.induct)
  case (2 c cs)
  note st = "2.prems" [unfolded json_str.simps(2)]
  consider "c = quot" | (esc) e q where "c = CHR 0x5C" "cs = e # q" "e \<noteq> CHR ''u''"
    | (u) e q where "c = CHR 0x5C" "cs = e # q" "e = CHR ''u''" "list_all is_hex (take 4 q)" "\<not> length q < 4"
    | (raw) "c \<noteq> quot" "c \<noteq> CHR 0x5C" "\<not> c < CHR '' ''"
    using st by (cases cs) (auto split: if_splits)
  then show ?case
  proof cases
    case esc
    with st 2(5) have "length r < length q" by (auto split: option.splits dest!: s_cons_SVal)
    with esc show ?thesis by simp
  next
    case u
    let ?x = "hex4 q" and ?r1 = "drop 4 q"
    have sub: "length r < length ?r1 \<or> length r < length (drop 6 ?r1)"
      using st u 2(1-4) by (auto simp: Let_def split: if_splits option.splits dest!: s_cons_SVal)
    with u show ?thesis by auto
  next
    case raw
    show ?thesis
    proof (cases "rune_len (c # cs) = 0")
      case True
      with st raw 2(6) have "length r < length cs" by (auto simp: Let_def dest!: s_cons_SVal)
      then show ?thesis by simp
    next
      case False
      with st raw obtain b where "json_str (drop (rune_len (c # cs)) (c # cs)) = SVal b r"
        by (auto simp: Let_def dest!: s_cons_SVal)
      with 2(7) [OF raw refl] False have "length r < length (drop (rune_len (c # cs)) (c # cs))" by blast
      then show ?thesis by simp
    qed
  qed (use st in auto)
qed (simp add: json_str.simps)

lemma number_length:
  "number_exp p s = Val v r \<Longrightarrow> length r \<le> length s"
  "number_frac p s = Val v r \<Longrightarrow> length r \<le> length s"
proof -
  have d: "length (dropWhile is_digit t) \<le> length t" for t :: string by (rule length_dropWhile_le)
  show e: "length r \<le> length s" if "number_exp p s = Val v r" for p s v r
  proof -
    have "length (dropWhile is_digit (drop k (tl s))) \<le> length s" for k
      using d [of "drop k (tl s)"] by simp
    from this [of 0] this that show ?thesis by (auto simp: number_exp_def digits_then_def Let_def split: if_splits)
  qed
  show "length r \<le> length s" if "number_frac p s = Val v r"
  proof -
    have "length (dropWhile is_digit (tl s)) \<le> length s" using d [of "tl s"] by simp
    with that e show ?thesis
      by (fastforce simp: number_frac_def digits_then_def Let_def split: if_splits)
  qed
qed

lemma json_scalar_length: "json_scalar s = Val v r \<Longrightarrow> s \<noteq> [] \<Longrightarrow> length r < length s"
proof -
  assume a: "json_scalar s = Val v r" and ne: "s \<noteq> []"
  have word: "json_word w u s = Val v r \<Longrightarrow> w \<noteq> [] \<Longrightarrow> length r < length s" for w u
    using ne by (auto simp: json_word_def split: if_splits)
  have "json_number s = Val v r \<Longrightarrow> length r < length s"
  proof -
    assume n: "json_number s = Val v r"
    define t where "t = (if has_prefix ''-'' s then drop 1 s else s)"
    have "t \<noteq> []" "length t \<le> length s" using n by (auto simp: json_number_def t_def Let_def split: if_splits)
    moreover have "length r < length t"
    proof (cases "hd t = CHR ''0''")
      case True
      then have "\<exists>p. number_frac p (tl t) = Val v r"
        using n \<open>t \<noteq> []\<close> by (auto simp: json_number_def t_def Let_def split: if_splits)
      then show ?thesis using number_length(2) \<open>t \<noteq> []\<close> by (cases t) force+
    next
      case False
      then obtain p where p: "number_frac p (dropWhile is_digit t) = Val v r" "takeWhile is_digit t \<noteq> []"
        using n \<open>t \<noteq> []\<close> by (auto simp: json_number_def t_def Let_def digits_then_def split: if_splits)
      have "length t = length (takeWhile is_digit t) + length (dropWhile is_digit t)"
        by (metis length_append takeWhile_dropWhile_id)
      with p number_length(2) [OF p(1)] show ?thesis by (cases "takeWhile is_digit t") auto
    qed
    ultimately show ?thesis by simp
  qed
  with a word show ?thesis by (fastforce simp: json_scalar_def split: if_splits)
qed

lemma json_length:
  "json_val n d s = Val v r \<Longrightarrow> length r < length s"
  "json_elems n d acc s = Val v r \<Longrightarrow> length r < length s"
  "json_members n d acc2 s = Val v r \<Longrightarrow> length r < length s"
proof (induction n arbitrary: d s acc acc2 v r)
  case (Suc n)
  note [dest!] = skip_ws_Cons
  {
    case 1
    then obtain c cs where c: "skip_ws s = c # cs" by (auto split: list.splits)
    show ?case
    proof (cases "c = CHR ''{'' \<or> c = CHR ''[''")
      case True
      then obtain x xs where x: "skip_ws cs = x # xs" using 1 c by (auto split: list.splits if_splits)
      have "r = xs \<or> length r < length (x # xs)"
        using 1 c x True Suc(2) [of "d - 1" "[]" "x # xs" v r] Suc(3) [of "d - 1" "[]" "x # xs" v r]
        by (auto split: if_splits)
      then show ?thesis using skip_ws_Cons [OF c] skip_ws_Cons [OF x] by auto
    next
      case False
      then have "length r < length (c # cs)"
        using 1 c json_scalar_length [of "c # cs" v r]
        by (auto split: if_splits str_read.splits dest!: json_str_length)
      then show ?thesis using skip_ws_Cons [OF c] by simp
    qed
  next
    case 2
    then obtain v1 r1 x xs where "json_val n d s = Val v1 r1" "skip_ws r1 = x # xs"
      "r = xs \<or> json_elems n d (acc @ [v1]) xs = Val v r"
      by (auto split: json_read.splits list.splits if_splits)
    then show ?case using Suc(1) [of d s v1 r1] Suc(2) [of d "acc @ [v1]" xs v r] skip_ws_Cons [of r1] by fastforce
  next
    case 3
    then obtain q cs k r0 y ys where 1: "skip_ws s = q # cs" "json_str cs = SVal k r0" "skip_ws r0 = y # ys"
      by (auto split: list.splits if_splits str_read.splits)
    with 3 obtain v1 r1 x xs where 2: "json_val n d ys = Val v1 r1" "skip_ws r1 = x # xs"
      "r = xs \<or> json_members n d (acc2 @ [(k, v1)]) xs = Val v r"
      by (auto split: json_read.splits list.splits if_splits)
    show ?case
      using skip_ws_Cons [OF 1(1)] json_str_length [OF 1(2)] skip_ws_Cons [OF 1(3)]
        Suc(1) [OF 2(1)] skip_ws_Cons [OF 2(2)] 2(3) Suc(3) [of d "acc2 @ [(k, v1)]" xs v r] by auto
  }
qed simp_all

text \<open>More fuel than input never changes the result, so the fuel of \<open>json_read_value\<close> is enough.\<close>

lemma json_fuel:
  "2 * length s < n \<Longrightarrow> 2 * length s < m \<Longrightarrow> json_val n d s = json_val m d s"
  "2 * length s + 1 < n \<Longrightarrow> 2 * length s + 1 < m \<Longrightarrow> json_elems n d acc s = json_elems m d acc s"
  "2 * length s + 1 < n \<Longrightarrow> 2 * length s + 1 < m \<Longrightarrow> json_members n d acc2 s = json_members m d acc2 s"
proof (induction n arbitrary: d s acc acc2 m)
  case (Suc n)
  {
    case 1
    then obtain k where m: "m = Suc k" by (cases m) auto
    show ?case
    proof (cases "skip_ws s")
      case c: (Cons c cs)
      show ?thesis
      proof (cases "skip_ws cs")
        case x: (Cons x xs)
        have "2 * length (x # xs) + 1 < n" "2 * length (x # xs) + 1 < k"
          using skip_ws_Cons [OF c] skip_ws_Cons [OF x] 1 m by simp_all
        note em = Suc(2) [OF this, of "d - 1" "[]"] Suc(3) [OF this, of "d - 1" "[]"]
        show ?thesis unfolding m json_val.simps c x list.case em ..
      qed (simp add: m c)
    qed (simp add: m)
  next
    case 2
    then obtain k where m: "m = Suc k" by (cases m) auto
    have v: "json_val n d s = json_val k d s" using 2 m Suc(1) [of s k] by simp
    show ?case
    proof (cases "json_val k d s")
      case r: (Val v1 r1)
      show ?thesis
      proof (cases "skip_ws r1")
        case x: (Cons x xs)
        have "2 * length xs + 1 < n" "2 * length xs + 1 < k"
          using json_length(1) [OF r] skip_ws_Cons [OF x] 2 m by simp_all
        from Suc(2) [OF this] show ?thesis using v r x by (simp add: m)
      qed (simp add: m v r)
    qed (simp_all add: m v)
  next
    case 3
    then obtain k where m: "m = Suc k" by (cases m) auto
    show ?case
    proof (cases "skip_ws s")
      case q: (Cons q cs)
      show ?thesis
      proof (cases "json_str cs")
        case t: (SVal t r0)
        show ?thesis
        proof (cases "skip_ws r0")
          case y: (Cons y ys)
          note l = skip_ws_Cons [OF q] json_str_length [OF t] skip_ws_Cons [OF y]
          have v: "json_val n d ys = json_val k d ys" using l 3 m Suc(1) [of ys k] by simp
          show ?thesis
          proof (cases "json_val k d ys")
            case r: (Val v1 r1)
            show ?thesis
            proof (cases "skip_ws r1")
              case x: (Cons x xs)
              have "2 * length xs + 1 < n" "2 * length xs + 1 < k"
                using l json_length(1) [OF r] skip_ws_Cons [OF x] 3 m by simp_all
              from Suc(3) [OF this] show ?thesis using q t y v r x by (simp add: m)
            qed (simp add: m q t y v r)
          qed (simp_all add: m q t y v)
        qed (simp add: m q t)
      qed (simp_all add: m q)
    qed (simp add: m)
  }
qed simp_all

lemma json_read_value_length: "json_read_value s = Val v r \<Longrightarrow> length r < length s"
  by (rule json_length(1)) (simp only: json_read_value_def)

lemma json_read_value_fuel: "2 * length s < n \<Longrightarrow> json_val n max_nesting s = json_read_value s"
  unfolding json_read_value_def by (rule json_fuel(1)) simp_all

end
