(* ===== verification/Caddy.thy ===== *)
theory Caddy
  imports Config Regex Json
begin

text \<open>
  Package \<open>internal/caddy\<close>: the reload through Caddy's Admin API and its read-back (\<open>admin.go\<close>).
  The Admin API is a service outside the repository: \<open>net\<close> gives what a request sent at a tick
  returns, an arbitrary answer of an arbitrary server. \<open>url_parse\<close> stands for \<open>url.Parse\<close> (scheme,
  host, whether there is user information; \<open>None\<close> is an error); no property assumes anything of
  it. The requests sent are recorded.
\<close>

subsection \<open>State\<close>

record readback_state =
  rb_ok :: bool
  rb_checked_at :: gotime
  rb_servers :: int
  rb_missing :: "string list"
  rb_err :: "gerr option"

record http_request =
  rq_method :: string
  rq_url :: string
  rq_content_type :: string
  rq_body :: string

record http_response =
  rs_status_code :: int
  rs_status :: string
  rs_body :: string

record world = proc +
  net :: "nat \<Rightarrow> http_request \<Rightarrow> string + http_response"
  url_parse :: "string \<Rightarrow> (string \<times> string \<times> bool) option"
  sent :: "http_request list"
  last_readback :: readback_state

definition set_readback :: "readback_state \<Rightarrow> ('a) world_scheme \<Rightarrow> ('a) world_scheme" where
  "set_readback s w = w\<lparr>last_readback := s\<rparr>"

text \<open>\<open>client.Do\<close>, without redirects: the server's first answer, or a transport error.\<close>

definition http_do :: "http_request \<Rightarrow> ('a) world_scheme \<Rightarrow> (string + http_response) \<times> ('a) world_scheme" where
  "http_do rq w = (net w (tick w) rq, tock (w\<lparr>sent := sent w @ [rq]\<rparr>))"

text \<open>\<open>io.LimitReader\<close> of 16 MiB: the decoder sees at most that many bytes.\<close>

definition limit_read :: "string \<Rightarrow> string" where
  "limit_read s = (if length s \<le> 16 * 1024 * 1024 then s else take (16 * 1024 * 1024) s)"

subsection \<open>Expected hosts\<close>

definition host_byte_re :: "char \<Rightarrow> bool" where
  "host_byte_re c \<longleftrightarrow> is_lower c \<or> is_upper c \<or> is_digit c \<or> c \<in> set ''*.-''"

definition host_re :: re where
  "host_re = Seq (plus host_byte_re) (opt (Seq (lit '':'') (plus is_digit)))"

definition site_host_re :: re where
  "site_host_re =
     seqs [BeginLine, Star (Chr re_space),
           Cap 1 (Seq host_re (Star (seqs [Star (Chr re_space), lit '','', Star (Chr re_space), host_re]))),
           Star (Chr re_space), lit ''{'']"

definition looks_like_host :: "string \<Rightarrow> bool" where
  "looks_like_host h \<longleftrightarrow> str_contains h ''.'' \<or> str_contains h '':'' \<or> h = ''localhost''"

text \<open>The inner loop of \<open>expectedHosts\<close>; the hosts found so far are also the set \<open>seen\<close>.\<close>

fun add_hosts :: "string list \<Rightarrow> string list \<Rightarrow> string list" where
  "add_hosts hosts [] = hosts"
| "add_hosts hosts (part # parts) =
     (let h = trim_space part in
      if h = [] \<or> has_prefix '':'' h \<or> h \<in> set hosts \<or> \<not> looks_like_host h
      then add_hosts hosts parts
      else add_hosts (hosts @ [h]) parts)"

definition expected_hosts :: "string \<Rightarrow> string list" where
  "expected_hosts caddyfile =
     foldl (\<lambda>hosts m. add_hosts hosts (split_on CHR '','' (group 1 m))) []
       (find_all site_host_re [] caddyfile)"

subsection \<open>Admin URL and live hosts\<close>

definition validate_admin_url :: "(string \<Rightarrow> (string \<times> string \<times> bool) option) \<Rightarrow> string \<Rightarrow> gerr option" where
  "validate_admin_url up raw =
     (case up raw of
        None \<Rightarrow> Some (Errorf ''invalid CADDY_ADMIN_URL: %w'' [raw] [] None)
      | Some (scheme, host, user) \<Rightarrow>
          if scheme \<noteq> ''http'' \<and> scheme \<noteq> ''https''
          then Some (Errorf ''CADDY_ADMIN_URL: scheme must be http or https, got %q'' [scheme] [] None)
          else if host = [] then Some (Errorf ''CADDY_ADMIN_URL: host must not be empty'' [] [] None)
          else if user then Some (Errorf ''CADDY_ADMIN_URL: userinfo is not allowed'' [] [] None)
          else None)"

fun json_strings :: "json list \<Rightarrow> string list" where
  "json_strings [] = []"
| "json_strings (JStr s # xs) = s # json_strings xs"
| "json_strings (_ # xs) = json_strings xs"

text \<open>
  \<open>collectHosts\<close>. Go ranges over a map in any order; the model takes the order of the list, and
  the lemmas show that only the set of hosts is observed.
\<close>

fun collect_hosts :: "json \<Rightarrow> string list" where
  "collect_hosts (JObj kvs) =
     (case map_of kvs ''host'' of Some (JArr arr) \<Rightarrow> json_strings arr | _ \<Rightarrow> []) @
     concat (map (\<lambda>kv. collect_hosts (snd kv)) kvs)"
| "collect_hosts (JArr xs) = concat (map collect_hosts xs)"
| "collect_hosts _ = []"

definition fetch_live_hosts :: "string \<Rightarrow> ('a) world_scheme \<Rightarrow> (gerr + string list \<times> int) \<times> ('a) world_scheme" where
  "fetch_live_hosts url w =
     (case validate_admin_url (url_parse w) url of
        Some e \<Rightarrow> (Inl e, w)
      | None \<Rightarrow>
          (let u = url @ ''/config/apps/http/servers'' in
           if url_parse w u = None then (Inl (Errorf ''parse %q'' [u] [] None), w)
           else (case http_do \<lparr>rq_method = ''GET'', rq_url = u, rq_content_type = [], rq_body = []\<rparr> w of
               (Inl e, w1) \<Rightarrow> (Inl (Errorf ''Get %q: %w'' [u, e] [] None), w1)
             | (Inr rs, w1) \<Rightarrow>
                 if rs_status_code rs \<noteq> 200
                 then (Inl (Errorf ''GET /config/apps/http/servers returned %s'' [rs_status rs] [] None), w1)
                 else (case json_decode (limit_read (rs_body rs)) of
                     None \<Rightarrow> (Inl (Errorf ''unparseable /config response: %w'' [] [] None), w1)
                   | Some cfg \<Rightarrow>
                       (Inr (collect_hosts cfg,
                             case cfg of JObj kvs \<Rightarrow> int (length kvs) | _ \<Rightarrow> 0), w1)))))"

subsection \<open>Reload\<close>

definition failed_readback :: "int \<Rightarrow> string list \<Rightarrow> gerr \<Rightarrow> ('a) world_scheme \<Rightarrow> ('a) world_scheme" where
  "failed_readback servers missing_hosts e w =
     (let (now, w1) = time_now w
      in set_readback \<lparr>rb_ok = False, rb_checked_at = utc now, rb_servers = servers,
           rb_missing = missing_hosts, rb_err = Some e\<rparr> w1)"

definition reload :: "('a) world_scheme \<Rightarrow> (gerr + unit) \<times> ('a) world_scheme" where
  "reload w =
     (let url = admin_url (env w) in
      case validate_admin_url (url_parse w) url of
        Some e \<Rightarrow> (Inl e, failed_readback 0 [] e w)
      | None \<Rightarrow>
          (let cpath = caddyfile_path (env w) in
           case os_read_file cpath w of
             (Inl e, w1) \<Rightarrow>
               (Inl (Errorf ''could not read Caddyfile %q: %w'' [cpath] [] (Some (OsErr e))),
                failed_readback 0 [] (OsErr e) w1)
           | (Inr caddyfile, w1) \<Rightarrow>
               (let u = url @ ''/load'' in
                if url_parse w1 u = None
                then (let e = Errorf ''parse %q'' [u] [] None in
                      (Inl (Errorf ''error creating reload request: %w'' [] [] (Some e)),
                       failed_readback 0 [] e w1))
                else (case http_do \<lparr>rq_method = ''POST'', rq_url = u,
                                    rq_content_type = ''text/caddyfile'', rq_body = caddyfile\<rparr> w1 of
                    (Inl t, w2) \<Rightarrow>
                      (let e = Errorf ''Post %q: %w'' [u, t] [] None in
                       (Inl (Errorf ''error performing reload in Caddy: %w'' [] [] (Some e)),
                        failed_readback 0 [] e w2))
                  | (Inr rs, w2) \<Rightarrow>
                      if rs_status_code rs \<noteq> 200
                      then (let e = Errorf ''caddy POST /load failed with HTTP %d: %s''
                                      [itoa (rs_status_code rs), rs_body rs] [] None
                            in (Inl e, failed_readback 0 [] e w2))
                      else (case fetch_live_hosts url w2 of
                          (Inl e, w3) \<Rightarrow>
                            (Inl (Errorf ''post-reload verification failed: %w'' [] [] (Some e)),
                             failed_readback 0 [] e w3)
                        | (Inr (live, servers), w3) \<Rightarrow>
                            (let missing_hosts = filter (\<lambda>h. h \<notin> set live) (expected_hosts caddyfile)
                             in if missing_hosts \<noteq> []
                                then (let e = Errorf ''read-back: hosts not found in the live config: %s''
                                                [join '', '' missing_hosts] [] None
                                      in (Inl e, failed_readback servers missing_hosts e w3))
                                else (let (now, w4) = time_now w3
                                      in (Inr (), set_readback \<lparr>rb_ok = True, rb_checked_at = utc now,
                                            rb_servers = servers, rb_missing = [], rb_err = None\<rparr> w4))))))))"

subsection \<open>Lemmas\<close>

text \<open>What a reload leaves alone: files, settings and the audit log.\<close>

definition same_disk :: "('a) world_scheme \<Rightarrow> ('a) world_scheme \<Rightarrow> bool" where
  "same_disk w w' \<longleftrightarrow> tree w' = tree w \<and> cwd w' = cwd w \<and> env w' = env w \<and> ulower w' = ulower w
     \<and> fault w' = fault w \<and> clock w' = clock w \<and> slog w' = slog w \<and> url_parse w' = url_parse w
     \<and> net w' = net w \<and> world.more w' = world.more w"

lemma same_disk_refl [simp]: "same_disk w w"
  by (simp add: same_disk_def)

lemma same_disk_trans: "same_disk w w' \<Longrightarrow> same_disk w' w'' \<Longrightarrow> same_disk w w''"
  by (simp add: same_disk_def)

lemma world_tock [simp]:
  "net (tock w) = net w" "url_parse (tock w) = url_parse w"
  "sent (tock w) = sent w" "last_readback (tock w) = last_readback w"
  by (simp_all add: tock_def)

lemma more_tock [simp]: "world.more (tock w) = world.more w"
  by (simp add: tock_def)

lemma same_disk_tock [simp]: "same_disk w (tock w') = same_disk w w'"
  "same_disk (tock w) w' = same_disk w w'"
  by (simp_all add: same_disk_def)

lemma same_disk_readback [simp]: "same_disk w (failed_readback n m e w') = same_disk w w'"
  "same_disk w (set_readback s w') = same_disk w w'"
  by (simp_all add: failed_readback_def set_readback_def time_now_def same_disk_def)

lemma failed_readback_not_ok [simp]: "\<not> rb_ok (last_readback (failed_readback n m e w))"
  by (simp add: failed_readback_def set_readback_def time_now_def)

lemma failed_readback_sent [simp]: "sent (failed_readback n m e w) = sent w"
  by (simp add: failed_readback_def set_readback_def time_now_def)

lemma http_do_disk: "http_do rq w = (r, w') \<Longrightarrow> same_disk w w' \<and> sent w' = sent w @ [rq]"
  by (auto simp: http_do_def same_disk_def)

lemma fetch_live_hosts_disk: "fetch_live_hosts url w = (r, w') \<Longrightarrow> same_disk w w'"
  by (auto simp: fetch_live_hosts_def Let_def dest: http_do_disk
      split: option.splits prod.splits sum.splits if_splits)

lemmas reload_disk_dests = os_read_file_pair http_do_disk fetch_live_hosts_disk

lemma reload_disk: "reload w = (r, w') \<Longrightarrow> same_disk w w'"
  by (auto simp: reload_def Let_def time_now_def split: option.splits prod.splits sum.splits if_splits
      dest!: reload_disk_dests intro: same_disk_trans)

lemma fetch_live_hosts_Inr:
  assumes "fetch_live_hosts url w = (Inr (live, n), w')"
  shows "\<exists>rs cfg. net w (tick w) \<lparr>rq_method = ''GET'', rq_url = url @ ''/config/apps/http/servers'',
        rq_content_type = [], rq_body = []\<rparr> = Inr rs
    \<and> rs_status_code rs = 200 \<and> json_decode (limit_read (rs_body rs)) = Some cfg
    \<and> live = collect_hosts cfg"
  using assms
  by (auto simp: fetch_live_hosts_def Let_def http_do_def
      split: option.splits prod.splits sum.splits if_splits)

lemma reload_readback:
  assumes "reload w = (r, w')"
  shows "rb_ok (last_readback w') \<longleftrightarrow> r = Inr ()"
  using assms
  by (auto simp: reload_def Let_def time_now_def set_readback_def
      split: option.splits prod.splits sum.splits if_splits)

lemma reload_missing: "reload w = (Inr u, w') \<Longrightarrow> rb_missing (last_readback w') = []"
  by (auto simp: reload_def Let_def time_now_def set_readback_def
      split: option.splits prod.splits sum.splits if_splits)

text \<open>A reload that succeeds has sent the Caddyfile, was answered 200, and saw every host live.\<close>

lemma reload_Inr:
  assumes "reload w = (Inr u, w')"
  shows "\<exists>caddyfile m rs rs' cfg.
    node_at w (resolve (cwd w) (caddyfile_path (env w))) = Some (Reg caddyfile m)
    \<and> net w (tick w + 1) \<lparr>rq_method = ''POST'', rq_url = admin_url (env w) @ ''/load'',
        rq_content_type = ''text/caddyfile'', rq_body = caddyfile\<rparr> = Inr rs \<and> rs_status_code rs = 200
    \<and> net w (tick w + 2) \<lparr>rq_method = ''GET'', rq_url = admin_url (env w) @ ''/config/apps/http/servers'',
        rq_content_type = [], rq_body = []\<rparr> = Inr rs' \<and> rs_status_code rs' = 200
    \<and> json_decode (limit_read (rs_body rs')) = Some cfg
    \<and> set (expected_hosts caddyfile) \<subseteq> set (collect_hosts cfg)"
proof -
  obtain caddyfile w1 rs w2 live n w3 where
    1: "os_read_file (caddyfile_path (env w)) w = (Inr caddyfile, w1)"
    and 2: "http_do \<lparr>rq_method = ''POST'', rq_url = admin_url (env w) @ ''/load'',
        rq_content_type = ''text/caddyfile'', rq_body = caddyfile\<rparr> w1 = (Inr rs, w2)"
    and 3: "rs_status_code rs = 200" "fetch_live_hosts (admin_url (env w)) w2 = (Inr (live, n), w3)"
    and 4: "filter (\<lambda>h. h \<notin> set live) (expected_hosts caddyfile) = []"
    using assms by (auto simp: reload_def Let_def split: option.splits prod.splits sum.splits if_splits)
  have w1: "w1 = tock w" using os_read_file_pair [OF 1] .
  have w2: "w2 = tock (w1\<lparr>sent := sent w1 @ [\<lparr>rq_method = ''POST'', rq_url = admin_url (env w) @ ''/load'',
      rq_content_type = ''text/caddyfile'', rq_body = caddyfile\<rparr>]\<rparr>)"
    and post: "net w (tick w + 1) \<lparr>rq_method = ''POST'', rq_url = admin_url (env w) @ ''/load'',
        rq_content_type = ''text/caddyfile'', rq_body = caddyfile\<rparr> = Inr rs"
    using 2 by (auto simp: http_do_def w1)
  have "tick w2 = tick w + 2" "net w2 = net w"
    by (simp_all add: w2 w1)
  with fetch_live_hosts_Inr [OF 3(2)] obtain rs' cfg where
    "net w (tick w + 2) \<lparr>rq_method = ''GET'', rq_url = admin_url (env w) @ ''/config/apps/http/servers'',
        rq_content_type = [], rq_body = []\<rparr> = Inr rs'" "rs_status_code rs' = 200"
    "json_decode (limit_read (rs_body rs')) = Some cfg" "live = collect_hosts cfg" by auto
  moreover have "set (expected_hosts caddyfile) \<subseteq> set live" using 4 by (auto simp: filter_empty_conv)
  ultimately show ?thesis using os_read_file_Inr [OF 1] post 3(1) by auto
qed

definition hosts_ok :: "string list \<Rightarrow> bool" where
  "hosts_ok hs \<longleftrightarrow> distinct hs \<and> (\<forall>h \<in> set hs. h \<noteq> [] \<and> looks_like_host h)"

lemma hosts_ok_snoc:
  "hosts_ok hs \<Longrightarrow> h \<noteq> [] \<Longrightarrow> h \<notin> set hs \<Longrightarrow> looks_like_host h \<Longrightarrow> hosts_ok (hs @ [h])"
  by (auto simp: hosts_ok_def)

lemma add_hosts_inv: "hosts_ok hosts \<Longrightarrow> hosts_ok (add_hosts hosts parts)"
  by (induction hosts parts rule: add_hosts.induct) (simp add: Let_def hosts_ok_snoc)+

lemma expected_hosts_inv: "hosts_ok (expected_hosts c)"
proof -
  have "hosts_ok (foldl (\<lambda>hosts m. add_hosts hosts (f m)) hs ms)" if "hosts_ok hs"
    for hs ms and f :: "caps \<Rightarrow> string list"
    using that by (induction ms arbitrary: hs) (simp_all add: add_hosts_inv)
  from this [of "[]"] show ?thesis by (simp add: expected_hosts_def hosts_ok_def)
qed

text \<open>The hosts found are those of a \<open>host\<close> list at any depth, whatever the order of the keys.\<close>

inductive live_host :: "json \<Rightarrow> string \<Rightarrow> bool" where
  here: "map_of kvs ''host'' = Some (JArr arr) \<Longrightarrow> JStr h \<in> set arr \<Longrightarrow> live_host (JObj kvs) h"
| in_obj: "(k, v) \<in> set kvs \<Longrightarrow> live_host v h \<Longrightarrow> live_host (JObj kvs) h"
| in_arr: "v \<in> set xs \<Longrightarrow> live_host v h \<Longrightarrow> live_host (JArr xs) h"

lemma set_json_strings: "set (json_strings xs) = {s. JStr s \<in> set xs}"
  by (induction xs rule: json_strings.induct) auto

lemma collect_hosts_live: "h \<in> set (collect_hosts v) \<Longrightarrow> live_host v h"
proof (induction v rule: collect_hosts.induct)
  case (1 kvs)
  then consider arr where "map_of kvs ''host'' = Some (JArr arr)" "JStr h \<in> set arr"
    | k v where "(k, v) \<in> set kvs" "h \<in> set (collect_hosts v)"
    by (auto simp: set_json_strings split: option.splits json.splits) metis
  then show ?case using 1 by cases (auto intro: live_host.intros)
qed (auto intro: live_host.intros)

lemma live_host_collect: "live_host v h \<Longrightarrow> h \<in> set (collect_hosts v)"
  by (induction rule: live_host.induct) (force simp: set_json_strings)+

end
