(* ===== verification/Domain.thy ===== *)
theory Domain
  imports Config
begin

text \<open>
  Package \<open>internal/domain\<close>: the site model (\<open>model.go\<close>), the file-name slug of a domain
  (\<open>slug.go\<close>), the overlay header with its writer and reader (\<open>overlay.go\<close>) and the scanner that
  discovers the sites from the managed directory (\<open>scanner.go\<close>). The parameter \<open>L\<close> is the Unicode
  lower-case mapping of \<open>strings.ToLower\<close> on strings that are not ASCII.
\<close>

subsection \<open>Model\<close>

definition mode_detection_only :: string where "mode_detection_only = ''DetectionOnly''"
definition mode_on :: string where "mode_on = ''On''"
definition mode_off :: string where "mode_off = ''Off''"

lemmas mode_defs = mode_detection_only_def mode_on_def mode_off_def

record site =
  site_domain :: string
  site_mode :: string
  site_updated :: gotime
  site_degraded :: bool

subsection \<open>Slug\<close>

text \<open>The replacer of \<open>DomainSlug\<close>: its three old strings are single bytes.\<close>

definition slug_replace :: "char \<Rightarrow> string" where
  "slug_replace c =
     (if c = CHR ''.'' then ''_''
      else if c = CHR ''*'' then ''wildcard''
      else if c = CHR ''-'' then ''_''
      else [c])"

definition slug_byte :: "char \<Rightarrow> char" where
  "slug_byte c = (if is_lower c \<or> is_digit c then c else CHR ''_'')"

definition domain_slug :: "(string \<Rightarrow> string) \<Rightarrow> string \<Rightarrow> string" where
  "domain_slug L d = map slug_byte (concat (map slug_replace (to_lower L d)))"

subsection \<open>Overlay header\<close>

definition header_prefix :: string where "header_prefix = ''# domain:''"

record overlay_header =
  h_domain :: string
  h_mode :: string
  h_updated :: gotime
  h_has_mode :: bool
  h_has_updated :: bool
  h_updated_raw :: string

definition header :: "string \<Rightarrow> string \<Rightarrow> gotime \<Rightarrow> string" where
  "header d md t =
     (let ts = format_rfc3339 (utc t) in
      if md = [] then header_prefix @ '' '' @ d @ '' | updated: '' @ ts
      else header_prefix @ '' '' @ d @ '' | mode: '' @ md @ '' | updated: '' @ ts)"

text \<open>One turn of the loop of \<open>ParseHeader\<close> over the segments after the domain.\<close>

definition header_segment :: "(string \<Rightarrow> string) \<Rightarrow> overlay_header \<Rightarrow> string \<Rightarrow> overlay_header" where
  "header_segment L h part =
     (let (key, val, ok) = cut CHR '':'' (trim_space part) in
      if \<not> ok then h
      else (let k = to_lower L (trim_space key) in
        if k = ''mode'' then h\<lparr>h_mode := trim_space val, h_has_mode := True\<rparr>
        else if k = ''updated'' then
          (let raw = trim_space val; h' = h\<lparr>h_updated_raw := raw\<rparr> in
           case parse_rfc3339 raw of
             Some ts \<Rightarrow> h'\<lparr>h_updated := ts, h_has_updated := True\<rparr>
           | None \<Rightarrow> h')
        else h))"

definition parse_header :: "(string \<Rightarrow> string) \<Rightarrow> string \<Rightarrow> gerr + overlay_header" where
  "parse_header L line0 =
     (let line = trim_space line0 in
      if \<not> has_prefix header_prefix line then Inl (Errorf ''header %q not found'' [header_prefix] [] None)
      else
        (let rest = trim_space (drop (length header_prefix) line);
             (domain_part, remaining, _) = cut CHR ''|'' rest;
             h = \<lparr>h_domain = trim_space domain_part, h_mode = [], h_updated = zero_time,
                  h_has_mode = False, h_has_updated = False, h_updated_raw = []\<rparr>
         in if h_domain h = [] then Inl (Errorf ''header without domain'' [] [] None)
            else Inr (foldl (header_segment L) h (split_on CHR ''|'' remaining))))"

subsection \<open>Scanner\<close>

definition header_line :: "string \<Rightarrow> string" where
  "header_line text =
     (case find (has_prefix header_prefix) (map trim_space (split_on nl text)) of
        None \<Rightarrow> [] | Some l \<Rightarrow> l)"

definition parse_site_header ::
  "string \<Rightarrow> string \<Rightarrow> ('a) proc_scheme \<Rightarrow> (gerr + site) \<times> ('a) proc_scheme" where
  "parse_site_header pth name w =
     (case os_read_file pth w of
        (Inl e, w1) \<Rightarrow> (Inl (Errorf ''error reading overlay: %w'' [] [] (Some (OsErr e))), w1)
      | (Inr text, w1) \<Rightarrow>
          (let hl = header_line text in
           if hl = [] then (Inl (Errorf ''header '# domain:' not found'' [] [] None), w1)
           else (case parse_header (ulower w) hl of
               Inl e \<Rightarrow> (Inl e, w1)
             | Inr info \<Rightarrow>
                 (let st = \<lparr>site_domain = h_domain info, site_mode = mode_detection_only,
                            site_updated = zero_time, site_degraded = False\<rparr>;
                      (st1, w2) =
                        (if \<not> h_has_mode info then (st\<lparr>site_mode := mode_detection_only\<rparr>, w1)
                         else if h_mode info \<in> {mode_on, mode_off, mode_detection_only}
                         then (st\<lparr>site_mode := h_mode info\<rparr>, w1)
                         else (st\<lparr>site_degraded := True\<rparr>,
                               log_append (Warn ''unknown mode in header'' [name, h_mode info]) w1));
                      (st2, w3) =
                        (if h_has_updated info then (st1\<lparr>site_updated := h_updated info\<rparr>, w2)
                         else if h_updated_raw info \<noteq> []
                         then (st1, log_append (Warn ''invalid 'updated' timestamp in header''
                                 [name, h_updated_raw info]) w2)
                         else (st1, w2))
                  in (Inr st2, w3)))))"

text \<open>The loop of \<open>Scan\<close> over the directory's entries.\<close>

fun scan_entries ::
  "string \<Rightarrow> dir \<Rightarrow> ('a) proc_scheme \<Rightarrow> site list \<times> ('a) proc_scheme" where
  "scan_entries d [] w = ([], w)"
| "scan_entries d ((name, x) # es) w =
     (if x = SubDir then scan_entries d es w
      else if \<not> has_prefix ''waf-'' name \<or> \<not> has_suffix ''.conf'' name then scan_entries d es w
      else (case parse_site_header (filepath_join [d, name]) name w of
          (Inl e, w1) \<Rightarrow>
            scan_entries d es (log_append (Warn ''overlay without a valid header, skipped'' [name]) w1)
        | (Inr st, w1) \<Rightarrow>
            (let (sts, w2) = scan_entries d es w1 in (st # sts, w2))))"

definition scan :: "string \<Rightarrow> ('a) proc_scheme \<Rightarrow> (gerr + site list) \<times> ('a) proc_scheme" where
  "scan d w =
     (case os_read_dir d w of
        (Inl e, w1) \<Rightarrow> (if is_not_exist e then (Inr [], w1) else (Inl (OsErr e), w1))
      | (Inr es, w1) \<Rightarrow> (let (sts, w2) = scan_entries d es w1 in (Inr sts, w2)))"

subsection \<open>Lemmas: slug\<close>

definition slug_ok :: "string \<Rightarrow> bool" where
  "slug_ok s \<longleftrightarrow> (\<forall>c \<in> set s. is_lower c \<or> is_digit c \<or> c = CHR ''_'')"

lemma slug_ok_domain_slug [simp]: "slug_ok (domain_slug L d)"
  by (auto simp: slug_ok_def domain_slug_def slug_byte_def)

lemma slug_ok_no_slash: "slug_ok s \<Longrightarrow> CHR ''/'' \<notin> set s \<and> CHR ''.'' \<notin> set s \<and> nl \<notin> set s"
  by (auto simp: slug_ok_def char_class_defs less_eq_char_def)

lemma domain_slug_not_Nil: "d \<noteq> [] \<Longrightarrow> \<forall>c \<in> set d. is_ascii c \<Longrightarrow> domain_slug L d \<noteq> []"
  by (cases d) (auto simp: domain_slug_def to_lower_def slug_replace_def)

lemma slug_name_ok:
  assumes "slug_ok s" "s \<noteq> []"
  shows "name_ok s"
proof -
  have "CHR ''.'' \<notin> set s" "CHR ''/'' \<notin> set s" using slug_ok_no_slash [OF assms(1)] by auto
  moreover have "s \<noteq> ''.''" "s \<noteq> ''..''" using \<open>CHR ''.'' \<notin> set s\<close> by auto
  ultimately show ?thesis using assms(2) by (simp add: name_ok_def)
qed

subsection \<open>Lemmas: header\<close>

definition stamp_char :: "char \<Rightarrow> bool" where
  "stamp_char c \<longleftrightarrow> is_digit c \<or> c \<in> set ''-:TZ+''"

lemma stamp_char_graph [simp]: "stamp_char c \<Longrightarrow> is_graph c"
  by (auto simp: stamp_char_def char_class_defs less_eq_char_def)

lemma stamp_char_lits [simp]:
  "stamp_char CHR ''0''" "stamp_char CHR ''-''" "stamp_char CHR '':''" "stamp_char CHR ''T''"
  "stamp_char CHR ''Z''" "stamp_char CHR ''+''"
  by (simp_all add: stamp_char_def is_digit_def less_eq_char_def)

lemma pad_int_chars [simp]: "list_all stamp_char (pad_int k x)"
proof -
  have "list_all stamp_char (nat_digits n)" for n
    by (auto simp: list_all_iff stamp_char_def dest: nat_digits_digit)
  moreover have "list_all stamp_char (replicate n CHR ''0'')" for n
    by (simp add: list_all_length)
  ultimately show ?thesis by (simp add: pad_int_def Let_def)
qed

lemma format_zone_chars [simp]: "list_all stamp_char (format_zone z)"
  by (simp add: format_zone_def Let_def)

lemma format_rfc3339_chars: "c \<in> set (format_rfc3339 t) \<Longrightarrow> stamp_char c"
proof -
  have "list_all stamp_char (format_rfc3339 t)"
    by (simp add: format_rfc3339_def Let_def split: prod.split)
  then show "c \<in> set (format_rfc3339 t) \<Longrightarrow> stamp_char c" by (simp add: list_all_iff)
qed

lemma format_rfc3339_not_Nil [simp]: "format_rfc3339 t \<noteq> []"
  by (auto simp: format_rfc3339_def Let_def split: prod.splits)

text \<open>A value that survives a trip through a header segment.\<close>

definition field_ok :: "string \<Rightarrow> bool" where
  "field_ok s \<longleftrightarrow> starts_tight s \<and> ends_tight s \<and> CHR ''|'' \<notin> set s"

lemma field_okI [wf_intros]: "s \<noteq> [] \<Longrightarrow> \<forall>c \<in> set s. is_graph c \<and> c \<noteq> CHR ''|'' \<Longrightarrow> field_ok s"
  by (auto simp: field_ok_def tight_all_graph)

lemma field_ok_stamp [simp]: "field_ok (format_rfc3339 t)"
proof (rule field_okI)
  have "c \<noteq> CHR ''|''" if "stamp_char c" for c
    using that by (auto simp: stamp_char_def is_digit_def less_eq_char_def)
  then show "\<forall>c \<in> set (format_rfc3339 t). is_graph c \<and> c \<noteq> CHR ''|''"
    using format_rfc3339_chars by auto
qed simp

lemma field_ok_trim [simp]:
  assumes "field_ok s"
  shows "trim_space s = s" "trim_space (CHR '' '' # s) = s" "trim_space (s @ '' '') = s"
    "trim_space (CHR '' '' # s @ '' '') = s"
  using assms by (auto simp: field_ok_def trim_space_trail)

lemma field_ok_notin: "field_ok s \<Longrightarrow> CHR ''|'' \<notin> set s"
  by (simp add: field_ok_def)

lemma header_segment_mode:
  assumes "field_ok m"
  shows "header_segment L h ('' mode: '' @ m @ '' '') = h\<lparr>h_mode := m, h_has_mode := True\<rparr>"
proof -
  have t: "starts_tight (''mode: '' @ m)" "ends_tight (''mode: '' @ m)"
    using assms by (auto simp: field_ok_def starts_tight_def ends_tight_def is_graph_def less_eq_char_def)
  have "trim_space ((''mode: '' @ m) @ '' '') = ''mode: '' @ m"
    using trim_space_trail [OF t(1)] t by simp
  then have "trim_space ('' mode: '' @ m @ '' '') = ''mode'' @ CHR '':'' # CHR '' '' # m" by simp
  moreover have "cut CHR '':'' (''mode'' @ CHR '':'' # CHR '' '' # m) = (''mode'', CHR '' '' # m, True)"
    by (rule cut_found) simp
  moreover have "trim_space ''mode'' = ''mode''"
    by (intro trim_space_tight) (auto simp: starts_tight_def ends_tight_def is_graph_def less_eq_char_def)
  moreover have "to_lower L ''mode'' = ''mode''"
    by (simp add: to_lower_def is_ascii_def lower_byte_def is_upper_def less_eq_char_def less_char_def)
  ultimately show ?thesis using assms by (simp add: header_segment_def Let_def)
qed

lemma header_segment_updated:
  assumes "field_ok u"
  shows "header_segment L h ('' updated: '' @ u) =
    (case parse_rfc3339 u of
       Some ts \<Rightarrow> h\<lparr>h_updated_raw := u, h_updated := ts, h_has_updated := True\<rparr>
     | None \<Rightarrow> h\<lparr>h_updated_raw := u\<rparr>)"
proof -
  have "trim_space ('' updated: '' @ u) = ''updated: '' @ u"
    using assms
    by (simp add: field_ok_def starts_tight_def ends_tight_def is_graph_def less_eq_char_def)
  then have "trim_space ('' updated: '' @ u) = ''updated'' @ CHR '':'' # CHR '' '' # u" by simp
  moreover have "cut CHR '':'' (''updated'' @ CHR '':'' # CHR '' '' # u) = (''updated'', CHR '' '' # u, True)"
    by (rule cut_found) simp
  moreover have "trim_space ''updated'' = ''updated''"
    by (intro trim_space_tight) (auto simp: starts_tight_def ends_tight_def is_graph_def less_eq_char_def)
  moreover have "to_lower L ''updated'' = ''updated''"
    by (simp add: to_lower_def is_ascii_def lower_byte_def is_upper_def less_eq_char_def less_char_def)
  ultimately show ?thesis using assms by (simp add: header_segment_def Let_def split: option.split)
qed

text \<open>The first segment of a header line: its domain, and the segments that follow.\<close>

lemma parse_header_domain:
  assumes "field_ok d" "ends_tight r"
  shows "parse_header L (header_prefix @ '' '' @ d @ '' |'' @ r) =
    Inr (foldl (header_segment L)
      \<lparr>h_domain = d, h_mode = [], h_updated = zero_time, h_has_mode = False,
       h_has_updated = False, h_updated_raw = []\<rparr> (split_on CHR ''|'' r))"
proof -
  have pre: "starts_tight (header_prefix @ x)" for x
    by (simp add: header_prefix_def starts_tight_def is_graph_def less_eq_char_def)
  have e: "ends_tight (d @ '' |'' @ r)" "ends_tight (header_prefix @ '' '' @ d @ '' |'' @ r)"
    using assms(2) by (auto simp: ends_tight_def)
  have l: "trim_space (header_prefix @ '' '' @ d @ '' |'' @ r) = header_prefix @ '' '' @ d @ '' |'' @ r"
    using pre e(2) by (rule trim_space_tight)
  have dr: "trim_space (d @ '' |'' @ r) = d @ '' |'' @ r"
    using assms(1) e(1) by (intro trim_space_tight) (auto simp: field_ok_def starts_tight_def)
  have c: "cut CHR ''|'' (d @ '' |'' @ r) = (d @ '' '', r, True)"
    using cut_found [of "CHR ''|''" "d @ '' ''" r] field_ok_notin [OF assms(1)] by simp
  have "d \<noteq> []" using assms(1) by (auto simp: field_ok_def starts_tight_def)
  with assms(1) l dr c show ?thesis
    by (simp add: parse_header_def Let_def)
qed

text \<open>What a reader gets from a header line that \<open>header\<close> wrote.\<close>

definition header_of :: "string \<Rightarrow> string \<Rightarrow> gotime \<Rightarrow> overlay_header" where
  "header_of d md t =
     \<lparr>h_domain = d, h_mode = md, h_updated = (utc t)\<lparr>nsec := 0\<rparr>, h_has_mode = (md \<noteq> []),
      h_has_updated = True, h_updated_raw = format_rfc3339 (utc t)\<rparr>"

definition year_ok :: "gotime \<Rightarrow> bool" where
  "year_ok t \<longleftrightarrow> 0 \<le> year_of (utc t) \<and> year_of (utc t) < 10000"

lemma parse_header_header:
  assumes "field_ok d" "md = [] \<or> field_ok md" "year_ok t"
  shows "parse_header L (header d md t) = Inr (header_of d md t)"
proof -
  let ?ts = "format_rfc3339 (utc t)"
  have p: "parse_rfc3339 ?ts = Some ((utc t)\<lparr>nsec := 0\<rparr>)"
    using assms(3) by (intro parse_format_rfc3339) (auto simp: year_ok_def utc_def)
  have e: "ends_tight (x @ ?ts)" for x
    using field_ok_stamp [of "utc t"] by (auto simp: field_ok_def ends_tight_def)
  show ?thesis
  proof (cases "md = []")
    case True
    have "header d md t = header_prefix @ '' '' @ d @ '' |'' @ '' updated: '' @ ?ts"
      using True by (simp add: header_def Let_def)
    moreover have "split_on CHR ''|'' ('' updated: '' @ ?ts) = ['' updated: '' @ ?ts]"
      using field_ok_notin [OF field_ok_stamp [of "utc t"]] by (intro split_on_notin) simp
    ultimately show ?thesis
      using True assms(1) p by (simp only: parse_header_domain [OF assms(1) e])
        (simp add: header_segment_updated header_of_def del: append.simps)
  next
    case False
    with assms have m: "field_ok md" by simp
    have h: "header d md t = header_prefix @ '' '' @ d @ '' |'' @ ('' mode: '' @ md @ '' | updated: '') @ ?ts"
      using False by (simp add: header_def Let_def)
    have "split_on CHR ''|'' (('' mode: '' @ md @ '' '') @ CHR ''|'' # ('' updated: '' @ ?ts)) =
        ['' mode: '' @ md @ '' '', '' updated: '' @ ?ts]"
      using field_ok_notin [OF field_ok_stamp [of "utc t"]] field_ok_notin [OF m]
      by (simp only: split_on_append) (simp add: split_on_notin)
    then have s: "split_on CHR ''|'' (('' mode: '' @ md @ '' | updated: '') @ ?ts) =
        ['' mode: '' @ md @ '' '', '' updated: '' @ ?ts]" by simp
    show ?thesis
      using False p unfolding h parse_header_domain [OF assms(1) e] s
      by (simp add: header_segment_updated header_segment_mode [OF m] header_of_def del: append.simps)
  qed
qed

subsection \<open>Lemmas: scanner\<close>

definition managed_line :: string where
  "managed_line = ''# Caddy WAF UI managed - do not edit manually''"

text \<open>The header is found in an overlay that starts with the managed line and the header.\<close>

lemma header_line_overlay:
  assumes "has_prefix header_prefix h" "ends_tight h" "nl \<notin> set h"
  shows "header_line (managed_line @ nl # h @ nl # b) = h"
proof -
  have m: "nl \<notin> set managed_line" "starts_tight managed_line" "ends_tight managed_line"
    "\<not> has_prefix header_prefix managed_line"
    by (simp_all add: managed_line_def header_prefix_def starts_tight_def ends_tight_def
        is_graph_def less_eq_char_def)
  have "starts_tight h"
    using assms(1) by (cases h) (auto simp: header_prefix_def starts_tight_def is_graph_def less_eq_char_def)
  then have "trim_space h = h" using assms(2) by (rule trim_space_tight)
  moreover have "split_on nl (managed_line @ nl # h @ nl # b) = managed_line # h # split_on nl b"
    using m(1) assms(3) by (simp add: split_on_append split_on_notin)
  ultimately show ?thesis using m assms(1) by (simp add: header_line_def)
qed

lemma header_has_prefix [simp]: "has_prefix header_prefix (header d md t)"
  by (simp add: header_def Let_def)

lemma header_ends_tight [simp]: "ends_tight (header d md t)"
proof -
  have "ends_tight (x @ format_rfc3339 (utc t))" for x
    using field_ok_stamp [of "utc t"] by (auto simp: field_ok_def ends_tight_def)
  from this [of "header_prefix @ '' '' @ d @ '' | updated: ''"]
    this [of "header_prefix @ '' '' @ d @ '' | mode: '' @ md @ '' | updated: ''"]
  show ?thesis by (simp add: header_def Let_def)
qed

lemma header_no_nl: "nl \<notin> set d \<Longrightarrow> nl \<notin> set md \<Longrightarrow> nl \<notin> set (header d md t)"
  using format_rfc3339_chars [of nl "utc t"]
  by (auto simp: header_def header_prefix_def Let_def dest: is_graph_not_nl [OF stamp_char_graph])

text \<open>The site a well-formed overlay registers.\<close>

lemma parse_site_header_overlay:
  assumes "os_read_file pth w = (Inr (managed_line @ nl # header d md t @ nl # b), w1)"
    and "field_ok d" "nl \<notin> set d" "md = [] \<or> field_ok md" "nl \<notin> set md" "year_ok t"
  shows "fst (parse_site_header pth name w) = Inr
    \<lparr>site_domain = d,
     site_mode = (if md \<in> {mode_on, mode_off, mode_detection_only} then md else mode_detection_only),
     site_updated = (utc t)\<lparr>nsec := 0\<rparr>,
     site_degraded = (md \<noteq> [] \<and> md \<notin> {mode_on, mode_off, mode_detection_only})\<rparr>"
proof -
  have hl: "header_line (managed_line @ nl # header d md t @ nl # b) = header d md t"
    using assms by (intro header_line_overlay header_no_nl) auto
  have ne: "header d md t \<noteq> []" using header_ends_tight [of d md t] by (auto simp: ends_tight_def)
  show ?thesis
    using assms(1) hl ne parse_header_header [OF assms(2,4,6)]
    by (auto simp: parse_site_header_def Let_def header_of_def mode_defs)
qed

text \<open>
  Without I/O faults a read depends on the file alone, so the scan is one independent look at
  each candidate file, in directory order: a broken overlay hides no other site.
\<close>

definition no_faults :: "('a) fsys_scheme \<Rightarrow> bool" where
  "no_faults w \<longleftrightarrow> (\<forall>t. fault w t = None)"

lemma no_faults_simps [simp]:
  "no_faults (tock w) = no_faults w" "no_faults w \<Longrightarrow> now_fault w = None"
  "no_faults (log_append l v) = no_faults v" "no_faults (log_action ev d f t ip s v) = no_faults v"
  by (auto simp: no_faults_def now_fault_def log_action_def)

definition same_files :: "('a) proc_scheme \<Rightarrow> ('a) proc_scheme \<Rightarrow> bool" where
  "same_files w w' \<longleftrightarrow> tree w' = tree w \<and> cwd w' = cwd w \<and> fault w' = fault w \<and> ulower w' = ulower w"

lemma same_files_simps [simp]:
  "same_files w w" "same_files w (tock w') = same_files w w'"
  "same_files w (log_append l w') = same_files w w'"
  by (auto simp: same_files_def)

lemma same_files_trans: "same_files w w' \<Longrightarrow> same_files w' w'' \<Longrightarrow> same_files w w''"
  by (auto simp: same_files_def)

lemma parse_site_header_same:
  "parse_site_header p n w = (r, w') \<Longrightarrow> same_files w w'"
  by (auto simp: parse_site_header_def Let_def dest!: os_read_file_pair
      split: prod.splits sum.splits if_splits)

lemma node_at_same: "tree w' = tree w \<Longrightarrow> node_at w' = node_at w"
  by (auto simp: node_at_def fun_eq_iff)

lemma missing_same: "tree w' = tree w \<Longrightarrow> missing w' p = missing w p"
  by (simp add: missing_def below_file_def node_at_same [of w' w])

lemma os_read_file_same:
  "same_files w w' \<Longrightarrow> no_faults w \<Longrightarrow> fst (os_read_file f w') = fst (os_read_file f w)"
  by (simp add: same_files_def os_read_file_def Let_def no_faults_def now_fault_def
      missing_same [of w' w] node_at_same [of w' w] split: option.split node.split)

lemma parse_site_header_indep:
  assumes "same_files w w'" "no_faults w"
  shows "fst (parse_site_header p n w') = fst (parse_site_header p n w)"
  using os_read_file_same [OF assms, of p] assms(1)
  by (cases "os_read_file p w"; cases "os_read_file p w'")
    (auto simp: parse_site_header_def Let_def same_files_def split: sum.splits)

definition entry_site :: "string \<Rightarrow> ('a) proc_scheme \<Rightarrow> string \<times> node \<Rightarrow> site option" where
  "entry_site d w e =
     (if snd e = SubDir \<or> \<not> has_prefix ''waf-'' (fst e) \<or> \<not> has_suffix ''.conf'' (fst e) then None
      else (case fst (parse_site_header (filepath_join [d, fst e]) (fst e) w) of
          Inl _ \<Rightarrow> None | Inr st \<Rightarrow> Some st))"

lemma map_filter_Cons:
  "List.map_filter f (x # xs) =
     (case f x of None \<Rightarrow> List.map_filter f xs | Some y \<Rightarrow> y # List.map_filter f xs)"
  by (simp add: List.map_filter_def split: option.split)

lemma scan_entries_spec:
  "no_faults w0 \<Longrightarrow> same_files w0 w \<Longrightarrow>
     fst (scan_entries d es w) = List.map_filter (entry_site d w0) es
     \<and> same_files w0 (snd (scan_entries d es w))"
proof (induction es arbitrary: w)
  case (Cons e es)
  obtain n x where e: "e = (n, x)" by (cases e)
  show ?case
  proof (cases "x = SubDir \<or> \<not> has_prefix ''waf-'' n \<or> \<not> has_suffix ''.conf'' n")
    case True
    with Cons e show ?thesis by (auto simp: map_filter_Cons entry_site_def)
  next
    case False
    obtain r w1 where p: "parse_site_header (filepath_join [d, n]) n w = (r, w1)" by fastforce
    have s: "same_files w0 w1"
      using same_files_trans [OF Cons.prems(2) parse_site_header_same [OF p]] .
    have r: "fst (parse_site_header (filepath_join [d, n]) n w0) = r"
      using parse_site_header_indep [OF Cons.prems(2,1), of "filepath_join [d, n]" n] p by simp
    show ?thesis
    proof (cases r)
      case (Inl er)
      have "same_files w0 (log_append (Warn ''overlay without a valid header, skipped'' [n]) w1)"
        using s by simp
      from Cons.IH [OF Cons.prems(1) this] False e p r Inl show ?thesis
        by (simp add: map_filter_Cons entry_site_def)
    next
      case (Inr st)
      obtain sts w2 where "scan_entries d es w1 = (sts, w2)" by fastforce
      with Inr Cons.IH [OF Cons.prems(1) s] False e p r show ?thesis
        by (simp add: map_filter_Cons entry_site_def)
    qed
  qed
qed simp

lemma scan_spec:
  assumes "no_faults w" "tree w (resolve (cwd w) d) = Some es"
  shows "fst (scan d w) = Inr (List.map_filter (entry_site d w) es)"
proof -
  have "os_read_dir d w = (Inr es, tock w)" using assms by (simp add: os_read_dir_def)
  then show ?thesis
    using scan_entries_spec [OF assms(1), of "tock w" d es]
    by (cases "scan_entries d es (tock w)") (simp add: scan_def)
qed

end
