(* ===== verification/Files.thy ===== *)
theory Files
  imports Domain Regex
begin

text \<open>
  Package \<open>internal/files\<close>: the names of the managed overlays and of the backup directories
  (\<open>naming.go\<close>), the atomic write (\<open>writer.go\<close>) and the snapshots with their retention
  (\<open>backup.go\<close>). Every operation is the sequence of system calls the source makes, so that its
  lemmas hold for an I/O fault at any of them.
\<close>

subsection \<open>Naming\<close>

definition file_type_waf :: string where "file_type_waf = ''waf''"
definition file_type_exclusions :: string where "file_type_exclusions = ''exclusions''"
definition file_type_ip_rules :: string where "file_type_ip_rules = ''ip-rules''"

lemmas file_type_defs = file_type_waf_def file_type_exclusions_def file_type_ip_rules_def

definition waf_config_path :: "(string \<Rightarrow> string) \<Rightarrow> string \<Rightarrow> string \<Rightarrow> string" where
  "waf_config_path L mdir dn = mdir @ ''/waf-'' @ domain_slug L dn @ ''.conf''"

definition exclusions_config_path :: "(string \<Rightarrow> string) \<Rightarrow> string \<Rightarrow> string \<Rightarrow> string" where
  "exclusions_config_path L mdir dn = mdir @ ''/exclusions-'' @ domain_slug L dn @ ''.conf''"

definition ip_rules_config_path :: "(string \<Rightarrow> string) \<Rightarrow> string \<Rightarrow> string \<Rightarrow> string" where
  "ip_rules_config_path L mdir dn = mdir @ ''/ip-rules-'' @ domain_slug L dn @ ''.conf''"

definition backup_dir_path :: "(string \<Rightarrow> string) \<Rightarrow> string \<Rightarrow> string \<Rightarrow> string" where
  "backup_dir_path L bdir dn = filepath_join [bdir, domain_slug L dn]"

definition overlay_path :: "(string \<Rightarrow> string) \<Rightarrow> string \<Rightarrow> string \<Rightarrow> string \<Rightarrow> gerr + string" where
  "overlay_path L mdir ty dn =
     (if ty = file_type_waf then Inr (waf_config_path L mdir dn)
      else if ty = file_type_exclusions then Inr (exclusions_config_path L mdir dn)
      else if ty = file_type_ip_rules then Inr (ip_rules_config_path L mdir dn)
      else Inl (Errorf ''unknown overlay type: %s'' [ty] [] None))"

subsection \<open>Atomic write\<close>

text \<open>
  \<open>AtomicWrite\<close>; the deferred removal runs on every error after the temporary file exists.
  The mode 0644 is 420 in decimal.
\<close>

definition atomic_write :: "string \<Rightarrow> string \<Rightarrow> ('a) fsys_scheme \<Rightarrow> unit os_result \<times> ('a) fsys_scheme" where
  "atomic_write pth bytes w =
     (case os_create_temp (filepath_dir pth) (filepath_base pth) w of
        (Inl e, w1) \<Rightarrow> (Inl e, w1)
      | (Inr tmp, w1) \<Rightarrow>
          (let cleanup = (\<lambda>e v. (Inl e, snd (os_remove tmp v))) in
           case os_chmod tmp 420 w1 of
             (Inl e, w2) \<Rightarrow> cleanup e (snd (os_close tmp w2))
           | (Inr _, w2) \<Rightarrow>
               (case os_write tmp bytes w2 of
                  (Inl e, w3) \<Rightarrow> cleanup e (snd (os_close tmp w3))
                | (Inr _, w3) \<Rightarrow>
                    (case os_close tmp w3 of
                       (Inl e, w4) \<Rightarrow> cleanup e w4
                     | (Inr _, w4) \<Rightarrow>
                         (case os_rename tmp pth w4 of
                            (Inl e, w5) \<Rightarrow> cleanup e w5
                          | (Inr _, w5) \<Rightarrow> (Inr (), w5))))))"

subsection \<open>Snapshots\<close>

definition stamp_classes :: "(char \<Rightarrow> bool) list" where
  "stamp_classes =
     (let d2 = replicate 2 is_digit; ch = (\<lambda>x. [\<lambda>c. c = x]) in
      replicate 4 is_digit @ ch CHR ''-'' @ d2 @ ch CHR ''-'' @ d2 @ ch CHR ''T'' @
      d2 @ ch CHR ''-'' @ d2 @ ch CHR ''-'' @ d2 @ ch CHR ''Z'')"

definition backup_name_pattern :: re where
  "backup_name_pattern =
     seqs [BeginText, Cap 1 (seqs (map Chr stamp_classes)), lit ''.'',
           Cap 2 (Alt (lit file_type_waf) (Alt (lit file_type_exclusions) (lit file_type_ip_rules))),
           lit ''.conf'', EndText]"

definition backup_type :: "string \<Rightarrow> gerr + string" where
  "backup_type sid =
     (case find_submatch backup_name_pattern sid of
        None \<Rightarrow> Inl (Errorf ''%w: %q'' [sid] [] (Some (Sentinel ErrInvalidBackup)))
      | Some m \<Rightarrow> Inr (group 2 m))"

record backup_info =
  b_timestamp :: string
  b_file_type :: string
  b_size :: nat

text \<open>\<open>info.Size()\<close>; only called on an entry that is not a directory.\<close>

definition info_size :: "node \<Rightarrow> nat" where
  "info_size x = (case x of Reg c _ \<Rightarrow> length c | SubDir \<Rightarrow> 0)"

text \<open>The loop of \<open>ListBackups\<close>; \<open>entry.Info\<close> is an \<open>lstat\<close> of the entry.\<close>

fun list_entries ::
  "string \<Rightarrow> dir \<Rightarrow> ('a) fsys_scheme \<Rightarrow> backup_info list \<times> ('a) fsys_scheme" where
  "list_entries d [] w = ([], w)"
| "list_entries d ((name, x) # es) w =
     (if x = SubDir then list_entries d es w
      else (case find_submatch backup_name_pattern name of
          None \<Rightarrow> list_entries d es w
        | Some m \<Rightarrow>
            (case os_stat (d @ ''/'' @ name) w of
               (Inl _, w1) \<Rightarrow> list_entries d es w1
             | (Inr info, w1) \<Rightarrow>
                 (let (bs, w2) = list_entries d es w1
                  in (\<lparr>b_timestamp = group 1 m, b_file_type = group 2 m, b_size = info_size info\<rparr> # bs,
                      w2)))))"

definition list_backups :: "string \<Rightarrow> ('a) proc_scheme \<Rightarrow> (gerr + backup_info list) \<times> ('a) proc_scheme" where
  "list_backups dn w =
     (let d = backup_dir_path (ulower w) (backup_dir (env w)) dn in
      case os_read_dir d w of
        (Inl e, w1) \<Rightarrow> (if is_not_exist e then (Inr [], w1) else (Inl (OsErr e), w1))
      | (Inr es, w1) \<Rightarrow>
          (let (bs, w2) = list_entries d es w1
           in (Inr (rev (sort_key (\<lambda>b. b_timestamp b @ b_file_type b) bs)), w2)))"

definition restore_backup :: "string \<Rightarrow> string \<Rightarrow> ('a) proc_scheme \<Rightarrow> (gerr + unit) \<times> ('a) proc_scheme" where
  "restore_backup dn sid w =
     (case backup_type sid of
        Inl e \<Rightarrow> (Inl e, w)
      | Inr ty \<Rightarrow>
          (case os_read_file
               (filepath_join [backup_dir_path (ulower w) (backup_dir (env w)) dn, sid]) w of
             (Inl e, w1) \<Rightarrow>
               (if is_not_exist e
                then (Inl (Errorf ''%w: snapshot %q does not exist'' [sid] []
                        (Some (Sentinel ErrInvalidBackup))), w1)
                else (Inl (OsErr e), w1))
           | (Inr bytes, w1) \<Rightarrow>
               (case overlay_path (ulower w1) (managed_dir (env w1)) ty dn of
                  Inl e \<Rightarrow> (Inl e, w1)
                | Inr conf \<Rightarrow>
                    (case atomic_write conf bytes w1 of
                       (Inl e, w2) \<Rightarrow> (Inl (OsErr e), w2)
                     | (Inr _, w2) \<Rightarrow> (Inr (), w2)))))"

text \<open>\<open>copyFile\<close>; the deferred closes run last opened first, their errors are dropped.\<close>

definition copy_file :: "string \<Rightarrow> string \<Rightarrow> ('a) fsys_scheme \<Rightarrow> unit os_result \<times> ('a) fsys_scheme" where
  "copy_file src dst w =
     (case os_open src w of
        (Inl e, w1) \<Rightarrow> (Inl e, w1)
      | (Inr _, w1) \<Rightarrow>
          (case os_create dst w1 of
             (Inl e, w2) \<Rightarrow> (Inl e, snd (os_close src w2))
           | (Inr _, w2) \<Rightarrow>
               (let (r, w3) = io_copy dst src w2
                in (r, snd (os_close src (snd (os_close dst w3)))))))"

definition is_snapshot :: "string \<Rightarrow> string \<times> node \<Rightarrow> bool" where
  "is_snapshot ty entry =
     (snd entry \<noteq> SubDir \<and>
      (case find_submatch backup_name_pattern (fst entry) of None \<Rightarrow> False | Some m \<Rightarrow> group 2 m = ty))"

fun remove_oldest ::
  "string \<Rightarrow> string list \<Rightarrow> ('a) fsys_scheme \<Rightarrow> (gerr + unit) \<times> ('a) fsys_scheme" where
  "remove_oldest d [] w = (Inr (), w)"
| "remove_oldest d (n # ns) w =
     (let old = filepath_join [d, n] in
      case os_remove old w of
        (Inl e, w1) \<Rightarrow> (Inl (Errorf ''error removing old backup %s: %w'' [old] [] (Some (OsErr e))), w1)
      | (Inr _, w1) \<Rightarrow> remove_oldest d ns w1)"

definition enforce_retention ::
  "string \<Rightarrow> string \<Rightarrow> int \<Rightarrow> ('a) fsys_scheme \<Rightarrow> (gerr + unit) \<times> ('a) fsys_scheme" where
  "enforce_retention d ty limit w =
     (case os_read_dir d w of
        (Inl e, w1) \<Rightarrow> (Inl (OsErr e), w1)
      | (Inr es, w1) \<Rightarrow>
          (let backups = filter (is_snapshot ty) es in
           if int (length backups) \<le> limit then (Inr (), w1)
           else
             (let to_delete = nat (int (length backups) - limit);
                  sorted = sort_key fst backups
              in remove_oldest d (map fst (take to_delete sorted)) w1)))"

definition backup :: "string \<Rightarrow> string \<Rightarrow> ('a) proc_scheme \<Rightarrow> (gerr + unit) \<times> ('a) proc_scheme" where
  "backup dn ty w =
     (let slug = domain_slug (ulower w) dn;
          src = filepath_join [managed_dir (env w), ty @ ''-'' @ slug @ ''.conf'']
      in case os_stat src w of
           (Inl e, w1) \<Rightarrow>
             (if is_not_exist e then (Inr (), w1)
              else (Inl (Errorf ''error checking source file %q: %w'' [src] [] (Some (OsErr e))), w1))
         | (Inr _, w1) \<Rightarrow>
             (let d = backup_dir_path (ulower w) (backup_dir (env w)) dn in
              case os_mkdir_all d w1 of
                (Inl e, w2) \<Rightarrow>
                  (Inl (Errorf ''error creating backup directory: %w'' [] [] (Some (OsErr e))), w2)
              | (Inr _, w2) \<Rightarrow>
                  (let (now, w3) = time_now w2;
                       name = format_stamp (utc now) @ ''.'' @ ty @ ''.conf''
                   in case copy_file src (filepath_join [d, name]) w3 of
                        (Inl e, w4) \<Rightarrow>
                          (Inl (Errorf ''error copying backup: %w'' [] [] (Some (OsErr e))), w4)
                      | (Inr _, w4) \<Rightarrow> enforce_retention d ty (backup_keep (env w)) w4)))"

subsection \<open>Lemmas: the atomic write\<close>

text \<open>The names \<open>os.CreateTemp\<close> may choose for a write of the file \<open>p\<close>.\<close>

definition temps :: "path \<Rightarrow> path set" where
  "temps p = {butlast p @ [temp_name (last p) k] | k. True}"

lemma temps_iff: "q \<in> temps p \<longleftrightarrow> (\<exists>k. q = butlast p @ [temp_name (last p) k])"
  by (auto simp: temps_def)

lemma temp_name_neq: "temp_name b k \<noteq> b"
  by (simp add: temp_name_def)

lemma not_in_temps [simp]: "p \<noteq> [] \<Longrightarrow> p \<notin> temps p"
  using temp_name_neq by (metis append_butlast_last_id append1_eq_conv temps_iff)

lemma resolve_same: "changes w w' K \<Longrightarrow> resolve (cwd w') f = resolve (cwd w) f"
  by (simp add: changes_fields)

lemma snd_removed:
  assumes "node_at w (resolve (cwd w) f) = Some (Reg c m)"
  shows "changes w (snd (os_remove f w)) {resolve (cwd w) f}"
  using os_remove_changes [of f w "fst (os_remove f w)" "snd (os_remove f w)"] assms by simp

lemma os_create_temp_at:
  assumes "os_create_temp (filepath_dir pth) (filepath_base pth) w = (Inr tmp, w1)"
    and "pth = d @ ''/'' @ n" "name_ok n" "d \<noteq> []"
  shows "resolve (cwd w) tmp \<in> temps (resolve (cwd w) pth)"
    "node_at w (resolve (cwd w) tmp) = None"
    "node_at w1 (resolve (cwd w) tmp) = Some (Reg [] 384)"
    "changes w w1 {resolve (cwd w) tmp}"
proof -
  have b: "filepath_base pth = n" using assms(2,3) filepath_base_name by simp
  then have "CHR ''/'' \<notin> set (filepath_base pth)" using assms(3) by (simp add: name_ok_def)
  moreover have "filepath_dir pth \<noteq> []" by (simp add: filepath_dir_def)
  moreover have "resolve (cwd w) (filepath_dir pth) = resolve (cwd w) d"
    using resolve_dir_name [OF assms(3,4)] assms(2) by simp
  moreover have "resolve (cwd w) pth = resolve (cwd w) d @ [n]"
    using resolve_slash_name [OF assms(3,4)] assms(2) by simp
  ultimately show "resolve (cwd w) tmp \<in> temps (resolve (cwd w) pth)"
    "node_at w (resolve (cwd w) tmp) = None"
    "node_at w1 (resolve (cwd w) tmp) = Some (Reg [] 384)"
    "changes w w1 {resolve (cwd w) tmp}"
    using os_create_temp_Inr [OF assms(1)] b by (auto simp: temps_iff)
qed

text \<open>
  The write as a whole: on success the file holds exactly the new bytes with mode 0644, on any
  error it is what it was. Besides it, only one temporary name is touched, one that was free.
\<close>

lemma atomic_write_spec:
  assumes "atomic_write pth bytes w = (r, w')"
    and p: "pth = d @ ''/'' @ n" "name_ok n" "d \<noteq> []"
  defines "q \<equiv> resolve (cwd w) pth"
  shows "\<exists>t \<in> temps q. changes w w' {q, t} \<and> (r = Inr () \<longrightarrow> node_at w' t = None)"
    and "r = Inr () \<Longrightarrow> node_at w' q = Some (Reg bytes 420)"
    and "r = Inl e \<Longrightarrow> node_at w' q = node_at w q"
proof -
  have qne: "q \<noteq> []" using resolve_slash_name [OF p(2,3)] p(1) by (simp add: q_def)
  have main: "(\<exists>t \<in> temps q. changes w w' {q, t} \<and> (r = Inr () \<longrightarrow> node_at w' t = None)) \<and>
      (r = Inr () \<longrightarrow> node_at w' q = Some (Reg bytes 420)) \<and>
      (\<forall>e. r = Inl e \<longrightarrow> node_at w' q = node_at w q)"
  proof (cases "os_create_temp (filepath_dir pth) (filepath_base pth) w")
    case (Pair r1 w1)
    show ?thesis
    proof (cases r1)
      case (Inl e)
      with Pair assms(1) have "r = Inl e" "w' = tock w"
        by (auto simp: atomic_write_def dest: os_create_temp_Inl)
      moreover have "butlast q @ [temp_name (last q) 0] \<in> temps q" by (auto simp: temps_iff)
      ultimately show ?thesis by auto
    next
      case (Inr tmp)
      let ?t = "resolve (cwd w) tmp"
      note c1 = os_create_temp_at [OF Pair [unfolded Inr] p, folded q_def]
      have tq: "?t \<noteq> q" using c1(1) not_in_temps [OF qne] by metis
      text \<open>A file still under its temporary name leaves \<open>q\<close> alone.\<close>
      have fail: "(\<exists>t \<in> temps q. changes w v' {q, t}) \<and> node_at v' q = node_at w q"
        if "changes w v {?t}" "node_at v ?t = Some (Reg c m)" "v' = snd (os_remove tmp v)" for v v' c m
      proof -
        have "changes v v' {?t}"
          using snd_removed [of v tmp c m] that by (simp add: resolve_same [OF that(1)])
        then have "changes w v' {?t}" by (rule changes_trans_same [OF that(1)])
        with c1(1) tq show ?thesis by (auto dest: changes_mono changes_node)
      qed
      obtain r2 w2 where s2: "os_chmod tmp 420 w1 = (r2, w2)" by fastforce
      note e1 = resolve_same [OF c1(4), of tmp]
      have ch2: "changes w w2 {?t}"
        using changes_trans_same [OF c1(4)] os_chmod_changes [OF s2] e1 by simp
      note e2 = resolve_same [OF ch2, of tmp]
      obtain m2 where n2: "node_at w2 ?t = Some (Reg [] m2)"
        using os_chmod_Reg [OF s2] c1(3) e1 by metis
      show ?thesis
      proof (cases r2)
        case (Inl e)
        have "r = Inl e" "w' = snd (os_remove tmp (snd (os_close tmp w2)))"
          using assms(1) Pair Inr s2 Inl by (simp_all add: atomic_write_def Let_def)
        with fail [of "tock w2" "[]" m2 w'] ch2 n2 show ?thesis by auto
      next
        case r2: (Inr u2)
        have n2: "node_at w2 ?t = Some (Reg [] 420)"
          using os_chmod_Inr [OF s2 [unfolded r2]] c1(3) e1 by metis
        obtain r3 w3 where s3: "os_write tmp bytes w2 = (r3, w3)" by fastforce
        have ch3: "changes w w3 {?t}"
          using changes_trans_same [OF ch2] os_write_changes [OF s3] e2 by simp
        obtain c3 where n3: "node_at w3 ?t = Some (Reg c3 420)"
          using os_write_Reg [OF s3] n2 e2 by metis
        show ?thesis
        proof (cases r3)
          case (Inl e)
          have "r = Inl e" "w' = snd (os_remove tmp (snd (os_close tmp w3)))"
            using assms(1) Pair Inr s2 r2 s3 Inl by (simp_all add: atomic_write_def Let_def)
          with fail [of "tock w3" c3 420 w'] ch3 n3 show ?thesis by auto
        next
          case r3: (Inr u3)
          have n3: "node_at w3 ?t = Some (Reg bytes 420)"
            using os_write_Inr [OF s3 [unfolded r3]] n2 e2 by (metis append_Nil)
          obtain r4 w4 where s4: "os_close tmp w3 = (r4, w4)" by fastforce
          then have w4: "w4 = tock w3" by (rule os_close_pair)
          show ?thesis
          proof (cases r4)
            case (Inl e)
            have "r = Inl e" "w' = snd (os_remove tmp w4)"
              using assms(1) Pair Inr s2 r2 s3 r3 s4 Inl by (simp_all add: atomic_write_def Let_def)
            with fail [of "w4" bytes 420 w'] ch3 n3 w4 show ?thesis by auto
          next
            case r4: (Inr u4)
            have ch4: "changes w w4 {?t}" using ch3 w4 by simp
            note e4 = resolve_same [OF ch4]
            obtain r5 w5 where s5: "os_rename tmp pth w4 = (r5, w5)" by fastforce
            show ?thesis
            proof (cases r5)
              case (Inl e)
              have "r = Inl e" "w' = snd (os_remove tmp w5)" "w5 = tock w4"
                using assms(1) Pair Inr s2 r2 s3 r3 s4 r4 s5 Inl
                by (auto simp: atomic_write_def Let_def dest: os_rename_Inl)
              with fail [of "w5" bytes 420 w'] ch4 n3 w4 show ?thesis by auto
            next
              case r5: (Inr u5)
              have r: "r = Inr ()" "w' = w5"
                using assms(1) Pair Inr s2 r2 s3 r3 s4 r4 s5 r5
                by (simp_all add: atomic_write_def Let_def)
              from os_rename_Inr [OF s5 [unfolded r5]] e4 n3 w4 tq
              have "node_at w5 q = Some (Reg bytes 420)" "node_at w5 ?t = None" "changes w4 w5 {?t, q}"
                by (auto simp: q_def)
              moreover have "changes w w5 ({?t} \<union> {?t, q})"
                by (rule changes_trans [OF ch4]) fact
              ultimately show ?thesis using c1(1) r by (auto simp: insert_commute)
            qed
          qed
        qed
      qed
    qed
  qed
  from main show "\<exists>t \<in> temps q. changes w w' {q, t} \<and> (r = Inr () \<longrightarrow> node_at w' t = None)"
    "r = Inr () \<Longrightarrow> node_at w' q = Some (Reg bytes 420)"
    "r = Inl e \<Longrightarrow> node_at w' q = node_at w q" by auto
qed

subsection \<open>Lemmas: snapshot names\<close>

definition file_types :: "string set" where
  "file_types = {file_type_waf, file_type_exclusions, file_type_ip_rules}"

definition stamp_ok :: "string \<Rightarrow> bool" where
  "stamp_ok ts \<longleftrightarrow> list_all2 (\<lambda>f c. f c) stamp_classes ts"

definition snapshot_name :: "string \<Rightarrow> string \<Rightarrow> string" where
  "snapshot_name ts ty = ts @ ''.'' @ ty @ ''.conf''"

lemma stamp_classes_length [simp]: "length stamp_classes = 20"
  by (simp add: stamp_classes_def Let_def)

lemma stamp_ok_length: "stamp_ok ts \<Longrightarrow> length ts = 20"
  by (auto simp: stamp_ok_def dest: list_all2_lengthD)

lemma rm_Cap_chrs:
  "rm (Seq (Cap n (seqs (map Chr fs))) r) p s =
     (if length fs \<le> length s \<and> list_all2 (\<lambda>f c. f c) fs (take (length fs) s)
      then with_caps [(n, take (length fs) s)] (rm r (rev (take (length fs) s) @ p) (drop (length fs) s))
      else [])"
proof -
  have "rm (seqs (map Chr fs)) p s =
     (if length fs \<le> length s \<and> list_all2 (\<lambda>f c. f c) fs (take (length fs) s)
      then [([], rev (take (length fs) s) @ p, drop (length fs) s)] else [])"
    using rm_seqs_chrs [of fs Eps p s] rm_Seq_Eps [of "seqs (map Chr fs)"] by simp
  then show ?thesis
    by (cases "length fs \<le> length s \<and> list_all2 (\<lambda>f c. f c) fs (take (length fs) s)") auto
qed

lemma rm_lit_Cap:
  "rm (lit w) p s = (if has_prefix w s then [([], rev w @ p, drop (length w) s)] else [])"
  using rm_lit [of w Eps p s] rm_Seq_Eps [of "lit w"] by simp

lemma rm_Cap_lit3:
  "rm (Seq (Cap n (Alt (lit a) (Alt (lit b) (lit c)))) r) p s =
     concat (map (\<lambda>x. if has_prefix x s
       then with_caps [(n, x)] (rm r (rev x @ p) (drop (length x) s)) else []) [a, b, c])"
proof -
  have t: "has_prefix x s \<Longrightarrow> take (length s - (length s - length x)) s = x" for x
    by (auto simp: has_prefix_iff)
  show ?thesis by (simp add: rm_lit_Cap t)
qed

lemma rm_conf_end:
  "rm (Seq (lit ''.conf'') EndText) p s = (if s = ''.conf'' then [([], rev ''.conf'' @ p, [])] else [])"
  by (subst rm_lit) (auto simp: has_prefix_iff)

lemma file_types_excl:
  "has_prefix file_type_waf s \<Longrightarrow> \<not> has_prefix file_type_exclusions s \<and> \<not> has_prefix file_type_ip_rules s"
  "has_prefix file_type_exclusions s \<Longrightarrow> \<not> has_prefix file_type_ip_rules s"
  by (auto simp: file_type_defs has_prefix_iff)

text \<open>The pattern as a condition on the name: a 20-byte stamp, a known type, nothing else.\<close>

lemma backup_name_submatch:
  "find_submatch backup_name_pattern s = Some cs \<longleftrightarrow>
     (\<exists>ts ty. stamp_ok ts \<and> ty \<in> file_types \<and> s = snapshot_name ts ty \<and> cs = [(1, ts), (2, ty)])"
proof -
  let ?E = "Seq (lit ''.conf'') EndText"
  let ?T = "Seq (Cap 2 (Alt (lit file_type_waf) (Alt (lit file_type_exclusions) (lit file_type_ip_rules)))) ?E"
  let ?D = "Seq (lit ''.'') ?T"
  have T: "rm ?T p u = (if \<exists>ty \<in> file_types. u = ty @ ''.conf''
      then [([(2, take (length u - 5) u)], rev u @ p, [])] else [])" for p u
  proof -
    have one: "(if has_prefix ty u then with_caps [(2, ty)] (rm ?E (rev ty @ p) (drop (length ty) u)) else []) =
        (if u = ty @ ''.conf'' then [([(2, ty)], rev u @ p, [])] else [])" for ty
      by (auto simp: rm_conf_end has_prefix_iff simp del: rm.simps)
    show ?thesis
      unfolding rm_Cap_lit3 one by (auto simp: file_types_def file_type_defs)
  qed
  have stamp: "20 \<le> length s \<and> list_all2 (\<lambda>f c. f c) stamp_classes (take 20 s) \<longleftrightarrow>
      (\<exists>ts u. stamp_ok ts \<and> s = ts @ u)"
  proof
    assume "\<exists>ts u. stamp_ok ts \<and> s = ts @ u"
    then obtain ts u where "stamp_ok ts" "s = ts @ u" by blast
    then show "20 \<le> length s \<and> list_all2 (\<lambda>f c. f c) stamp_classes (take 20 s)"
      using stamp_ok_length [of ts] by (simp add: stamp_ok_def)
  qed (metis append_take_drop_id stamp_ok_def)
  let ?R = "Seq (Cap 1 (seqs (map Chr stamp_classes))) ?D"
  have sub: "find_submatch backup_name_pattern s =
      (case rm ?R [] s of [] \<Rightarrow> None | m # _ \<Rightarrow> Some (fst m))"
    unfolding backup_name_pattern_def seqs.simps by (rule find_submatch_BeginText)
  show ?thesis
  proof (cases "\<exists>ts u. stamp_ok ts \<and> s = ts @ u")
    case False
    then have "rm ?R [] s = []" unfolding rm_Cap_chrs using stamp by auto
    then have "find_submatch backup_name_pattern s = None" unfolding sub by (simp del: rm.simps)
    with False show ?thesis by (auto simp: snapshot_name_def)
  next
    case True
    then obtain ts u where s: "s = ts @ u" "stamp_ok ts" by blast
    note l = stamp_ok_length [OF s(2)]
    have R: "rm ?R [] s = with_caps [(1, ts)] (rm ?D (rev ts) u)"
      unfolding rm_Cap_chrs using stamp True s l by auto
    have eq: "stamp_ok ts' \<Longrightarrow> s = snapshot_name ts' ty \<longleftrightarrow> ts' = ts \<and> u = ''.'' @ ty @ ''.conf''" for ts' ty
      using stamp_ok_length [of ts'] l s by (auto simp: snapshot_name_def)
    show ?thesis
    proof (cases "\<exists>ty \<in> file_types. u = ''.'' @ ty @ ''.conf''")
      case False
      then have "rm ?D (rev ts) u = []" unfolding rm_lit T by (auto simp: has_prefix_iff)
      then have "find_submatch backup_name_pattern s = None" unfolding sub R by (simp del: rm.simps)
      with False eq show ?thesis by auto
    next
      case True
      then obtain ty where ty: "ty \<in> file_types" "u = ''.'' @ ty @ ''.conf''" by blast
      then have "rm ?D (rev ts) u = [([(2, ty)], rev (ty @ ''.conf'') @ ''.'' @ rev ts, [])]"
        unfolding rm_lit T by auto
      then have "find_submatch backup_name_pattern s = Some [(1, ts), (2, ty)]"
        unfolding sub R by (simp del: rm.simps)
      with eq ty s(2) show ?thesis by auto
    qed
  qed
qed

lemma submatch_snapshot_name:
  "stamp_ok ts \<Longrightarrow> ty \<in> file_types \<Longrightarrow>
     find_submatch backup_name_pattern (snapshot_name ts ty) = Some [(1, ts), (2, ty)]"
  unfolding backup_name_submatch by blast

lemma group_captures [simp]: "group 1 [(1, a), (2, b)] = a" "group 2 [(1, a), (2, b)] = b"
  "group (Suc 0) [(Suc 0, a), (2, b)] = a" "group 2 [(Suc 0, a), (2, b)] = b"
  by (simp_all add: group_def)

lemma backup_type_Inr:
  "backup_type sid = Inr ty \<longleftrightarrow> (\<exists>ts. stamp_ok ts \<and> ty \<in> file_types \<and> sid = snapshot_name ts ty)"
  by (cases "find_submatch backup_name_pattern sid")
    (auto simp: backup_type_def submatch_snapshot_name backup_name_submatch)

lemma backup_type_Inl: "backup_type sid = Inl e \<Longrightarrow> errors_is e ErrInvalidBackup"
  by (auto simp: backup_type_def split: option.splits)

lemma is_snapshot_iff:
  "is_snapshot ty (n, x) \<longleftrightarrow>
     x \<noteq> SubDir \<and> ty \<in> file_types \<and> (\<exists>ts. stamp_ok ts \<and> n = snapshot_name ts ty)"
  by (cases "find_submatch backup_name_pattern n")
    (auto simp: is_snapshot_def submatch_snapshot_name backup_name_submatch)

lemma stamp_class_graph:
  "f \<in> set stamp_classes \<Longrightarrow> f c \<Longrightarrow> is_graph c \<and> c \<noteq> CHR ''/''"
  by (auto simp: stamp_classes_def Let_def is_graph_def is_digit_def less_eq_char_def)

lemma stamp_ok_bytes: "stamp_ok ts \<Longrightarrow> c \<in> set ts \<Longrightarrow> is_graph c \<and> c \<noteq> CHR ''/''"
proof -
  assume a: "stamp_ok ts" "c \<in> set ts"
  then obtain i where "i < length ts" "ts ! i = c" by (auto simp: in_set_conv_nth)
  with a(1) have "(stamp_classes ! i) c" "i < length stamp_classes"
    by (auto simp: stamp_ok_def list_all2_conv_all_nth)
  then show "is_graph c \<and> c \<noteq> CHR ''/''" using stamp_class_graph nth_mem by blast
qed

text \<open>A valid snapshot name is a single path element: no separator, no dot name.\<close>

lemma snapshot_name_ok:
  assumes "stamp_ok ts" "ty \<in> file_types"
  shows "name_ok (snapshot_name ts ty)"
proof -
  have "CHR ''/'' \<notin> set (snapshot_name ts ty)"
    using stamp_ok_bytes [OF assms(1)] assms(2)
    by (auto simp: snapshot_name_def file_types_def file_type_defs)
  moreover have "length (snapshot_name ts ty) > 2"
    using stamp_ok_length [OF assms(1)] by (simp add: snapshot_name_def)
  then have "snapshot_name ts ty \<noteq> ''.''" "snapshot_name ts ty \<noteq> ''..''" "snapshot_name ts ty \<noteq> []" by auto
  ultimately show ?thesis by (simp add: name_ok_def)
qed

lemma snapshot_name_eq:
  "stamp_ok ts \<Longrightarrow> stamp_ok ts' \<Longrightarrow> snapshot_name ts ty = snapshot_name ts' ty' \<longleftrightarrow> ts = ts' \<and> ty = ty'"
  using stamp_ok_length [of ts] stamp_ok_length [of ts'] by (auto simp: snapshot_name_def)

lemma stamp_ok_format:
  assumes "year_ok t"
  shows "stamp_ok (format_stamp (utc t))"
proof -
  obtain y mo d where c: "civil_of_days (secs t div 86400) = (y, mo, d)" by (metis prod_cases3)
  obtain h mi s where k: "clock_of (secs t mod 86400) = (h, mi, s)" by (metis prod_cases3)
  have v: "valid_date y mo d" using civil_of_days_spec [OF c] by simp
  note b = valid_date_bounds [OF v]
  note clk = clock_of_spec [OF k, simplified]
  have y: "0 \<le> y" "y < 10000" using assms c by (auto simp: year_ok_def year_of_def utc_def)
  have p2: "list_all2 (\<lambda>f c. f c) (replicate 2 is_digit) (pad_int 2 x)" if "0 \<le> x" "x < 100" for x
    using pad2 [OF that] by (simp add: list_all2_conv_all_nth list_all_length)
  have p4: "list_all2 (\<lambda>f c. f c) (replicate 4 is_digit) (pad_int 4 x)" if "0 \<le> x" "x < 10000" for x
    using pad4 [OF that] by (simp add: list_all2_conv_all_nth list_all_length)
  have "format_stamp (utc t) = pad_int 4 y @ ''-'' @ pad_int 2 mo @ ''-'' @ pad_int 2 d @ ''T'' @
         pad_int 2 h @ ''-'' @ pad_int 2 mi @ ''-'' @ pad_int 2 s @ ''Z''"
    by (simp add: format_stamp_def Let_def utc_def c k)
  then show ?thesis
    unfolding stamp_ok_def stamp_classes_def Let_def
    by (simp only:) (intro list_all2_appendI p4 p2, use y b clk in auto)
qed

subsection \<open>Lemmas: retention\<close>

definition children :: "path \<Rightarrow> string set \<Rightarrow> path set" where
  "children p ns = (\<lambda>n. p @ [n]) ` ns"

lemma children_iff [simp]: "q \<in> children p ns \<longleftrightarrow> (\<exists>n \<in> ns. q = p @ [n])"
  by (auto simp: children_def)

lemma children_mono: "ns \<subseteq> ms \<Longrightarrow> children p ns \<subseteq> children p ms"
  by (auto simp: children_def)

lemma os_remove_listing:
  assumes "os_remove f w = (Inr u, w')" "resolve (cwd w) f = p @ [n]" "tree w p = Some es"
    and "node_at w (p @ [n]) \<noteq> Some SubDir"
  shows "tree w' p = Some (dir_del n es)"
  using assms
  by (auto simp: os_remove_def Let_def del_node_def split: option.splits node.splits if_splits)

lemma remove_oldest_spec:
  assumes "remove_oldest d ns w = (r, w')" "d \<noteq> []" "\<forall>n \<in> set ns. name_ok n" "distinct ns"
    and "resolve (cwd w) d = p" "tree w p = Some es" "\<forall>n \<in> set ns. node_at w (p @ [n]) \<noteq> Some SubDir"
  shows "changes w w' (children p (set ns))
    \<and> (r = Inr () \<longrightarrow> tree w' p = Some (filter (\<lambda>e. fst e \<notin> set ns) es))"
  using assms
proof (induction ns arbitrary: w es)
  case (Cons n ns)
  let ?f = "filepath_join [d, n]"
  have rs: "resolve (cwd w) ?f = p @ [n]" using Cons.prems by (simp add: resolve_join_name)
  obtain r1 w1 where s: "os_remove ?f w = (r1, w1)" by fastforce
  have ch: "changes w w1 {p @ [n]}" using os_remove_changes [OF s] rs Cons.prems(7) by simp
  show ?case
  proof (cases r1)
    case (Inl e)
    with Cons.prems(1) s ch show ?thesis by (auto elim: changes_mono)
  next
    case (Inr u)
    have t: "tree w1 p = Some (dir_del n es)"
      by (rule os_remove_listing [OF s [unfolded Inr] rs Cons.prems(6)]) (use Cons.prems(7) in simp)
    have "changes w1 w' (children p (set ns))
      \<and> (r = Inr () \<longrightarrow> tree w' p = Some (filter (\<lambda>e. fst e \<notin> set ns) (dir_del n es)))"
    proof (rule Cons.IH)
      show "remove_oldest d ns w1 = (r, w')" using Cons.prems(1) s Inr by simp
      show "resolve (cwd w1) d = p" using Cons.prems(5) by (simp add: resolve_same [OF ch])
      show "tree w1 p = Some (dir_del n es)" by (rule t)
      show "\<forall>n' \<in> set ns. node_at w1 (p @ [n']) \<noteq> Some SubDir"
      proof
        fix n' assume "n' \<in> set ns"
        then have "node_at w1 (p @ [n']) = node_at w (p @ [n'])"
          using Cons.prems(4) by (intro changes_node [OF ch]) auto
        with Cons.prems(7) \<open>n' \<in> set ns\<close> show "node_at w1 (p @ [n']) \<noteq> Some SubDir" by simp
      qed
    qed (use Cons.prems in auto)
    moreover from this ch have "changes w w' ({p @ [n]} \<union> children p (set ns))"
      by (blast intro: changes_trans)
    then have "changes w w' (children p (set (n # ns)))"
      by (rule changes_mono) auto
    moreover have "filter (\<lambda>e. fst e \<notin> set ns) (dir_del n es) = filter (\<lambda>e. fst e \<notin> set (n # ns)) es"
      by (simp add: dir_del_def conj_commute)
    ultimately show ?thesis by simp
  qed
qed auto

text \<open>The snapshots of a type in a listing.\<close>

definition snaps :: "string \<Rightarrow> dir \<Rightarrow> dir" where
  "snaps ty es = filter (is_snapshot ty) es"

lemma filter_oldest:
  "distinct (map fst bs) \<Longrightarrow> filter (\<lambda>e. fst e \<notin> set (map fst (take k bs))) bs = drop k bs"
proof -
  assume d: "distinct (map fst bs)"
  have "distinct (map fst (take k bs @ drop k bs))" using d by simp
  then have dis: "set (map fst (take k bs)) \<inter> set (map fst (drop k bs)) = {}"
    by (simp only: map_append distinct_append)
  have "filter (\<lambda>e. fst e \<notin> set (map fst (take k bs))) (take k bs @ drop k bs) = drop k bs"
    unfolding filter_append using dis by (auto simp: filter_empty_conv filter_id_conv) 
  then show ?thesis by (simp only: append_take_drop_id)
qed

lemma sort_key_listing: "dir_wf es \<Longrightarrow> sort_key fst (snaps ty es) = snaps ty es"
proof -
  assume "dir_wf es"
  then have "sorted (map fst (snaps ty es))"
    unfolding snaps_def dir_wf_def strict_sorted_iff by (intro sorted_filter) simp
  then show ?thesis by (rule sort_key_id_if_sorted)
qed

lemma node_at_entry:
  "fs_wf w \<Longrightarrow> tree w p = Some es \<Longrightarrow> (n, x) \<in> set es \<Longrightarrow> node_at w (p @ [n]) = Some x"
  by (simp add: node_at_snoc dir_wf_distinct fs_wfD(1))

lemma enforce_retention_spec:
  assumes "enforce_retention d ty limit w = (r, w')" "d \<noteq> []" "fs_wf w"
    and p: "resolve (cwd w) d = p" "tree w p = Some es" and lim: "0 \<le> limit"
  shows "changes w w' (children p (fst ` set (snaps ty es)))"
    and "r = Inr () \<Longrightarrow> \<exists>es'. tree w' p = Some es' \<and> filter (\<lambda>e. \<not> is_snapshot ty e) es' = filter (\<lambda>e. \<not> is_snapshot ty e) es
      \<and> snaps ty es' = drop (length (snaps ty es) - nat limit) (snaps ty es)"
proof -
  let ?bs = "snaps ty es"
  let ?k = "length ?bs - nat limit"
  let ?ns = "map fst (take ?k ?bs)"
  have wf: "dir_wf es" using fs_wfD(1) [OF assms(3) p(2)] .
  have d: "distinct (map fst ?bs)" unfolding snaps_def using dir_wf_distinct [OF wf] by (rule distinct_map_filter)
  have dn: "distinct ?ns" using d by (simp flip: take_map)
  have sub: "set ?ns \<subseteq> fst ` set ?bs" by (auto dest: in_set_takeD)
  have ok: "\<forall>n \<in> set ?ns. name_ok n \<and> node_at w (p @ [n]) \<noteq> Some SubDir"
  proof
    fix n assume "n \<in> set ?ns"
    then obtain x where x: "(n, x) \<in> set es" "is_snapshot ty (n, x)"
      using sub by (auto simp: snaps_def)
    with node_at_entry [OF assms(3) p(2) x(1)] show "name_ok n \<and> node_at w (p @ [n]) \<noteq> Some SubDir"
      by (auto simp: is_snapshot_iff snapshot_name_ok)
  qed
  have rest: "filter P (filter (\<lambda>e. fst e \<notin> set ?ns) es) = filter P es" if "\<And>e. P e \<longleftrightarrow> \<not> is_snapshot ty e" for P
  proof -
    have "\<not> P e" if "e \<in> set es" "fst e \<in> set ?ns" for e
    proof -
      from that(2) obtain x where "(fst e, x) \<in> set es" "is_snapshot ty (fst e, x)"
        using sub by (auto simp: snaps_def)
      moreover from this that(1) dir_wf_distinct [OF wf] have "snd e = x"
        by (metis eq_key_imp_eq_value prod.collapse)
      ultimately show ?thesis using \<open>\<And>e. P e \<longleftrightarrow> _\<close> by (metis prod.collapse)
    qed
    then show ?thesis by (auto simp: filter_filter intro!: filter_cong)
  qed
  have snp: "snaps ty (filter (\<lambda>e. fst e \<notin> set ?ns) es) = drop ?k ?bs"
    using filter_oldest [OF d, of ?k] by (simp add: snaps_def filter_filter conj_commute)
  have "changes w w' (children p (fst ` set ?bs)) \<and> (r = Inr () \<longrightarrow> (\<exists>es'. tree w' p = Some es'
      \<and> filter (\<lambda>e. \<not> is_snapshot ty e) es' = filter (\<lambda>e. \<not> is_snapshot ty e) es \<and> snaps ty es' = drop ?k ?bs))"
  proof (cases "now_fault w = None")
    case False
    then have "w' = tock w" "r \<noteq> Inr ()" using assms(1)
      by (auto simp: enforce_retention_def os_read_dir_def Let_def split: option.splits)
    then show ?thesis by simp
  next
    case True
    then have rd: "os_read_dir d w = (Inr es, tock w)" using p by (simp add: os_read_dir_def)
    show ?thesis
    proof (cases "int (length ?bs) \<le> limit")
      case True
      with rd assms(1) have "w' = tock w" "r = Inr ()"
        by (auto simp: enforce_retention_def snaps_def)
      with True p(2) show ?thesis by simp
    next
      case False
      then have k: "nat (int (length ?bs) - limit) = ?k" using lim by simp
      have ro: "remove_oldest d ?ns (tock w) = (r, w')"
        using False rd assms(1) sort_key_listing [OF wf, of ty] k
        by (auto simp: enforce_retention_def snaps_def Let_def)
      have "changes (tock w) w' (children p (set ?ns))
          \<and> (r = Inr () \<longrightarrow> tree w' p = Some (filter (\<lambda>e. fst e \<notin> set ?ns) es))"
        by (rule remove_oldest_spec [OF ro assms(2) _ dn]) (use p ok in auto)
      moreover from this have "changes w w' (children p (fst ` set ?bs))"
        using changes_trans_same [of w "tock w" "children p (fst ` set ?bs)"] changes_mono [OF _ children_mono [OF sub]]
        by auto
      ultimately show ?thesis using rest [of "\<lambda>e. \<not> is_snapshot ty e"] snp by auto
    qed
  qed
  then show "changes w w' (children p (fst ` set ?bs))"
    "r = Inr () \<Longrightarrow> \<exists>es'. tree w' p = Some es' \<and> filter (\<lambda>e. \<not> is_snapshot ty e) es' = filter (\<lambda>e. \<not> is_snapshot ty e) es
      \<and> snaps ty es' = drop (length (snaps ty es) - nat limit) (snaps ty es)"
    by auto
qed

subsection \<open>Lemmas: the copy\<close>

lemma io_copy_changes: "io_copy dst src w = (r, w') \<Longrightarrow> changes w w' {resolve (cwd w) dst}"
  by (auto simp: io_copy_def dest: os_write_changes split: option.splits node.splits)

lemma io_copy_Inr:
  assumes "io_copy dst src w = (Inr u, w')" "node_at w (resolve (cwd w) src) = Some (Reg c m)"
    and "node_at w (resolve (cwd w) dst) = Some (Reg [] m')"
  shows "node_at w' (resolve (cwd w) dst) = Some (Reg c m')"
  using os_write_Inr [of dst c w u w' "[]" m'] assms by (simp add: io_copy_def)

lemma copy_file_changes:
  assumes "copy_file src dst w = (r, w')"
  shows "changes w w' {resolve (cwd w) dst}"
proof -
  obtain r1 w1 where 1: "os_open src w = (r1, w1)" by fastforce
  obtain r2 w2 where 2: "os_create dst w1 = (r2, w2)" by fastforce
  obtain r3 w3 where 3: "io_copy dst src w2 = (r3, w3)" by fastforce
  have w1: "w1 = tock w" using os_open_pair [OF 1] .
  have c2: "changes w w2 {resolve (cwd w) dst}"
    using os_create_changes [OF 2] changes_trans_same [of w w1] by (simp add: w1)
  have c3: "changes w w3 {resolve (cwd w) dst}"
    using changes_trans_same [OF c2] io_copy_changes [OF 3] by (simp add: resolve_same [OF c2])
  show ?thesis
    using assms 1 2 3 w1 c2 c3 by (cases r1; cases r2) (auto simp: copy_file_def Let_def)
qed

lemma copy_file_Inr:
  assumes "copy_file src dst w = (Inr u, w')"
    and "node_at w (resolve (cwd w) src) = Some (Reg c m)" "resolve (cwd w) src \<noteq> resolve (cwd w) dst"
  shows "\<exists>m'. node_at w' (resolve (cwd w) dst) = Some (Reg c m')"
proof -
  obtain r1 w1 where 1: "os_open src w = (r1, w1)" by fastforce
  obtain r2 w2 where 2: "os_create dst w1 = (r2, w2)" by fastforce
  obtain r3 w3 where 3: "io_copy dst src w2 = (r3, w3)" by fastforce
  have w1: "w1 = tock w" using os_open_pair [OF 1] .
  obtain u1 u2 where r: "r1 = Inr u1" "r2 = Inr u2" "r3 = Inr u" and w': "w' = tock (tock w3)"
    using assms(1) 1 2 3 by (cases r1; cases r2) (auto simp: copy_file_def Let_def)
  have c2: "changes w w2 {resolve (cwd w) dst}"
    using os_create_changes [OF 2] changes_trans_same [of w w1] by (simp add: w1)
  obtain m' where n2: "node_at w2 (resolve (cwd w) dst) = Some (Reg [] m')"
    using os_create_Inr [OF 2 [unfolded r(2)]] by (auto simp: w1)
  have s2: "node_at w2 (resolve (cwd w) src) = Some (Reg c m)"
    using assms(2,3) by (simp add: changes_node [OF c2])
  have "node_at w3 (resolve (cwd w) dst) = Some (Reg c m')"
    using io_copy_Inr [OF 3 [unfolded r(3)]] n2 s2 by (simp add: resolve_same [OF c2])
  then show ?thesis by (simp add: w')
qed

subsection \<open>Lemmas: where overlays and snapshots live\<close>

definition overlay_name :: "(string \<Rightarrow> string) \<Rightarrow> string \<Rightarrow> string \<Rightarrow> string" where
  "overlay_name L ty dn = ty @ ''-'' @ domain_slug L dn @ ''.conf''"

definition overlay_at :: "('a) proc_scheme \<Rightarrow> string \<Rightarrow> string \<Rightarrow> path" where
  "overlay_at w ty dn = resolve (cwd w) (managed_dir (env w)) @ [overlay_name (ulower w) ty dn]"

definition backups_at :: "('a) proc_scheme \<Rightarrow> string \<Rightarrow> path" where
  "backups_at w dn = resolve (cwd w) (backup_dir_path (ulower w) (backup_dir (env w)) dn)"

definition snapshot_paths :: "('a) proc_scheme \<Rightarrow> string \<Rightarrow> string \<Rightarrow> path set" where
  "snapshot_paths w ty dn = children (backups_at w dn) (range (\<lambda>ts. snapshot_name ts ty))"

lemma file_type_no_dot: "ty \<in> file_types \<Longrightarrow> CHR ''.'' \<notin> set ty \<and> CHR ''/'' \<notin> set ty"
  by (auto simp: file_types_def file_type_defs)

lemma overlay_name_ok:
  assumes "ty \<in> file_types"
  shows "name_ok (overlay_name L ty dn)"
proof -
  have "CHR ''/'' \<notin> set (overlay_name L ty dn)"
    using file_type_no_dot [OF assms] slug_ok_no_slash [OF slug_ok_domain_slug, of L dn]
    by (auto simp: overlay_name_def)
  moreover have "length (overlay_name L ty dn) > 2" by (simp add: overlay_name_def)
  then have "overlay_name L ty dn \<noteq> ''.''" "overlay_name L ty dn \<noteq> ''..''" "overlay_name L ty dn \<noteq> []" by auto
  ultimately show ?thesis by (simp add: name_ok_def)
qed

lemma overlay_path_form:
  assumes "ty \<in> file_types"
  shows "overlay_path L mdir ty dn = Inr (mdir @ ''/'' @ overlay_name L ty dn)"
  using assms
  by (auto simp: file_types_def overlay_path_def waf_config_path_def exclusions_config_path_def
      ip_rules_config_path_def overlay_name_def file_type_defs)

lemma resolve_overlay:
  assumes "ty \<in> file_types"
  shows "resolve (cwd w) (managed_dir (env w) @ ''/'' @ overlay_name (ulower w) ty dn) = overlay_at w ty dn"
    "resolve (cwd w) (filepath_join [managed_dir (env w), overlay_name (ulower w) ty dn]) = overlay_at w ty dn"
  using resolve_slash_name [OF overlay_name_ok [OF assms] dirs_not_Nil(1)]
    resolve_join_name [OF overlay_name_ok [OF assms] dirs_not_Nil(1)]
  by (simp_all add: overlay_at_def)

text \<open>Overlays of two domains with the same slug are one file, others are distinct files.\<close>

lemma overlay_name_eq:
  "ty \<in> file_types \<Longrightarrow> ty' \<in> file_types \<Longrightarrow>
     overlay_name L ty dn = overlay_name L ty' dn' \<longleftrightarrow> ty = ty' \<and> domain_slug L dn = domain_slug L dn'"
  by (auto simp: file_types_def file_type_defs overlay_name_def)

text \<open>The dot before a snapshot's type keeps it apart from every overlay.\<close>

lemma overlay_name_not_snapshot:
  assumes "ty \<in> file_types" "ty' \<in> file_types"
  shows "overlay_name L ty dn \<noteq> snapshot_name ts ty'"
proof
  assume "overlay_name L ty dn = snapshot_name ts ty'"
  then have "(ty @ ''-'' @ domain_slug L dn) @ ''.conf'' = (ts @ ''.'' @ ty') @ ''.conf''"
    by (simp add: overlay_name_def snapshot_name_def)
  then have "CHR ''.'' \<in> set (ty @ ''-'' @ domain_slug L dn)" by (simp only: append_same_eq) simp
  then show False
    using file_type_no_dot [OF assms(1)] slug_ok_no_slash [OF slug_ok_domain_slug, of L dn] by auto
qed

lemma overlay_not_snapshot_path:
  "ty \<in> file_types \<Longrightarrow> ty' \<in> file_types \<Longrightarrow> overlay_at w ty dn \<notin> snapshot_paths w' ty' dn'"
  by (auto simp: overlay_at_def snapshot_paths_def overlay_name_not_snapshot)

lemma temp_not_snapshot: "temp_name b k \<noteq> snapshot_name ts ty"
proof
  assume e: "temp_name b k = snapshot_name ts ty"
  have "is_digit (last (temp_name b k))"
    using nat_digits_digit [of "last (nat_digits k)" k] by (simp add: temp_name_def)
  then show False unfolding e by (simp add: snapshot_name_def is_digit_def less_eq_char_def)
qed

lemma backup_dir_path_not_Nil [simp]: "backup_dir_path L (backup_dir e) dn \<noteq> []"
  by (simp add: backup_dir_path_def filepath_join2)

lemma changes_at:
  assumes "changes w w' K"
  shows "overlay_at w' ty dn = overlay_at w ty dn" "backups_at w' dn = backups_at w dn"
    "snapshot_paths w' ty dn = snapshot_paths w ty dn"
  using changes_fields [OF assms] changes_proc [OF assms]
  by (simp_all add: overlay_at_def backups_at_def snapshot_paths_def)

subsection \<open>Lemmas: taking a snapshot\<close>

lemma stamp_name_ok:
  assumes "ty \<in> file_types"
  shows "name_ok (snapshot_name (format_stamp t) ty)"
proof -
  have "list_all stamp_char (format_stamp t)"
    by (simp add: format_stamp_def Let_def split: prod.split)
  moreover have "\<not> stamp_char CHR ''/''" by (simp add: stamp_char_def is_digit_def less_eq_char_def)
  ultimately have "CHR ''/'' \<notin> set (snapshot_name (format_stamp t) ty)"
    using assms by (auto simp: snapshot_name_def list_all_iff file_types_def file_type_defs)
  moreover have "length (snapshot_name (format_stamp t) ty) > 2" by (simp add: snapshot_name_def)
  then have "snapshot_name (format_stamp t) ty \<noteq> ''.''" "snapshot_name (format_stamp t) ty \<noteq> ''..''"
    "snapshot_name (format_stamp t) ty \<noteq> []" by auto
  ultimately show ?thesis by (simp add: name_ok_def)
qed

text \<open>What a step may do outside a set of paths: keep every node, or make a directory.\<close>

definition keeps_nodes :: "('a) fsys_scheme \<Rightarrow> ('a) fsys_scheme \<Rightarrow> path set \<Rightarrow> bool" where
  "keeps_nodes w w' S \<longleftrightarrow>
     (\<forall>q. q \<notin> S \<longrightarrow> node_at w q \<noteq> None \<longrightarrow> node_at w' q = node_at w q) \<and>
     (\<forall>q. q \<notin> S \<longrightarrow> node_at w q = None \<longrightarrow> node_at w' q = None \<or> node_at w' q = Some SubDir)"

lemma keeps_nodes_changes: "changes w w' S \<Longrightarrow> keeps_nodes w w' S"
  by (simp add: keeps_nodes_def changes_node)

lemma keeps_nodes_trans: "keeps_nodes w w' S \<Longrightarrow> keeps_nodes w' w'' S \<Longrightarrow> keeps_nodes w w'' S"
  unfolding keeps_nodes_def by (metis option.distinct(1))

definition backup_area :: "('a) proc_scheme \<Rightarrow> string \<Rightarrow> string \<Rightarrow> path set" where
  "backup_area w ty dn = {q. \<exists>k\<ge>1. q = take k (backups_at w dn)} \<union> snapshot_paths w ty dn"

text \<open>
  \<open>Backup\<close> as one step: without an overlay it does nothing; with one, it adds the snapshot named
  by the clock to the listing and drops the oldest of the type beyond the limit.
\<close>

definition after_backup :: "string \<Rightarrow> int \<Rightarrow> string \<Rightarrow> node \<Rightarrow> dir \<Rightarrow> dir \<Rightarrow> bool" where
  "after_backup ty keep name x es es' \<longleftrightarrow>
     (let es1 = dir_put name x es in
      filter (\<lambda>e. \<not> is_snapshot ty e) es' = filter (\<lambda>e. \<not> is_snapshot ty e) es1 \<and>
      snaps ty es' = drop (length (snaps ty es1) - nat keep) (snaps ty es1))"

definition backup_name :: "('a) proc_scheme \<Rightarrow> string \<Rightarrow> string" where
  "backup_name w ty = snapshot_name (format_stamp (utc (clock w (tick w + 2)))) ty"

lemma snoc_not_take: "xs @ [x] \<noteq> take j xs"
proof
  assume "xs @ [x] = take j xs"
  then have "length (xs @ [x]) = length (take j xs)" by simp
  then show False by simp
qed

lemma backup_run:
  assumes "backup dn ty w = (r, w')" "ty \<in> file_types" "fs_wf w"
  shows "changes w w' (backup_area w ty dn) \<and> keeps_nodes w w' (snapshot_paths w ty dn)
    \<and> (node_at w (overlay_at w ty dn) = None \<longrightarrow> w' = tock w)
    \<and> (\<forall>c m. r = Inr () \<longrightarrow> node_at w (overlay_at w ty dn) = Some (Reg c m) \<longrightarrow>
        (\<exists>m'. tree w' (backups_at w dn) \<noteq> None \<and>
          after_backup ty (backup_keep (env w)) (backup_name w ty) (Reg c m')
            (listing w (backups_at w dn)) (listing w' (backups_at w dn))))"
proof -
  let ?src = "filepath_join [managed_dir (env w), ty @ ''-'' @ domain_slug (ulower w) dn @ ''.conf'']"
  let ?o = "overlay_at w ty dn" and ?B = "backups_at w dn" and ?S = "snapshot_paths w ty dn"
  let ?d = "backup_dir_path (ulower w) (backup_dir (env w)) dn" and ?n = "backup_name w ty"
  have src: "resolve (cwd w) ?src = ?o"
    using resolve_overlay(2) [OF assms(2)] by (simp add: overlay_name_def)
  obtain r1 w1 where 1: "os_stat ?src w = (r1, w1)" by fastforce
  have w1: "w1 = tock w" using os_stat_pair [OF 1] .
  show ?thesis
  proof (cases r1)
    case (Inl e)
    then have "w' = tock w" using assms(1) 1 w1 by (auto simp: backup_def Let_def split: if_splits)
    moreover have "r \<noteq> Inr ()" if "node_at w ?o = Some (Reg c m)" for c m
      using assms(1) 1 Inl src that
      by (auto simp: backup_def Let_def os_stat_def split: option.splits if_splits)
    ultimately show ?thesis by (auto simp: keeps_nodes_changes)
  next
    case (Inr nd)
    have oex: "node_at w ?o \<noteq> None"
      using 1 Inr src by (auto simp: os_stat_def Let_def split: option.splits)
    obtain r2 w2 where 2: "os_mkdir_all ?d w1 = (r2, w2)" by fastforce
    have wf1: "fs_wf w1" using assms(3) w1 by simp
    have B1: "resolve (cwd w1) ?d = ?B" by (simp add: w1 backups_at_def)
    note mk = os_mkdir_all_spec [OF wf1 2, unfolded B1]
    have c2: "changes w w2 {q. \<exists>k\<ge>1. q = take k ?B}"
      using mk(1) changes_trans_same [of w w1] by (simp add: w1)
    have k2: "keeps_nodes w w2 ?S" unfolding keeps_nodes_def using mk(3,4) by (auto simp: w1)
    have wf2: "fs_wf w2" using changes_wf [OF c2 assms(3)] .
    show ?thesis
    proof (cases r2)
      case (Inl e)
      then have "w' = w2" "r \<noteq> Inr ()" using assms(1) 1 2 Inr \<open>r1 = Inr nd\<close> by (auto simp: backup_def Let_def)
      with c2 k2 oex show ?thesis
        by (auto simp: backup_area_def elim: changes_mono)
    next
      case r2: (Inr u2)
      let ?dst = "filepath_join [?d, ?n]"
      have tk: "tick w2 = tick w + 2" using os_mkdir_all_tick [OF 2] w1 by simp
      have nm: "format_stamp (utc (clock w2 (tick w2))) @ ''.'' @ ty @ ''.conf'' = ?n"
        by (simp add: backup_name_def snapshot_name_def tk changes_fields [OF c2])
      obtain r4 w4 where 4: "copy_file ?src ?dst (tock w2) = (r4, w4)" by fastforce
      have bk: "backup dn ty w = (case r4 of
            Inl e \<Rightarrow> (Inl (Errorf ''error copying backup: %w'' [] [] (Some (OsErr e))), w4)
          | Inr _ \<Rightarrow> enforce_retention ?d ty (backup_keep (env w)) w4)"
        using 1 2 4 \<open>r1 = Inr nd\<close> r2 nm by (simp add: backup_def Let_def time_now_def split: sum.split)
      have B2: "resolve (cwd w2) ?d = ?B" using B1 resolve_same [OF c2] by (simp add: w1)
      have nok: "name_ok ?n" unfolding backup_name_def by (rule stamp_name_ok [OF assms(2)])
      have dst: "resolve (cwd w2) ?dst = ?B @ [?n]" using B2 nok by (simp add: resolve_join_name)
      have nS: "?B @ [?n] \<in> ?S" by (auto simp: snapshot_paths_def backup_name_def)
      have c4: "changes w2 w4 {?B @ [?n]}"
        using copy_file_changes [OF 4] changes_trans_same [of w2 "tock w2"] by (simp add: dst)
      have wf4: "fs_wf w4" using changes_wf [OF c4 wf2] .
      have k4: "keeps_nodes w w4 ?S"
        using keeps_nodes_trans [OF k2] keeps_nodes_changes [OF changes_mono [OF c4]] nS by simp
      have "changes w w4 ({q. \<exists>k\<ge>1. q = take k ?B} \<union> {?B @ [?n]})" by (rule changes_trans [OF c2 c4])
      then have c4': "changes w w4 (backup_area w ty dn)"
        by (rule changes_mono) (use nS in \<open>auto simp: backup_area_def\<close>)
      show ?thesis
      proof (cases r4)
        case (Inl e)
        then have "w' = w4" "r \<noteq> Inr ()" using assms(1) bk by auto
        with c4' k4 oex show ?thesis by auto
      next
        case r4: (Inr u4)
        have er: "enforce_retention ?d ty (backup_keep (env w)) w4 = (r, w')" using assms(1) bk r4 by simp
        have t4: "tree w4 ?B \<noteq> None"
          using mk(2) r2 fs_wfD(2) [OF wf2] changes_tree_Some [OF c4] by auto
        have B4: "resolve (cwd w4) ?d = ?B" using B2 resolve_same [OF c4] by simp
        note ret = enforce_retention_spec [OF er _ wf4 B4 tree_listing [OF t4], simplified]
        have lim: "0 \<le> backup_keep (env w)" using backup_keep_pos [of "env w"] by simp
        have sub: "children ?B (fst ` set (snaps ty (listing w4 ?B))) \<subseteq> ?S"
        proof -
          have "\<exists>ts. n = snapshot_name ts ty" if "(n, x) \<in> set (snaps ty (listing w4 ?B))" for n x
            using that by (auto simp: snaps_def is_snapshot_iff)
          then show ?thesis unfolding snapshot_paths_def by (fastforce simp: children_def)
        qed
        have c5: "changes w4 w' ?S" using ret(1) [OF lim] sub by (rule changes_mono)
        have "changes w w' (backup_area w ty dn \<union> ?S)" by (rule changes_trans [OF c4' c5])
        then have c6: "changes w w' (backup_area w ty dn)"
          by (rule changes_mono) (auto simp: backup_area_def)
        have k6: "keeps_nodes w w' ?S" using keeps_nodes_trans [OF k4 keeps_nodes_changes [OF c5]] .
        have "\<exists>m'. tree w' ?B \<noteq> None \<and> after_backup ty (backup_keep (env w)) ?n (Reg c m') (listing w ?B) (listing w' ?B)"
          if ok: "r = Inr ()" and ov: "node_at w ?o = Some (Reg c m)" for c m
        proof -
          have src2: "resolve (cwd w2) ?src = ?o" using src resolve_same [OF c2] by simp
          have od: "?o \<noteq> ?B @ [?n]" using overlay_not_snapshot_path [OF assms(2) assms(2)] nS by metis
          have "node_at w2 ?o = Some (Reg c m)" using mk(3) [of ?o] ov w1 by simp
          then obtain m' where m': "node_at w4 (?B @ [?n]) = Some (Reg c m')"
            using copy_file_Inr [OF 4 [unfolded r4]] src2 dst od by auto
          have "node_at w4 (?B @ [k]) = map_of (dir_put ?n (Reg c m') (listing w ?B)) k" for k
          proof (cases "k = ?n")
            case False
            have "node_at w2 (?B @ [k]) = node_at w (?B @ [k])" by (intro changes_node [OF c2]) (simp add: snoc_not_take)
            moreover have "node_at w4 (?B @ [k]) = node_at w2 (?B @ [k])"
              using False by (intro changes_node [OF c4]) auto
            ultimately show ?thesis using False by (simp add: node_at_listing)
          qed (simp add: m')
          then have l4: "listing w4 ?B = dir_put ?n (Reg c m') (listing w ?B)"
            by (intro listing_eqI wf4 dir_wf_put listing_wf assms(3)) auto
          from ret(2) [OF lim] ok obtain es' where es': "tree w' ?B = Some es'"
            "filter (\<lambda>e. \<not> is_snapshot ty e) es' = filter (\<lambda>e. \<not> is_snapshot ty e) (listing w4 ?B)"
            "snaps ty es' = drop (length (snaps ty (listing w4 ?B)) - nat (backup_keep (env w))) (snaps ty (listing w4 ?B))"
            by auto
          have "listing w' ?B = es'" using es'(1) by (simp add: listing_def)
          with es' show ?thesis unfolding after_backup_def Let_def
            by (intro exI [of _ m']) (simp flip: l4)
        qed
        with c6 k6 oex show ?thesis by auto
      qed
    qed
  qed
qed

lemma backup_keeps_overlay:
  assumes "backup dn ty w = (r, w')" "ty \<in> file_types" "fs_wf w"
  shows "node_at w' (overlay_at w ty dn) = node_at w (overlay_at w ty dn)"
proof -
  note b = backup_run [OF assms]
  have "overlay_at w ty dn \<notin> snapshot_paths w ty dn" by (rule overlay_not_snapshot_path [OF assms(2,2)])
  with b show ?thesis
    by (cases "node_at w (overlay_at w ty dn)") (auto simp: keeps_nodes_def)
qed

lemma snaps_after:
  assumes "after_backup ty keep name x es es'" "0 < keep" "dir_wf es" "is_snapshot ty (name, x)"
    and newest: "\<And>n y. (n, y) \<in> set (snaps ty es) \<Longrightarrow> n \<le> name"
  shows "(name, x) \<in> set (snaps ty es')"
proof -
  let ?s1 = "snaps ty (dir_put name x es)"
  have wf1: "dir_wf (dir_put name x es)" using assms(3) by (rule dir_wf_put)
  have mem: "(name, x) \<in> set (dir_put name x es)"
    using dir_wf_distinct [OF wf1] by (simp flip: map_of_eq_Some_iff)
  have ord: "y = (name, x) \<or> fst y < name" if "y \<in> set ?s1" for y
  proof -
    obtain n z where y: "y = (n, z)" by (cases y)
    with that have z: "(n, z) \<in> set (dir_put name x es)" "is_snapshot ty (n, z)"
      by (auto simp: snaps_def)
    have m: "map_of (dir_put name x es) n = Some z"
      by (rule map_of_is_SomeI [OF dir_wf_distinct [OF wf1] z(1)])
    show ?thesis
    proof (cases "n = name")
      case False
      then have "(n, z) \<in> set es" using m by (auto dest: map_of_SomeD)
      with newest [of n z] z(2) y False show ?thesis by (simp add: snaps_def)
    qed (use m y in simp)
  qed
  have mem1: "(name, x) \<in> set ?s1" using mem assms(4) by (simp add: snaps_def)
  have srt: "sorted_wrt (\<lambda>a b. fst a < fst b) ?s1"
    using wf1 by (simp add: snaps_def dir_wf_def sorted_wrt_map sorted_wrt_filter)
  have l: "?s1 \<noteq> []" "last ?s1 = (name, x)"
  proof -
    obtain a b where ab: "?s1 = a @ (name, x) # b" using mem1 by (meson split_list)
    have "b = []"
    proof (rule ccontr)
      assume "b \<noteq> []"
      then obtain y c where bc: "b = y # c" by (cases b) auto
      have "name < fst y" using srt unfolding ab bc by (simp add: sorted_wrt_append)
      moreover have "y \<in> set ?s1" unfolding ab bc by simp
      ultimately show False using ord [of y] by (metis fst_conv less_asym less_irrefl)
    qed
    then show "?s1 \<noteq> []" "last ?s1 = (name, x)" unfolding ab by simp_all
  qed
  let ?k = "length ?s1 - nat keep"
  have "?k < length ?s1" using l(1) assms(2) by simp
  then have "last (drop ?k ?s1) = (name, x)" "drop ?k ?s1 \<noteq> []" using l by auto
  then have "(name, x) \<in> set (drop ?k ?s1)" by (metis last_in_set)
  with assms(1) show ?thesis by (simp add: after_backup_def Let_def)
qed

lemma snaps_after_bounds:
  assumes "after_backup ty keep name x es es'" "0 < keep" "dir_wf es"
  shows "int (length (snaps ty es')) \<le> keep"
    and "a \<in> set (snaps ty (dir_put name x es)) \<Longrightarrow> a \<notin> set (snaps ty es') \<Longrightarrow>
      b \<in> set (snaps ty es') \<Longrightarrow> fst a < fst b"
    and "set (snaps ty es') \<subseteq> insert (name, x) (set es)"
proof -
  let ?s1 = "snaps ty (dir_put name x es)" and ?k = "length (snaps ty (dir_put name x es)) - nat keep"
  have e: "snaps ty es' = drop ?k ?s1" using assms(1) by (simp add: after_backup_def Let_def)
  show "int (length (snaps ty es')) \<le> keep" using assms(2) by (simp add: e)
  have "sorted_wrt (\<lambda>a b. fst a < fst b) (take ?k ?s1 @ drop ?k ?s1)"
    using dir_wf_put [OF assms(3), of name x]
    by (simp add: snaps_def dir_wf_def sorted_wrt_map sorted_wrt_filter)
  then have "\<forall>a \<in> set (take ?k ?s1). \<forall>b \<in> set (drop ?k ?s1). fst a < fst b"
    unfolding sorted_wrt_append by blast
  moreover assume "a \<in> set ?s1" "a \<notin> set (snaps ty es')" "b \<in> set (snaps ty es')"
  moreover from this have "a \<in> set (take ?k ?s1)"
    unfolding e by (metis Un_iff append_take_drop_id set_append)
  ultimately show "fst a < fst b" unfolding e by blast
next
  have "set (dir_put name x es) \<subseteq> insert (name, x) (set es)"
    by (induction name x es rule: dir_put.induct) auto
  then show "set (snaps ty es') \<subseteq> insert (name, x) (set es)"
    using assms(1) set_drop_subset by (fastforce simp: after_backup_def Let_def snaps_def)
qed

subsection \<open>Lemmas: restoring a snapshot\<close>

lemma atomic_write_overlay:
  assumes "atomic_write (managed_dir (env w) @ ''/'' @ overlay_name (ulower w) ty dn) bytes w = (r, w')"
    and "ty \<in> file_types"
  shows "\<exists>t \<in> temps (overlay_at w ty dn). changes w w' {overlay_at w ty dn, t} \<and> (r = Inr () \<longrightarrow> node_at w' t = None)"
    and "r = Inr () \<Longrightarrow> node_at w' (overlay_at w ty dn) = Some (Reg bytes 420)"
    and "r = Inl e \<Longrightarrow> node_at w' (overlay_at w ty dn) = node_at w (overlay_at w ty dn)"
  by (fact atomic_write_spec [OF assms(1) refl overlay_name_ok [OF assms(2)] dirs_not_Nil(1),
        unfolded resolve_overlay(1) [OF assms(2)]])+

lemma restore_backup_spec:
  assumes "restore_backup dn sid w = (r, w')" "sid = snapshot_name ts ty" "stamp_ok ts" "ty \<in> file_types"
  shows "\<exists>t \<in> temps (overlay_at w ty dn). changes w w' {overlay_at w ty dn, t}"
    and "r = Inr () \<Longrightarrow> \<exists>c m. node_at w (backups_at w dn @ [sid]) = Some (Reg c m)
      \<and> node_at w' (overlay_at w ty dn) = Some (Reg c 420)"
    and "r = Inl e \<Longrightarrow> node_at w' (overlay_at w ty dn) = node_at w (overlay_at w ty dn)"
proof -
  let ?o = "overlay_at w ty dn"
  let ?f = "filepath_join [backup_dir_path (ulower w) (backup_dir (env w)) dn, sid]"
  have ty: "backup_type sid = Inr ty" using assms(2-4) by (auto simp: backup_type_Inr)
  have f: "resolve (cwd w) ?f = backups_at w dn @ [sid]"
    using assms(2-4) by (simp add: resolve_join_name snapshot_name_ok backups_at_def)
  obtain r1 w1 where 1: "os_read_file ?f w = (r1, w1)" by fastforce
  have w1: "w1 = tock w" using os_read_file_pair [OF 1] .
  have ex: "\<exists>t. t \<in> temps ?o" by (auto simp: temps_iff)
  have "(\<exists>t \<in> temps ?o. changes w w' {?o, t}) \<and>
    (r = Inr () \<longrightarrow> (\<exists>c m. node_at w (backups_at w dn @ [sid]) = Some (Reg c m) \<and> node_at w' ?o = Some (Reg c 420))) \<and>
    (\<forall>e. r = Inl e \<longrightarrow> node_at w' ?o = node_at w ?o)"
  proof (cases r1)
    case (Inl e)
    then have "w' = tock w" "r \<noteq> Inr ()" using assms(1) ty 1 w1
      by (auto simp: restore_backup_def split: if_splits)
    with ex show ?thesis by auto
  next
    case (Inr bytes)
    let ?c = "managed_dir (env w) @ ''/'' @ overlay_name (ulower w) ty dn"
    obtain r2 w2 where 2: "atomic_write ?c bytes w1 = (r2, w2)" by fastforce
    have "(r, w') = (case r2 of Inl e \<Rightarrow> Inl (OsErr e) | Inr _ \<Rightarrow> Inr (), w2)"
      using assms(1) ty 1 2 Inr w1 by (auto simp: restore_backup_def overlay_path_form [OF assms(4)] split: sum.splits)
    moreover obtain m where "node_at w (backups_at w dn @ [sid]) = Some (Reg bytes m)"
      using os_read_file_Inr [OF 1 [unfolded Inr]] f by auto
    moreover have o1: "overlay_at w1 ty dn = ?o" by (simp add: w1 overlay_at_def)
    have a: "atomic_write (managed_dir (env w1) @ ''/'' @ overlay_name (ulower w1) ty dn) bytes w1 = (r2, w2)"
      using 2 by (simp add: w1)
    note aw = atomic_write_overlay [OF a assms(4), unfolded o1]
    have tr: "changes w w2 K" if "changes w1 w2 K" for K
      using that changes_trans_same [of w w1 K w2] by (simp add: w1)
    have "node_at w1 = node_at w" by (simp add: w1)
    ultimately show ?thesis using aw tr by (cases r2) auto
  qed
  then show "\<exists>t \<in> temps ?o. changes w w' {?o, t}"
    "r = Inr () \<Longrightarrow> \<exists>c m. node_at w (backups_at w dn @ [sid]) = Some (Reg c m) \<and> node_at w' ?o = Some (Reg c 420)"
    "r = Inl e \<Longrightarrow> node_at w' ?o = node_at w ?o" by auto
qed

end
