(* ===== verification/Waf.thy ===== *)
theory Waf
  imports Domain Regex
begin

text \<open>
  Package \<open>internal/waf\<close>: the WAF overlay of a domain (\<open>mode.go\<close>) and the overlay of its CRS
  exclusions (\<open>exclusions.go\<close>). A template's output is written out as the lines it produces; the
  only effect of the generators is one reading of the clock.
\<close>

subsection \<open>Mode\<close>

definition waf_lines :: "string \<Rightarrow> string \<Rightarrow> string \<Rightarrow> string \<Rightarrow> string list" where
  "waf_lines hdr md incl audit =
     [managed_line,
      hdr,
      ''coraza_waf {'',
      ''    directives '' @ [backtick],
      ''        Include /etc/caddy/coraza.conf'',
      ''        Include /etc/caddy/owasp-crs/crs-setup.conf'',
      ''        Include /etc/caddy/owasp-crs/rules/*.conf'',
      ''        SecRuleEngine '' @ md,
      ''        Include '' @ incl,
      ''        SecAuditEngine RelevantOnly'',
      ''        SecAuditLog '' @ audit,
      ''        SecAuditLogFormat JSON'',
      ''        SecAuditLogParts ABCDEFGHIJKZ'',
      ''    '' @ [backtick],
      ''}'']"

definition generate_waf_snippet ::
  "site \<Rightarrow> string \<Rightarrow> string \<Rightarrow> ('a) proc_scheme \<Rightarrow> (gerr + string) \<times> ('a) proc_scheme" where
  "generate_waf_snippet st audit incl_dir w =
     (let slug = domain_slug (ulower w) (site_domain st);
          (now, w1) = time_now w
      in (Inr (unlines (waf_lines (header (site_domain st) (site_mode st) now) (site_mode st)
            (filepath_join [incl_dir, ''exclusions-'' @ slug @ ''.conf'']) audit)), w1))"

subsection \<open>Exclusions\<close>

definition exclude_by_id :: string where "exclude_by_id = ''id''"
definition exclude_by_tag :: string where "exclude_by_tag = ''tag''"

record exclusion =
  ex_type :: string
  ex_value :: string
  ex_param :: string

definition tag_byte :: "char \<Rightarrow> bool" where
  "tag_byte c \<longleftrightarrow> is_upper c \<or> is_lower c \<or> is_digit c \<or> c = CHR ''_'' \<or> c = CHR ''-''"

definition exclusion_id_regex :: re where
  "exclusion_id_regex = seqs [BeginText, plus is_digit, EndText]"

definition exclusion_tag_regex :: re where
  "exclusion_tag_regex = seqs [BeginText, plus tag_byte, EndText]"

definition exclusion_param_regex :: re where
  "exclusion_param_regex = seqs [BeginText, plus tag_byte, EndText]"

fun validate_exclusions :: "exclusion list \<Rightarrow> gerr option" where
  "validate_exclusions [] = None"
| "validate_exclusions (ex # exs) =
     (let type_err =
        (if ex_type ex = exclude_by_id then
           (if \<not> match_string exclusion_id_regex (ex_value ex)
            then Some (Errorf ''invalid id exclusion %q: only digits are allowed'' [ex_value ex] [] None)
            else None)
         else if ex_type ex = exclude_by_tag then
           (if \<not> match_string exclusion_tag_regex (ex_value ex)
            then Some (Errorf ''invalid tag exclusion %q'' [ex_value ex] [] None)
            else None)
         else Some (Errorf ''unknown exclusion type %q: only %q or %q are allowed''
             [ex_type ex, exclude_by_id, exclude_by_tag] [] None))
      in case type_err of
           Some e \<Rightarrow> Some e
         | None \<Rightarrow>
             (if ex_param ex \<noteq> [] \<and> \<not> match_string exclusion_param_regex (ex_param ex)
              then Some (Errorf ''invalid exclusion parameter %q'' [ex_param ex] [] None)
              else validate_exclusions exs))"

definition dedupe_key :: "exclusion \<Rightarrow> string" where
  "dedupe_key ex = ex_type ex @ [CHR 0x00] @ ex_value ex @ [CHR 0x00] @ ex_param ex"

fun dedupe_from :: "string set \<Rightarrow> exclusion list \<Rightarrow> exclusion list" where
  "dedupe_from seen [] = []"
| "dedupe_from seen (ex # exs) =
     (if dedupe_key ex \<in> seen then dedupe_from seen exs
      else ex # dedupe_from (insert (dedupe_key ex) seen) exs)"

definition dedupe_exclusions :: "exclusion list \<Rightarrow> exclusion list" where
  "dedupe_exclusions exs = dedupe_from {} exs"

definition id_base :: int where "id_base = 9000001"

fun exclusion_rows :: "int \<Rightarrow> exclusion list \<Rightarrow> (exclusion \<times> int) list" where
  "exclusion_rows next_id [] = []"
| "exclusion_rows next_id (ex # exs) =
     (if ex_param ex \<noteq> [] then (ex, next_id) # exclusion_rows (next_id + 1) exs
      else (ex, 0) # exclusion_rows next_id exs)"

definition row_lines :: "exclusion \<times> int \<Rightarrow> string list" where
  "row_lines row =
     (case row of (ex, i) \<Rightarrow>
       if ex_type ex = ''id'' then
         (if ex_param ex \<noteq> []
          then [''SecRule ARGS:'' @ ex_param ex @ '' '' @ [quot] @ ''@unconditionalMatch'' @ [quot] @ '' ''
                @ [quot] @ ''id:'' @ itoa i @ '',phase:2,pass,nolog,ctl:ruleRemoveById='' @ ex_value ex @ [quot]]
          else [''SecRuleRemoveById '' @ ex_value ex])
       else if ex_type ex = ''tag'' then
         (if ex_param ex \<noteq> []
          then [''SecRule ARGS:'' @ ex_param ex @ '' '' @ [quot] @ ''@unconditionalMatch'' @ [quot] @ '' ''
                @ [quot] @ ''id:'' @ itoa i @ '',phase:2,pass,nolog,ctl:ruleRemoveByTag='' @ ex_value ex @ [quot]]
          else [''SecRuleRemoveByTag '' @ [quot] @ ex_value ex @ [quot]])
       else [])"

definition exclusions_lines :: "string \<Rightarrow> (exclusion \<times> int) list \<Rightarrow> string list" where
  "exclusions_lines hdr rows =
     [managed_line, hdr, []] @
     (if rows = [] then [''# No exclusions configured for this domain.''] else concat (map row_lines rows)) @
     [[]]"

definition generate_exclusions ::
  "site \<Rightarrow> exclusion list \<Rightarrow> ('a) proc_scheme \<Rightarrow> (gerr + string) \<times> ('a) proc_scheme" where
  "generate_exclusions st exs w =
     (case validate_exclusions exs of
        Some e \<Rightarrow> (Inl e, w)
      | None \<Rightarrow>
          (let rows = exclusion_rows id_base (dedupe_exclusions exs);
               (now, w1) = time_now w
           in (Inr (unlines (exclusions_lines (header (site_domain st) [] now) rows)), w1)))"

subsection \<open>Lemmas: validation\<close>

definition tag_ok :: "string \<Rightarrow> bool" where
  "tag_ok s \<longleftrightarrow> s \<noteq> [] \<and> list_all tag_byte s"

definition digits_ok :: "string \<Rightarrow> bool" where
  "digits_ok s \<longleftrightarrow> s \<noteq> [] \<and> list_all is_digit s"

definition exclusion_ok :: "exclusion \<Rightarrow> bool" where
  "exclusion_ok ex \<longleftrightarrow>
     (ex_type ex = ''id'' \<and> digits_ok (ex_value ex) \<or> ex_type ex = ''tag'' \<and> tag_ok (ex_value ex))
     \<and> (ex_param ex = [] \<or> tag_ok (ex_param ex))"

lemma exclusion_regexes:
  "match_string exclusion_id_regex s \<longleftrightarrow> digits_ok s"
  "match_string exclusion_tag_regex s \<longleftrightarrow> tag_ok s"
  "match_string exclusion_param_regex s \<longleftrightarrow> tag_ok s"
  unfolding exclusion_id_regex_def exclusion_tag_regex_def exclusion_param_regex_def match_plus
  by (simp_all add: tag_ok_def digits_ok_def)

lemma validate_exclusions_iff: "validate_exclusions exs = None \<longleftrightarrow> list_all exclusion_ok exs"
  by (induction exs)
    (auto simp: exclusion_ok_def exclude_by_id_def exclude_by_tag_def exclusion_regexes Let_def)

lemma tag_byte_graph [simp]: "tag_byte c \<Longrightarrow> is_graph c \<and> c \<noteq> quot \<and> c \<noteq> CHR '' ''"
  by (auto simp: tag_byte_def char_class_defs less_eq_char_def)

lemma tag_byte_digit: "is_digit c \<Longrightarrow> tag_byte c"
  by (simp add: tag_byte_def)

lemma digits_tag_ok: "digits_ok s \<Longrightarrow> tag_ok s"
  by (auto simp: digits_ok_def tag_ok_def list_all_iff tag_byte_digit)

subsection \<open>Lemmas: duplicates and ids\<close>

lemma dedupe_from_set:
  "dedupe_key ` set (dedupe_from seen exs) = dedupe_key ` set exs - seen
   \<and> set (dedupe_from seen exs) \<subseteq> set exs"
  by (induction seen exs rule: dedupe_from.induct) auto

lemma dedupe_from_distinct: "distinct (map dedupe_key (dedupe_from seen exs))"
proof (induction seen exs rule: dedupe_from.induct)
  case (2 seen ex exs)
  then show ?case using dedupe_from_set [of "insert (dedupe_key ex) seen" exs] by auto
qed simp

lemma exclusion_ok_no_nul:
  assumes "exclusion_ok ex"
  shows "CHR 0x00 \<notin> set (ex_type ex)" "CHR 0x00 \<notin> set (ex_value ex)" "CHR 0x00 \<notin> set (ex_param ex)"
proof -
  have "\<not> tag_byte CHR 0x00" by (simp add: tag_byte_def char_class_defs less_eq_char_def)
  then have t: "CHR 0x00 \<notin> set s" if "tag_ok s" for s using that by (auto simp: tag_ok_def list_all_iff)
  with assms show "CHR 0x00 \<notin> set (ex_type ex)" "CHR 0x00 \<notin> set (ex_value ex)"
    "CHR 0x00 \<notin> set (ex_param ex)"
    by (auto simp: exclusion_ok_def dest: digits_tag_ok)
qed

text \<open>On validated entries the key determines the entry, so duplicates are real duplicates.\<close>

lemma dedupe_key_inj:
  assumes "exclusion_ok a" "exclusion_ok b" "dedupe_key a = dedupe_key b"
  shows "a = b"
proof -
  have parts: "split_on CHR 0x00 (dedupe_key x) = [ex_type x, ex_value x, ex_param x]"
    if "exclusion_ok x" for x
    using exclusion_ok_no_nul [OF that] by (simp add: dedupe_key_def split_on_append split_on_notin)
  from parts [OF assms(1)] parts [OF assms(2)] assms(3) show ?thesis by simp
qed

lemma dedupe_exclusions_set:
  assumes "list_all exclusion_ok exs"
  shows "set (dedupe_exclusions exs) = set exs"
proof -
  have k: "dedupe_key ` set (dedupe_exclusions exs) = dedupe_key ` set exs"
    "set (dedupe_exclusions exs) \<subseteq> set exs"
    using dedupe_from_set [of "{}" exs] by (auto simp: dedupe_exclusions_def)
  have "x \<in> set (dedupe_exclusions exs)" if "x \<in> set exs" for x
  proof -
    from that k(1) obtain y where y: "y \<in> set (dedupe_exclusions exs)" "dedupe_key y = dedupe_key x"
      by (metis (no_types, lifting) imageE imageI)
    then have "y = x" using that k(2) assms by (intro dedupe_key_inj) (auto simp: list_all_iff)
    with y show ?thesis by simp
  qed
  with k(2) show ?thesis by blast
qed

lemma dedupe_exclusions_distinct: "distinct (dedupe_exclusions exs)"
  using dedupe_from_distinct [of "{}" exs] by (simp add: dedupe_exclusions_def distinct_map)

lemma dedupe_exclusions_id:
  "distinct (map dedupe_key exs) \<Longrightarrow> dedupe_exclusions exs = exs"
proof -
  have "distinct (map dedupe_key exs) \<Longrightarrow> dedupe_key ` set exs \<inter> seen = {} \<Longrightarrow> dedupe_from seen exs = exs"
    for seen by (induction exs arbitrary: seen) auto
  from this [of "{}"] show "distinct (map dedupe_key exs) \<Longrightarrow> dedupe_exclusions exs = exs"
    by (simp add: dedupe_exclusions_def)
qed

lemma dedupe_exclusions_ok: "list_all exclusion_ok exs \<Longrightarrow> list_all exclusion_ok (dedupe_exclusions exs)"
  using dedupe_exclusions_set [of exs] by (simp add: list_all_iff)

lemma exclusion_rows_fst [simp]: "map fst (exclusion_rows n exs) = exs"
  by (induction n exs rule: exclusion_rows.induct) auto

text \<open>The rules with a parameter are numbered without gaps, in order.\<close>

lemma exclusion_rows_ids:
  "map snd (filter (\<lambda>r. ex_param (fst r) \<noteq> []) (exclusion_rows n exs)) =
     map (\<lambda>k. n + int k) [0 ..< length (filter (\<lambda>ex. ex_param ex \<noteq> []) exs)]"
proof (induction n exs rule: exclusion_rows.induct)
  case (2 n ex exs)
  have s: "map (\<lambda>k. n + int k) [0 ..< Suc m] = n # map (\<lambda>k. n + 1 + int k) [0 ..< m]" for m
    by (simp add: upt_conv_Cons flip: map_Suc_upt del: upt_Suc)
  show ?case using 2 by (simp add: s del: upt_Suc)
qed simp

lemma exclusion_rows_nonneg: "0 \<le> n \<Longrightarrow> (ex, i) \<in> set (exclusion_rows n exs) \<Longrightarrow> 0 \<le> i"
  by (induction n exs rule: exclusion_rows.induct) (auto split: if_splits)

end
