(* ===== verification/IpNet.thy ===== *)
theory IpNet
  imports Prelude "HOL-Library.Word"
begin

unbundle bit_operations_syntax

text \<open>
  What package \<open>iprules\<close> uses of the standard library's packages \<open>net\<close> and \<open>net/netip\<close>: reading
  an address or a CIDR block, masking it, and printing it in canonical form. An address is its
  bytes, 4 of them or 16, the most significant first.
\<close>

type_synonym ip = "8 word list"

definition v4_prefix :: ip where
  "v4_prefix = replicate 10 0 @ [255, 255]"

text \<open>\<open>IP.To4\<close>.\<close>

definition to4 :: "ip \<Rightarrow> ip option" where
  "to4 a =
     (if length a = 4 then Some a
      else if length a = 16 \<and> take 12 a = v4_prefix then Some (drop 12 a)
      else None)"

subsection \<open>Reading\<close>

text \<open>
  The loop of \<open>parseIPv4Fields\<close>: \<open>sep\<close> says that the previous byte was a dot or that there is
  none, \<open>val\<close> and \<open>n\<close> are the value and the number of digits of the current octet.
\<close>

fun v4_fields :: "bool \<Rightarrow> nat \<Rightarrow> nat \<Rightarrow> ip \<Rightarrow> string \<Rightarrow> ip option" where
  "v4_fields sep val n acc [] = (if length acc < 3 then None else Some (acc @ [word_of_nat val]))"
| "v4_fields sep val n acc (c # cs) =
     (if is_digit c then
        (if n = 1 \<and> val = 0 then None
         else (let v = val * 10 + digit_val c in
           if v > 255 then None else v4_fields False v (n + 1) acc cs))
      else if c = CHR ''.'' then
        (if sep \<or> cs = [] then None
         else if length acc = 3 then None
         else v4_fields True 0 0 (acc @ [word_of_nat val]) cs)
      else None)"

definition hex_digit_val :: "char \<Rightarrow> nat" where
  "hex_digit_val c =
     (if is_digit c then of_char c - 48
      else if CHR ''a'' \<le> c then of_char c - 87
      else of_char c - 55)"

definition hex_val :: "string \<Rightarrow> nat" where
  "hex_val s = foldl (\<lambda>n c. 16 * n + hex_digit_val c) 0 s"

text \<open>
  The main loop of \<open>parseIPv6\<close>: the bytes read, the position of the ellipsis, the text left.
\<close>

function v6_loop :: "ip \<Rightarrow> nat option \<Rightarrow> string \<Rightarrow> (ip \<times> nat option \<times> string) option" where
  "v6_loop b ell s =
     (if length b \<ge> 16 then Some (b, ell, s)
      else
        (let h = takeWhile is_hex s; rest = dropWhile is_hex s; acc = hex_val h;
             b' = b @ [word_of_nat (acc div 256), word_of_nat (acc mod 256)]
         in if length h > 4 \<or> h = [] then None
            else (case rest of
                [] \<Rightarrow> Some (b', ell, [])
              | c # t \<Rightarrow>
                  (if c = CHR ''.'' then
                     (if ell = None \<and> length b \<noteq> 12 \<or> length b + 4 > 16 then None
                      else (case v4_fields True 0 0 [] s of None \<Rightarrow> None | Some f \<Rightarrow> Some (b @ f, ell, [])))
                   else if c \<noteq> CHR '':'' \<or> t = [] then None
                   else if hd t = CHR '':'' then
                     (if ell \<noteq> None then None
                      else if tl t = [] then Some (b', Some (length b'), [])
                      else v6_loop b' (Some (length b')) (tl t))
                   else v6_loop b' ell t))))"
  by pat_completeness auto
termination
proof (relation "measure (\<lambda>(b, ell, s). length s)", goal_cases)
  case (2 b ell s h rest acc b' c t)
  have "length (c # t) \<le> length s" using 2 by (metis length_dropWhile_le)
  then show ?case using 2 by (cases t) auto
next
  case (3 b ell s h rest acc b' c t)
  have "length (c # t) \<le> length s" using 3 by (metis length_dropWhile_le)
  then show ?case by simp
qed simp

declare v6_loop.simps [simp del]

text \<open>\<open>parseIPv6\<close> without its zone.\<close>

definition parse_ipv6 :: "string \<Rightarrow> ip option" where
  "parse_ipv6 s0 =
     (let lead = has_prefix ''::'' s0; s = (if lead then drop 2 s0 else s0) in
      if lead \<and> s = [] then Some (replicate 16 0)
      else (case v6_loop [] (if lead then Some 0 else None) s of
          None \<Rightarrow> None
        | Some (b, ell, rest) \<Rightarrow>
            (if rest \<noteq> [] then None
             else if length b < 16 then
               (case ell of None \<Rightarrow> None
                | Some e \<Rightarrow> Some (take e b @ replicate (16 - length b) 0 @ drop e b))
             else if ell \<noteq> None then None
             else Some b)))"

text \<open>
  \<open>netip.ParseAddr\<close>, an address with a zone refused, as both callers do: the 16-byte form and
  the bit length of the address.
\<close>

definition parse_addr :: "string \<Rightarrow> (ip \<times> nat) option" where
  "parse_addr s =
     (case find (\<lambda>c. c \<in> {CHR ''.'', CHR '':'', CHR ''%''}) s of
        None \<Rightarrow> None
      | Some c \<Rightarrow>
          (if c = CHR ''.'' then map_option (\<lambda>f. (v4_prefix @ f, 32)) (v4_fields True 0 0 [] s)
           else if c = CHR '':'' \<and> CHR ''%'' \<notin> set s then map_option (\<lambda>b. (b, 128)) (parse_ipv6 s)
           else None))"

definition parse_ip :: "string \<Rightarrow> ip option" where
  "parse_ip s = map_option fst (parse_addr s)"

subsection \<open>Masks\<close>

fun cidr_mask :: "nat \<Rightarrow> nat \<Rightarrow> ip" where
  "cidr_mask n 0 = []"
| "cidr_mask n (Suc k) =
     (if n \<ge> 8 then 255 # cidr_mask (n - 8) k else NOT (drop_bit n 255) # cidr_mask 0 k)"

fun count_ones :: "nat \<Rightarrow> 8 word \<Rightarrow> nat \<times> 8 word" where
  "count_ones 0 v = (0, v)"
| "count_ones (Suc k) v =
     (if v AND 128 \<noteq> 0 then (let (n, u) = count_ones k (push_bit 1 v) in (Suc n, u)) else (0, v))"

text \<open>\<open>simpleMaskLength\<close>; \<open>None\<close> stands for -1. A byte has at most 8 leading ones.\<close>

fun simple_mask_length :: "ip \<Rightarrow> nat option" where
  "simple_mask_length [] = Some 0"
| "simple_mask_length (v # m) =
     (if v = 255 then map_option (\<lambda>n. 8 + n) (simple_mask_length m)
      else (let (n, u) = count_ones 8 v in
        if u \<noteq> 0 \<or> list_ex (\<lambda>b. b \<noteq> 0) m then None else Some n))"

text \<open>\<open>IP.Mask\<close>; \<open>None\<close> is the nil slice.\<close>

definition ip_mask :: "ip \<Rightarrow> ip \<Rightarrow> ip option" where
  "ip_mask a m =
     (let m' = (if length m = 16 \<and> length a = 4 \<and> take 12 m = replicate 12 255 then drop 12 m else m);
          a' = (if length m' = 4 \<and> length a = 16 \<and> take 12 a = v4_prefix then drop 12 a else a)
      in if length a' \<noteq> length m' then None else Some (map2 (AND) a' m'))"

text \<open>\<open>ParseCIDR\<close>: the network address and mask.\<close>

definition parse_cidr :: "string \<Rightarrow> (ip \<times> ip) option" where
  "parse_cidr s =
     (let (addr, msk, found) = cut CHR ''/'' s in
      if \<not> found then None
      else (case parse_addr addr of
          None \<Rightarrow> None
        | Some (a, bits) \<Rightarrow>
            (if msk = [] \<or> \<not> list_all is_digit msk \<or> digits_val msk \<ge> 16777215 \<or> digits_val msk > bits then None
             else (let m = cidr_mask (digits_val msk) (bits div 8)
                   in map_option (\<lambda>n. (n, m)) (ip_mask a m)))))"

subsection \<open>Printing\<close>

definition hex_char :: "nat \<Rightarrow> char" where
  "hex_char d = (if d < 10 then char_of (48 + d) else char_of (87 + d))"

fun hex_digits :: "nat \<Rightarrow> string" where
  "hex_digits n = (if n < 16 then [hex_char n] else hex_digits (n div 16) @ [hex_char (n mod 16)])"

declare hex_digits.simps [simp del]

definition v4_string :: "ip \<Rightarrow> string" where
  "v4_string a = join ''.'' (map (\<lambda>b. nat_digits (unat b)) a)"

fun groups16 :: "ip \<Rightarrow> nat list" where
  "groups16 (a # b # r) = (unat a * 256 + unat b) # groups16 r"
| "groups16 _ = []"

text \<open>The longest run of two or more zero groups, the first one on a tie.\<close>

fun zero_run :: "nat \<Rightarrow> nat list \<Rightarrow> nat \<times> nat \<Rightarrow> nat \<times> nat" where
  "zero_run i [] best = best"
| "zero_run i (g # gs) best =
     (let l = length (takeWhile (\<lambda>x. x = 0) (g # gs)) in
      zero_run (Suc i) gs (if l \<ge> 2 \<and> l > snd best - fst best then (i, i + l) else best))"

definition v6_string :: "ip \<Rightarrow> string" where
  "v6_string a =
     (let gs = groups16 a; (z, e) = zero_run 0 gs (255, 255);
          hx = (\<lambda>xs. join '':'' (map hex_digits xs))
      in if z < 8 then hx (take z gs) @ ''::'' @ hx (drop e gs) else hx gs)"

definition ip_string :: "ip \<Rightarrow> string" where
  "ip_string a =
     (if a = [] then ''<nil>''
      else (case to4 a of
          Some f \<Rightarrow> v4_string f
        | None \<Rightarrow> if length a = 16 then v6_string a
            else ''?'' @ concat (map (\<lambda>b. [hex_char (unat b div 16), hex_char (unat b mod 16)]) a)))"

text \<open>\<open>IPNet.String\<close>.\<close>

definition ipnet_string :: "ip \<times> ip \<Rightarrow> string" where
  "ipnet_string net =
     (let (n, m) = net;
          nn = (case to4 n of Some f \<Rightarrow> Some f | None \<Rightarrow> if length n = 16 then Some n else None)
      in case nn of
           None \<Rightarrow> ''<nil>''
         | Some a \<Rightarrow>
             (if length m = 4 \<and> length a \<noteq> 4 \<or> length m \<notin> {4, 16} then ''<nil>''
              else (let m' = (if length m = 16 \<and> length a = 4 then drop 12 m else m) in
                case simple_mask_length m' of
                  None \<Rightarrow> ip_string a @ ''/'' @
                    concat (map (\<lambda>b. [hex_char (unat b div 16), hex_char (unat b mod 16)]) m')
                | Some l \<Rightarrow> ip_string a @ ''/'' @ nat_digits l)))"

subsection \<open>Lemmas: lengths\<close>

lemma v4_fields_length: "v4_fields sep v n acc s = Some f \<Longrightarrow> length acc \<le> 3 \<Longrightarrow> length f = 4"
  by (induction sep v n acc s arbitrary: f rule: v4_fields.induct) (auto simp: Let_def split: if_splits)

definition ell_ok :: "nat option \<Rightarrow> nat \<Rightarrow> bool" where
  "ell_ok ell n \<longleftrightarrow> (\<forall>e. ell = Some e \<longrightarrow> e \<le> n)"

lemma ell_ok_simps [simp]: "ell_ok None n" "ell_ok (Some e) n \<longleftrightarrow> e \<le> n"
  by (auto simp: ell_ok_def)

lemma ell_ok_mono: "ell_ok ell n \<Longrightarrow> n \<le> m \<Longrightarrow> ell_ok ell m"
  by (auto simp: ell_ok_def)

lemma v6_loop_length:
  "v6_loop b ell s = Some (b', ell', r) \<Longrightarrow> length b \<le> 16 \<Longrightarrow> even (length b) \<Longrightarrow>
     ell_ok ell (length b) \<Longrightarrow> length b' \<le> 16 \<and> ell_ok ell' (length b')"
proof (induction b ell s rule: v6_loop.induct)
  case (1 b ell s)
  have b2: "length b + 2 \<le> 16" if "length b < 16" using "1.prems"(3) that by presburger
  show ?case
  proof (cases "length b \<ge> 16")
    case True
    with "1.prems" show ?thesis by (simp add: v6_loop.simps [of b])
  next
    case False
    note IH = "1.IH" [OF False refl refl refl refl]
    let ?h = "takeWhile is_hex s" and ?rest = "dropWhile is_hex s"
    show ?thesis
    proof (cases "length ?h > 4 \<or> ?h = []")
      case True
      with "1.prems"(1) False show ?thesis by (simp add: v6_loop.simps [of b] Let_def)
    next
      case h: False
      show ?thesis
      proof (cases ?rest)
        case Nil
        with "1.prems" False h b2 show ?thesis
          by (auto simp: v6_loop.simps [of b] Let_def elim: ell_ok_mono)
      next
        case (Cons c t)
        have mono: "ell_ok ell (Suc (Suc (length b)))" "ell_ok ell (length b + 4)"
          using "1.prems"(4) by (auto elim: ell_ok_mono)
        with "1.prems" False h b2 Cons IH [OF h Cons] show ?thesis
          by (auto simp: v6_loop.simps [of b] Let_def dest: v4_fields_length split: if_splits option.splits)
      qed
    qed
  qed
qed

lemma parse_ipv6_length:
  assumes "parse_ipv6 s = Some a"
  shows "length a = 16"
proof -
  have "length b \<le> 16 \<and> ell_ok e (length b)"
    if "v6_loop [] ell u = Some (b, e, r)" "ell = None \<or> ell = Some 0" for ell u b e r
    using v6_loop_length [OF that(1)] that(2) by auto
  with assms show ?thesis
    by (fastforce simp: parse_ipv6_def Let_def split: if_splits option.splits prod.splits)
qed

lemma parse_addr_length:
  "parse_addr s = Some (a, n) \<Longrightarrow> length a = 16 \<and> (n = 32 \<and> take 12 a = v4_prefix \<or> n = 128)"
  by (auto simp: parse_addr_def v4_prefix_def dest: v4_fields_length parse_ipv6_length
      split: option.splits if_splits)

lemma cidr_mask_length [simp]: "length (cidr_mask n k) = k"
  by (induction n k rule: cidr_mask.induct) auto

lemma parse_cidr_length:
  assumes "parse_cidr s = Some (a, m)"
  shows "length a = length m \<and> (length m = 4 \<or> length m = 16)"
  using assms
  by (auto simp: parse_cidr_def Let_def ip_mask_def v4_prefix_def dest!: parse_addr_length
      split: prod.splits option.splits if_splits)

subsection \<open>Lemmas: the bytes of a printed address\<close>

definition ip_byte :: "char \<Rightarrow> bool" where
  "ip_byte c \<longleftrightarrow> is_digit c \<or> CHR ''a'' \<le> c \<and> c \<le> CHR ''f'' \<or> c \<in> set ''.:/''"

lemma ip_byte_digit [simp]: "is_digit c \<Longrightarrow> ip_byte c"
  by (simp add: ip_byte_def)

lemma ip_byte_lits [simp]: "ip_byte CHR ''.''" "ip_byte CHR '':''" "ip_byte CHR ''/''"
  by (simp_all add: ip_byte_def)

lemma ip_byte_graph: "ip_byte c \<Longrightarrow> is_graph c \<and> c \<noteq> CHR ''{'' \<and> c \<noteq> CHR ''}''"
  by (auto simp: ip_byte_def char_class_defs less_eq_char_def)

lemma hex_char_byte [simp]: "d < 16 \<Longrightarrow> ip_byte (hex_char d)"
  by (auto simp: hex_char_def ip_byte_def is_digit_def less_eq_char_def)

lemma hex_digits_bytes [simp]: "list_all ip_byte (hex_digits n)"
proof (induction n rule: hex_digits.induct)
  case (1 n)
  then show ?case by (simp add: hex_digits.simps [of n])
qed

lemma nat_digits_bytes [simp]: "list_all ip_byte (nat_digits n)"
  by (auto simp: list_all_iff dest: nat_digits_digit)

lemma join_bytes: "list_all P sep \<Longrightarrow> list_all (list_all P) xs \<Longrightarrow> list_all P (join sep xs)"
  by (induction sep xs rule: join.induct) auto

lemma map_list_all: "(\<And>x. list_all P (f x)) \<Longrightarrow> list_all (list_all P) (map f xs)"
  by (induction xs) auto

lemma ip_string_bytes:
  assumes "length a = 4 \<or> length a = 16"
  shows "list_all ip_byte (ip_string a)"
proof -
  have "list_all ip_byte (v4_string f)" for f
    unfolding v4_string_def by (intro join_bytes map_list_all) auto
  moreover have "list_all ip_byte (v6_string f)" for f
    by (auto simp: v6_string_def Let_def intro!: join_bytes map_list_all split: prod.split)
  ultimately show "list_all ip_byte (ip_string a)"
    using assms by (auto simp: ip_string_def to4_def)
qed

lemma ipnet_string_bytes:
  assumes "length a = length m" "length m = 4 \<or> length m = 16"
  shows "list_all ip_byte (ipnet_string (a, m))" "ipnet_string (a, m) \<noteq> []"
proof -
  have hx: "list_all ip_byte (concat (map (\<lambda>b. [hex_char (unat b div 16), hex_char (unat b mod 16)]) bs))"
    for bs :: "8 word list"
  proof -
    have "unat b div 16 < 16" for b :: "8 word"
    proof -
      have "unat b < 2 ^ LENGTH(8)" by (rule unsigned_less)
      then show ?thesis by (simp add: div_less_iff_less_mult)
    qed
    then show ?thesis by (induction bs) auto
  qed
  show "list_all ip_byte (ipnet_string (a, m))" "ipnet_string (a, m) \<noteq> []"
    using assms ip_string_bytes [of a] ip_string_bytes [of "drop 12 a"] hx
    by (auto simp: ipnet_string_def Let_def to4_def split: option.split)
qed

end
