(* ===== verification/IpRules.thy ===== *)
theory IpRules
  imports Domain IpNet
begin

text \<open>
  Package \<open>internal/iprules\<close> (\<open>rules.go\<close>): the allow and deny lists of a domain, their validation and
  normalisation to CIDR notation, and the overlay generated from them.
\<close>

record ip_rules =
  allowlist :: "string list"
  denylist :: "string list"

definition normalize_ip_entry :: "string \<Rightarrow> gerr + string" where
  "normalize_ip_entry entry =
     (case parse_cidr entry of
        Some ipnet \<Rightarrow> Inr (ipnet_string ipnet)
      | None \<Rightarrow>
          (case parse_ip entry of
             Some a \<Rightarrow>
               (if to4 a \<noteq> None then Inr (ip_string a @ ''/32'') else Inr (ip_string a @ ''/128''))
           | None \<Rightarrow> Inl (Errorf ''invalid IP entry %q: expected an IP or a CIDR block'' [entry] [] None)))"

fun normalize_ip_entries :: "string list \<Rightarrow> gerr + string list" where
  "normalize_ip_entries [] = Inr []"
| "normalize_ip_entries (e # es) =
     (case normalize_ip_entry e of
        Inl er \<Rightarrow> Inl er
      | Inr n \<Rightarrow> (case normalize_ip_entries es of Inl er \<Rightarrow> Inl er | Inr ns \<Rightarrow> Inr (n # ns)))"

definition validate_ip_rules :: "ip_rules \<Rightarrow> gerr option" where
  "validate_ip_rules rules =
     (case normalize_ip_entries (denylist rules) of
        Inl e \<Rightarrow> Some e
      | Inr _ \<Rightarrow> (case normalize_ip_entries (allowlist rules) of Inl e \<Rightarrow> Some e | Inr _ \<Rightarrow> None))"

definition ip_rules_lines :: "string \<Rightarrow> string \<Rightarrow> string \<Rightarrow> string \<Rightarrow> string list" where
  "ip_rules_lines hdr slug deny_str allow_str =
     [managed_line, hdr, []] @
     (if deny_str \<noteq> [] then
        [''# Denylist'',
         ''@ip_deny_'' @ slug @ '' {'',
         ''    remote_ip '' @ deny_str,
         ''}'',
         ''abort @ip_deny_'' @ slug]
      else []) @
     (if allow_str \<noteq> [] then
        [[],
         ''# Allowlist (if set, all other IPs are denied)'',
         ''@ip_allow_'' @ slug @ '' {'',
         ''    not remote_ip '' @ allow_str,
         ''}'',
         ''abort @ip_allow_'' @ slug]
      else []) @
     (if deny_str = [] \<and> allow_str = [] then [''# No IP rules configured for this domain.''] else []) @
     [[]]"

definition generate_ip_rules ::
  "site \<Rightarrow> ip_rules \<Rightarrow> ('a) proc_scheme \<Rightarrow> (gerr + string) \<times> ('a) proc_scheme" where
  "generate_ip_rules st rules w =
     (case normalize_ip_entries (denylist rules) of
        Inl e \<Rightarrow> (Inl e, w)
      | Inr deny \<Rightarrow>
          (case normalize_ip_entries (allowlist rules) of
             Inl e \<Rightarrow> (Inl e, w)
           | Inr allow \<Rightarrow>
               (let slug = domain_slug (ulower w) (site_domain st);
                    (now, w1) = time_now w
                in (Inr (unlines (ip_rules_lines (header (site_domain st) [] now) slug
                      (join '' '' deny) (join '' '' allow))), w1))))"

subsection \<open>Lemmas\<close>

definition entry_ok :: "string \<Rightarrow> bool" where
  "entry_ok n \<longleftrightarrow> n \<noteq> [] \<and> list_all ip_byte n"

lemma normalize_ip_entry_ok:
  assumes "normalize_ip_entry e = Inr n"
  shows "entry_ok n"
proof (cases "parse_cidr e")
  case (Some net)
  obtain a m where net: "net = (a, m)" by (cases net)
  from parse_cidr_length [of e a m] Some net
  have "length a = length m" "length m = 4 \<or> length m = 16" by auto
  from ipnet_string_bytes [OF this] assms Some net show ?thesis
    by (auto simp: normalize_ip_entry_def entry_ok_def)
next
  case None
  then obtain a where a: "parse_ip e = Some a" "n = ip_string a @ ''/32'' \<or> n = ip_string a @ ''/128''"
    using assms by (auto simp: normalize_ip_entry_def split: option.splits if_splits)
  then have "length a = 16" by (auto simp: parse_ip_def dest: parse_addr_length)
  then have "list_all ip_byte (ip_string a)" by (intro ip_string_bytes) simp
  with a(2) show ?thesis by (auto simp: entry_ok_def ip_byte_def is_digit_def less_eq_char_def)
qed

lemma normalize_ip_entries_Inr:
  "normalize_ip_entries es = Inr ns \<longleftrightarrow> list_all2 (\<lambda>e n. normalize_ip_entry e = Inr n) es ns"
proof (induction es arbitrary: ns)
  case (Cons e es)
  show ?case by (cases ns) (auto simp flip: Cons.IH split: sum.splits)
qed auto

lemma normalize_ip_entries_ok: "normalize_ip_entries es = Inr ns \<Longrightarrow> list_all entry_ok ns"
  by (auto simp: normalize_ip_entries_Inr list_all2_conv_all_nth list_all_length
      intro: normalize_ip_entry_ok)

lemma validate_ip_rules_iff:
  "validate_ip_rules r = None \<longleftrightarrow>
     (\<exists>d a. normalize_ip_entries (denylist r) = Inr d \<and> normalize_ip_entries (allowlist r) = Inr a)"
  by (auto simp: validate_ip_rules_def split: sum.splits)

lemma entry_ok_graph: "entry_ok n \<Longrightarrow> n \<noteq> [] \<and> (\<forall>c \<in> set n. is_graph c)"
  by (auto simp: entry_ok_def list_all_iff dest: ip_byte_graph)

lemma fields_entries: "list_all entry_ok ns \<Longrightarrow> str_fields (join '' '' ns) = ns"
  by (intro fields_join) (auto simp: list_all_iff dest: entry_ok_graph)

lemma generate_ip_rules_step:
  "generate_ip_rules st r v = (q, v') \<Longrightarrow> v' = v \<or> v' = tock v"
  by (auto simp: generate_ip_rules_def Let_def time_now_def split: sum.splits)

end
