(* ===== verification/Validate.thy ===== *)
theory Validate
  imports Process
begin

text \<open>
  \<open>service/validate.go\<close>: the strict host-name check that guards every public entry of the chain.
  The lemmas reduce it to one condition on the labels, which is all that the path and template
  code needs of a domain.
\<close>

definition max_domain_length :: nat where "max_domain_length = 253"
definition max_label_length :: nat where "max_label_length = 63"

lemmas length_defs = max_domain_length_def max_label_length_def

definition label_byte :: "char \<Rightarrow> bool" where
  "label_byte c \<longleftrightarrow> is_lower c \<or> is_upper c \<or> is_digit c \<or> c = CHR ''-''"

definition validate_label :: "string \<Rightarrow> gerr option" where
  "validate_label label =
     (if length label = 0 \<or> length label > max_label_length
      then Some (Errorf ''label length out of range (1..%d)'' [] [] None)
      else if hd label = CHR ''-'' \<or> last label = CHR ''-''
      then Some (Errorf ''labels cannot start or end with a hyphen'' [] [] None)
      else (case find (\<lambda>c. \<not> label_byte c) label of
          Some c \<Rightarrow> Some (Errorf ''character %q not allowed (only [a-zA-Z0-9.-])'' [[c]] [] None)
        | None \<Rightarrow> None))"

definition invalid_domain :: "string \<Rightarrow> string list \<Rightarrow> gerr list \<Rightarrow> gerr" where
  "invalid_domain f args shown = Errorf f args shown (Some (Sentinel ErrInvalidDomain))"

text \<open>The loop over the labels; \<open>i\<close> is the index and \<open>n\<close> the number of all labels.\<close>

fun validate_labels :: "string \<Rightarrow> nat \<Rightarrow> nat \<Rightarrow> string list \<Rightarrow> gerr option" where
  "validate_labels d n i [] = None"
| "validate_labels d n i (label # ls) =
     (if i = 0 \<and> label = ''*'' \<and> n \<ge> 3 then validate_labels d n (i + 1) ls
      else (case validate_label label of
          Some e \<Rightarrow> Some (invalid_domain ''%w: %q: %v'' [d] [e])
        | None \<Rightarrow> validate_labels d n (i + 1) ls))"

definition validate_domain :: "string \<Rightarrow> gerr option" where
  "validate_domain d =
     (if d = [] then Some (invalid_domain ''%w: the domain is empty'' [] [])
      else if length d > max_domain_length
      then Some (invalid_domain ''%w: %q exceeds the maximum of %d characters'' [d] [])
      else if has_prefix ''.'' d \<or> has_suffix ''.'' d
      then Some (invalid_domain ''%w: %q cannot start or end with a dot'' [d] [])
      else if str_contains d ''..''
      then Some (invalid_domain ''%w: %q contains two consecutive dots'' [d] [])
      else (let labels = split_on CHR ''.'' d in validate_labels d (length labels) 0 labels))"

subsection \<open>Lemmas\<close>

text \<open>RFC 1035 labels: 1 to 63 letters, digits and inner hyphens.\<close>

definition label_ok :: "string \<Rightarrow> bool" where
  "label_ok l \<longleftrightarrow> 1 \<le> length l \<and> length l \<le> 63 \<and> list_all label_byte l
     \<and> hd l \<noteq> CHR ''-'' \<and> last l \<noteq> CHR ''-''"

text \<open>A host name: labels joined by dots; the first may be \<open>*\<close> before at least two others.\<close>

definition hostname_ok :: "string \<Rightarrow> bool" where
  "hostname_ok d \<longleftrightarrow> length d \<le> 253 \<and>
     (let ls = split_on CHR ''.'' d in
      list_all label_ok ls \<or> length ls \<ge> 3 \<and> hd ls = ''*'' \<and> list_all label_ok (tl ls))"

lemma validate_label_ok: "validate_label l = None \<longleftrightarrow> label_ok l"
proof -
  have f: "find (\<lambda>c. \<not> label_byte c) l = None \<longleftrightarrow> list_all label_byte l"
    by (auto simp: find_None_iff list_all_iff)
  then show ?thesis
    by (cases "find (\<lambda>c. \<not> label_byte c) l")
      (auto simp: validate_label_def label_ok_def length_defs Suc_le_eq)
qed

lemma validate_labels_tail:
  "0 < i \<Longrightarrow> validate_labels d n i ls = None \<longleftrightarrow> list_all label_ok ls"
  by (induction ls arbitrary: i) (auto simp flip: validate_label_ok split: option.split)

lemma star_not_label [simp]: "\<not> label_ok ''*''"
  by (simp add: label_ok_def label_byte_def char_class_defs less_eq_char_def)

lemma validate_labels_all:
  "validate_labels d n 0 ls = None \<longleftrightarrow>
     list_all label_ok ls \<or> n \<ge> 3 \<and> ls \<noteq> [] \<and> hd ls = ''*'' \<and> list_all label_ok (tl ls)"
  using star_not_label validate_labels_tail [of "Suc 0" d n]
  by (cases ls) (auto simp flip: validate_label_ok split: option.split)

lemma label_ok_not_Nil: "label_ok l \<Longrightarrow> l \<noteq> []"
  by (auto simp: label_ok_def)

lemma hostname_labels:
  "hostname_ok d \<Longrightarrow> l \<in> set (split_on CHR ''.'' d) \<Longrightarrow> label_ok l \<or> l = ''*''"
  by (cases "split_on CHR ''.'' d") (auto simp: hostname_ok_def list_all_iff Let_def)

text \<open>The dot checks of \<open>ValidateDomain\<close> are implied by the label check.\<close>

lemma hostname_no_empty_label: "hostname_ok d \<Longrightarrow> [] \<notin> set (split_on CHR ''.'' d)"
  using hostname_labels [of d "[]"] by (auto dest: label_ok_not_Nil)

lemma hostname_dots:
  assumes "hostname_ok d"
  shows "d \<noteq> []" "\<not> has_prefix ''.'' d" "\<not> has_suffix ''.'' d" "\<not> str_contains d ''..''"
proof -
  note e = hostname_no_empty_label [OF assms]
  show "d \<noteq> []" using e by auto
  show "\<not> has_prefix ''.'' d" using e by (cases d) auto
  show "\<not> has_suffix ''.'' d"
  proof
    assume "has_suffix ''.'' d"
    then obtain r where "d = r @ CHR ''.'' # []" by (auto simp: has_suffix_iff)
    with e show False by (simp only: split_on_append) simp
  qed
  show "\<not> str_contains d ''..''"
  proof
    assume "str_contains d ''..''"
    then obtain a b where "d = a @ CHR ''.'' # ([] @ CHR ''.'' # b)" by (auto simp: str_contains_iff)
    with e show False by (simp only: split_on_append) simp
  qed
qed

lemma validate_domain_iff: "validate_domain d = None \<longleftrightarrow> hostname_ok d"
proof
  assume "validate_domain d = None"
  then show "hostname_ok d"
    by (auto simp: validate_domain_def Let_def validate_labels_all hostname_ok_def length_defs
        split: if_splits)
next
  assume h: "hostname_ok d"
  then show "validate_domain d = None"
    using hostname_dots [OF h]
    by (auto simp: validate_domain_def Let_def validate_labels_all hostname_ok_def length_defs)
qed

lemma validate_labels_error:
  "validate_labels d n i ls = Some e \<Longrightarrow> errors_is e ErrInvalidDomain"
  by (induction ls arbitrary: i) (auto simp: invalid_domain_def split: if_splits option.splits)

lemma validate_domain_error: "validate_domain d = Some e \<Longrightarrow> errors_is e ErrInvalidDomain"
  by (auto simp: validate_domain_def Let_def invalid_domain_def dest: validate_labels_error
      split: if_splits)

definition host_byte :: "char \<Rightarrow> bool" where
  "host_byte c \<longleftrightarrow> label_byte c \<or> c = CHR ''.'' \<or> c = CHR ''*''"

lemma set_split_on: "set s \<subseteq> insert c (\<Union> (set ` set (split_on c s)))"
proof -
  have "set (join [c] xs) \<subseteq> insert c (\<Union> (set ` set xs))" for xs
    by (induction "[c]" xs rule: join.induct) auto
  from this [of "split_on c s"] show ?thesis by (simp add: join_split_on)
qed

lemma hostname_bytes: "hostname_ok d \<Longrightarrow> c \<in> set d \<Longrightarrow> host_byte c"
proof -
  assume h: "hostname_ok d" "c \<in> set d"
  then consider "c = CHR ''.''" | l where "l \<in> set (split_on CHR ''.'' d)" "c \<in> set l"
    using set_split_on [of d "CHR ''.''"] by auto
  then show "host_byte c"
  proof cases
    case 2
    then show ?thesis
      using hostname_labels [OF h(1) 2(1)] by (auto simp: host_byte_def label_ok_def list_all_iff)
  qed (simp add: host_byte_def)
qed

lemma host_byte_graph: "host_byte c \<Longrightarrow> is_graph c \<and> c \<noteq> CHR ''|'' \<and> c \<noteq> CHR ''/''"
  by (auto simp: host_byte_def label_byte_def char_class_defs less_eq_char_def)

end
