(* ===== verification/Chain.thy ===== *)
theory Chain
  imports Caddy Files Waf IpRules Validate
begin

text \<open>
  \<open>service/chain.go\<close>: the chain validate, back up, generate, write, reload, restore, audit that every
  configuration change goes through. \<open>chainMu\<close> serialises the chains of a process, so a chain is
  one step of the world here; reads outside the chain may fall between any two system calls.

  What the chain needs of an entry point is the locale \<open>chain_mutation\<close>: its mutation either
  installs new bytes in the overlay of its type, or leaves the overlay alone, logs one failure
  and reports it. The theory interprets it for each entry point.
\<close>

definition read_previous_state ::
  "string \<Rightarrow> ('a) fsys_scheme \<Rightarrow> (os_error + string \<times> bool) \<times> ('a) fsys_scheme" where
  "read_previous_state conf w =
     (case os_read_file conf w of
        (Inl e, w1) \<Rightarrow> (if is_not_exist e then (Inr ([], False), w1) else (Inl e, w1))
      | (Inr c, w1) \<Rightarrow> (Inr (c, True), w1))"

definition restore_state ::
  "string \<Rightarrow> string \<Rightarrow> bool \<Rightarrow> ('a) fsys_scheme \<Rightarrow> unit os_result \<times> ('a) fsys_scheme" where
  "restore_state conf previous existed w =
     (if \<not> existed
      then (case os_remove conf w of
          (Inl e, w1) \<Rightarrow> (if is_not_exist e then (Inr (), w1) else (Inl e, w1))
        | (Inr _, w1) \<Rightarrow> (Inr (), w1))
      else atomic_write conf previous w)"

record 'w chain_opts =
  co_file_type :: string
  co_conf_path :: string
  co_fail_event :: string
  co_reload_fail_event :: string
  co_success_event :: string
  co_from :: string
  co_fail_to :: string
  co_to :: string
  co_mutate :: "'w \<Rightarrow> (gerr + unit) \<times> 'w"

definition run_chain ::
  "string \<Rightarrow> string \<Rightarrow> ('a world_scheme) chain_opts \<Rightarrow> ('a) world_scheme
     \<Rightarrow> (gerr + unit) \<times> ('a) world_scheme" where
  "run_chain dn remote_ip opts w =
     (case read_previous_state (co_conf_path opts) w of
        (Inl e, w1) \<Rightarrow>
          (Inl (Errorf ''error reading previous state: %w'' [] [] (Some (OsErr e))),
           log_action (co_fail_event opts) dn (co_from opts) (co_fail_to opts) remote_ip
             (Text ''read error: '' [OsErr e]) w1)
      | (Inr (previous, existed), w1) \<Rightarrow>
     (case backup dn (co_file_type opts) w1 of
        (Inl e, w2) \<Rightarrow>
          (Inl (Errorf ''error creating backup: %w'' [] [] (Some e)),
           log_action (co_fail_event opts) dn (co_from opts) (co_fail_to opts) remote_ip
             (Text ''backup error: '' [e]) w2)
      | (Inr _, w2) \<Rightarrow>
     (case co_mutate opts w2 of
        (Inl e, w3) \<Rightarrow> (Inl e, w3)
      | (Inr _, w3) \<Rightarrow>
     (case reload w3 of
        (Inl e, w4) \<Rightarrow>
          (case restore_state (co_conf_path opts) previous existed w4 of
             (Inl re, w5) \<Rightarrow>
               (Inl (Errorf ''error reloading Caddy: %v; error restoring overlay: %w'' [] [e] (Some (OsErr re))),
                log_action (co_reload_fail_event opts) dn (co_from opts) (co_to opts) remote_ip
                  (Text ''failed: %v (restore error: %v)'' [e, OsErr re]) w5)
           | (Inr _, w5) \<Rightarrow>
               (Inl (Errorf ''error reloading Caddy: %w'' [] [] (Some e)),
                log_action (co_reload_fail_event opts) dn (co_from opts) (co_to opts) remote_ip
                  (Text ''failed: %v'' [e]) w5))
      | (Inr _, w4) \<Rightarrow>
          (Inr (), log_action (co_success_event opts) dn (co_from opts) (co_to opts) remote_ip
             (Text ''success'' []) w4)))))"

text \<open>
  The mutation of the three update entries: generate the overlay, write it, and audit the stage
  that failed.
\<close>

definition generate_and_write ::
  "string \<Rightarrow> string \<Rightarrow> ('a world_scheme) chain_opts
     \<Rightarrow> (('a) world_scheme \<Rightarrow> (gerr + string) \<times> ('a) world_scheme)
     \<Rightarrow> ('a) world_scheme \<Rightarrow> (gerr + unit) \<times> ('a) world_scheme" where
  "generate_and_write dn remote_ip opts generate w =
     (case generate w of
        (Inl e, w1) \<Rightarrow>
          (Inl (Errorf ''error generating configuration: %w'' [] [] (Some e)),
           log_action (co_fail_event opts) dn (co_from opts) (co_fail_to opts) remote_ip
             (Text ''generate error: '' [e]) w1)
      | (Inr snippet, w1) \<Rightarrow>
          (case atomic_write (co_conf_path opts) snippet w1 of
             (Inl e, w2) \<Rightarrow>
               (Inl (Errorf ''error writing configuration: %w'' [] [] (Some (OsErr e))),
                log_action (co_fail_event opts) dn (co_from opts) (co_fail_to opts) remote_ip
                  (Text ''write error: '' [OsErr e]) w2)
           | (Inr _, w2) \<Rightarrow> (Inr (), w2)))"

text \<open>A record of options whose mutation refers to the other fields, as the Go closures do.\<close>

definition with_mutation ::
  "('w chain_opts \<Rightarrow> 'w \<Rightarrow> (gerr + unit) \<times> 'w) \<Rightarrow> 'w chain_opts \<Rightarrow> 'w chain_opts" where
  "with_mutation f opts = opts\<lparr>co_mutate := f opts\<rparr>"

definition new_site :: "string \<Rightarrow> string \<Rightarrow> site" where
  "new_site dn md = \<lparr>site_domain = dn, site_mode = md, site_updated = zero_time, site_degraded = False\<rparr>"

definition waf_mode_opts ::
  "string \<Rightarrow> string \<Rightarrow> string \<Rightarrow> ('a) world_scheme \<Rightarrow> ('a world_scheme) chain_opts" where
  "waf_mode_opts dn md remote_ip w =
     with_mutation
       (\<lambda>opts. generate_and_write dn remote_ip opts
          (\<lambda>v. generate_waf_snippet (new_site dn md) (audit_log_path (env v)) (include_dir (env v)) v))
       \<lparr>co_file_type = file_type_waf,
        co_conf_path = waf_config_path (ulower w) (managed_dir (env w)) dn,
        co_fail_event = ''waf_mode_failed'',
        co_reload_fail_event = ''waf_mode_changed_but_reload_failed'',
        co_success_event = ''waf_mode_changed'',
        co_from = ''unknown'', co_fail_to = md, co_to = md,
        co_mutate = (\<lambda>v. (Inr (), v))\<rparr>"

definition update_waf_mode ::
  "string \<Rightarrow> string \<Rightarrow> string \<Rightarrow> ('a) world_scheme \<Rightarrow> (gerr + unit) \<times> ('a) world_scheme" where
  "update_waf_mode dn md remote_ip w =
     (case validate_domain dn of
        Some e \<Rightarrow> (Inl e, w)
      | None \<Rightarrow>
          if md \<noteq> mode_on \<and> md \<noteq> mode_off \<and> md \<noteq> mode_detection_only
          then (Inl (Sentinel ErrInvalidMode), w)
          else run_chain dn remote_ip (waf_mode_opts dn md remote_ip w) w)"

definition exclusions_opts ::
  "string \<Rightarrow> exclusion list \<Rightarrow> string \<Rightarrow> ('a) world_scheme \<Rightarrow> ('a world_scheme) chain_opts" where
  "exclusions_opts dn exs remote_ip w =
     with_mutation
       (\<lambda>opts. generate_and_write dn remote_ip opts (generate_exclusions (new_site dn []) exs))
       \<lparr>co_file_type = file_type_exclusions,
        co_conf_path = exclusions_config_path (ulower w) (managed_dir (env w)) dn,
        co_fail_event = ''exclusions_failed'',
        co_reload_fail_event = ''exclusions_changed_but_reload_failed'',
        co_success_event = ''exclusions_updated'',
        co_from = [], co_fail_to = [], co_to = itoa (int (length exs)) @ '' rules'',
        co_mutate = (\<lambda>v. (Inr (), v))\<rparr>"

definition update_exclusions ::
  "string \<Rightarrow> exclusion list \<Rightarrow> string \<Rightarrow> ('a) world_scheme \<Rightarrow> (gerr + unit) \<times> ('a) world_scheme" where
  "update_exclusions dn exs remote_ip w =
     (case validate_domain dn of
        Some e \<Rightarrow> (Inl e, w)
      | None \<Rightarrow>
          (case validate_exclusions exs of
             Some e \<Rightarrow> (Inl e, w)
           | None \<Rightarrow> run_chain dn remote_ip (exclusions_opts dn exs remote_ip w) w))"

definition ip_rules_opts ::
  "string \<Rightarrow> ip_rules \<Rightarrow> string \<Rightarrow> ('a) world_scheme \<Rightarrow> ('a world_scheme) chain_opts" where
  "ip_rules_opts dn rules remote_ip w =
     with_mutation
       (\<lambda>opts. generate_and_write dn remote_ip opts (generate_ip_rules (new_site dn []) rules))
       \<lparr>co_file_type = file_type_ip_rules,
        co_conf_path = ip_rules_config_path (ulower w) (managed_dir (env w)) dn,
        co_fail_event = ''iprules_failed'',
        co_reload_fail_event = ''iprules_changed_but_reload_failed'',
        co_success_event = ''iprules_updated'',
        co_from = [], co_fail_to = [],
        co_to = ''allow:'' @ itoa (int (length (allowlist rules))) @ '' deny:'' @ itoa (int (length (denylist rules))),
        co_mutate = (\<lambda>v. (Inr (), v))\<rparr>"

definition update_ip_rules ::
  "string \<Rightarrow> ip_rules \<Rightarrow> string \<Rightarrow> ('a) world_scheme \<Rightarrow> (gerr + unit) \<times> ('a) world_scheme" where
  "update_ip_rules dn rules remote_ip w =
     (case validate_domain dn of
        Some e \<Rightarrow> (Inl e, w)
      | None \<Rightarrow>
          (case validate_ip_rules rules of
             Some e \<Rightarrow> (Inl e, w)
           | None \<Rightarrow> run_chain dn remote_ip (ip_rules_opts dn rules remote_ip w) w))"

definition rollback_opts ::
  "string \<Rightarrow> string \<Rightarrow> string \<Rightarrow> string \<Rightarrow> string \<Rightarrow> ('a world_scheme) chain_opts" where
  "rollback_opts dn backup_id remote_ip ty conf =
     with_mutation
       (\<lambda>opts v. case restore_backup dn backup_id v of
          (Inl e, v1) \<Rightarrow>
            (Inl (Errorf ''error restoring snapshot: %w'' [] [] (Some e)),
             log_action (co_fail_event opts) dn (co_from opts) (co_fail_to opts) remote_ip
               (Text ''restore error: '' [e]) v1)
        | (Inr _, v1) \<Rightarrow> (Inr (), v1))
       \<lparr>co_file_type = ty, co_conf_path = conf,
        co_fail_event = ''rollback_failed'',
        co_reload_fail_event = ''rollback_changed_but_reload_failed'',
        co_success_event = ''rollback_restored'',
        co_from = backup_id, co_fail_to = [], co_to = ty,
        co_mutate = (\<lambda>v. (Inr (), v))\<rparr>"

definition rollback ::
  "string \<Rightarrow> string \<Rightarrow> string \<Rightarrow> ('a) world_scheme \<Rightarrow> (gerr + unit) \<times> ('a) world_scheme" where
  "rollback dn backup_id remote_ip w =
     (case validate_domain dn of
        Some e \<Rightarrow> (Inl e, w)
      | None \<Rightarrow>
          (case backup_type backup_id of
             Inl e \<Rightarrow> (Inl e, log_action ''rollback_failed'' dn backup_id [] remote_ip (Text [] [e]) w)
           | Inr ty \<Rightarrow>
               (case overlay_path (ulower w) (managed_dir (env w)) ty dn of
                  Inl e \<Rightarrow> (Inl e, log_action ''rollback_failed'' dn backup_id [] remote_ip (Text [] [e]) w)
                | Inr conf \<Rightarrow> run_chain dn remote_ip (rollback_opts dn backup_id remote_ip ty conf) w)))"

subsection \<open>Lemmas: what a step of the chain touches\<close>

text \<open>A step of the chain logs nothing but audit events.\<close>

definition adds_audits :: "('a) proc_scheme \<Rightarrow> ('a) proc_scheme \<Rightarrow> bool" where
  "adds_audits w w' \<longleftrightarrow> (\<exists>es. slog w' = slog w @ map Audit es)"

lemma adds_audits_same [simp]: "slog w' = slog w \<Longrightarrow> adds_audits w w'"
  unfolding adds_audits_def by (intro exI [of _ "[]"]) simp

lemma adds_audits_trans: "adds_audits w w' \<Longrightarrow> adds_audits w' w'' \<Longrightarrow> adds_audits w w''"
  unfolding adds_audits_def by (metis append.assoc map_append)

lemma adds_audits_log: "adds_audits w w' \<Longrightarrow> adds_audits w (log_action ev d f t ip s w')"
proof -
  have *: "\<exists>fs. xs @ map Audit es @ [Audit e] = xs @ map Audit fs" for xs es e
    by (rule exI [of _ "es @ [e]"]) simp
  assume "adds_audits w w'"
  with * show ?thesis by (auto simp: adds_audits_def log_action_def log_append_def)
qed

lemma adds_audits_tock [simp]: "adds_audits w (tock w') = adds_audits w w'" "adds_audits (tock w) w' = adds_audits w w'"
  by (simp_all add: adds_audits_def)

text \<open>
  From \<open>w\<close> to \<open>w'\<close> the settings stay, the file system stays well formed, and outside \<open>S\<close> no file
  or directory is lost or changed (new directories may appear).
\<close>

definition stays :: "('a) world_scheme \<Rightarrow> ('a) world_scheme \<Rightarrow> path set \<Rightarrow> bool" where
  "stays w w' S \<longleftrightarrow> world.more w' = world.more w \<and> cwd w' = cwd w \<and> fault w' = fault w \<and> clock w' = clock w
     \<and> env w' = env w \<and> ulower w' = ulower w \<and> adds_audits w w'
     \<and> (fs_wf w \<longrightarrow> fs_wf w') \<and> keeps_nodes w w' S"

lemma stays_refl [simp]: "stays w w S"
  by (simp add: stays_def keeps_nodes_def)

lemma stays_trans: "stays w w' S \<Longrightarrow> stays w' w'' S \<Longrightarrow> stays w w'' S"
  by (auto simp: stays_def intro: keeps_nodes_trans adds_audits_trans)

lemma stays_mono: "stays w w' S \<Longrightarrow> S \<subseteq> T \<Longrightarrow> stays w w' T"
  by (auto simp: stays_def keeps_nodes_def)

lemma changes_more: "changes w w' K \<Longrightarrow> world.more w' = world.more w"
proof -
  assume "changes w w' K"
  then have "w' = w\<lparr>tree := tree w', tick := tick w'\<rparr>" by (simp add: changes_def)
  then have "world.more w' = world.more (w\<lparr>tree := tree w', tick := tick w'\<rparr>)" by metis
  then show ?thesis by simp
qed

lemma more_log [simp]: "world.more (log_append l w) = world.more w" "world.more (log_action ev d f t ip s w) = world.more w"
  by (simp_all add: log_action_def log_append_def)

lemma stays_changes: "changes w w' K \<Longrightarrow> stays w w' K"
  by (auto simp: stays_def changes_fields changes_proc changes_more dest: keeps_nodes_changes changes_wf)

lemma clock_log_action [simp]: "clock (log_action ev d f t ip s w) = clock w"
  by (simp add: log_action_def)

lemma stays_log [simp]: "stays w w' S \<Longrightarrow> stays w (log_action ev d f t ip s w') S"
  by (simp add: stays_def keeps_nodes_def adds_audits_log)

lemma stays_tock [simp]: "stays w (tock w') S = stays w w' S" "stays (tock w) w' S = stays w w' S"
  by (simp_all add: stays_def keeps_nodes_def)

lemma same_disk_node: "same_disk w w' \<Longrightarrow> node_at w' = node_at w"
  using node_at_same [of w' w] by (simp add: same_disk_def)

lemma fs_wf_same: "tree w' = tree w \<Longrightarrow> fs_wf w' = fs_wf w"
  by (simp add: fs_wf_def node_at_same [of w' w])

lemma same_disk_stays: "same_disk w w' \<Longrightarrow> stays w w' S"
  using same_disk_node [of w w'] fs_wf_same [of w' w]
  by (simp add: stays_def keeps_nodes_def same_disk_def)

lemma same_disk_audits: "same_disk w w' \<Longrightarrow> audits w' = audits w"
  by (simp add: same_disk_def audits_def)

lemma stays_at:
  assumes "stays w w' S"
  shows "overlay_at w' ty dn = overlay_at w ty dn" "backups_at w' dn = backups_at w dn"
    "snapshot_paths w' ty dn = snapshot_paths w ty dn"
  using assms by (simp_all add: stays_def overlay_at_def backups_at_def snapshot_paths_def)

lemma stays_wf: "stays w w' S \<Longrightarrow> fs_wf w \<Longrightarrow> fs_wf w'"
  by (simp add: stays_def)

lemma backup_stays:
  assumes "backup dn ty w = (r, w')" "ty \<in> file_types" "fs_wf w"
  shows "stays w w' (snapshot_paths w ty dn)" "audits w' = audits w"
  using backup_run [OF assms] by (auto simp: stays_def changes_fields changes_proc dest: changes_wf changes_more)

text \<open>The bytes of an overlay; \<open>None\<close> if there is no such file.\<close>

definition overlay_bytes :: "('a) proc_scheme \<Rightarrow> string \<Rightarrow> string \<Rightarrow> string option" where
  "overlay_bytes w ty dn =
     (case node_at w (overlay_at w ty dn) of Some (Reg c _) \<Rightarrow> Some c | _ \<Rightarrow> None)"

text \<open>What a chain for this overlay may write: the overlay, its temporary names, its snapshots.\<close>

definition chain_paths :: "('a) proc_scheme \<Rightarrow> string \<Rightarrow> string \<Rightarrow> path set" where
  "chain_paths w ty dn =
     insert (overlay_at w ty dn) (temps (overlay_at w ty dn)) \<union> snapshot_paths w ty dn"

lemma read_previous_state_spec:
  assumes "read_previous_state conf w = (Inr (previous, existed), w')" "resolve (cwd w) conf = p"
  shows "w' = tock w" "node_at w p \<noteq> Some SubDir"
    "existed \<Longrightarrow> \<exists>m. node_at w p = Some (Reg previous m)" "\<not> existed \<Longrightarrow> node_at w p = None"
  using assms
  by (auto simp: read_previous_state_def os_read_file_not_exist dest: os_read_file_pair os_read_file_Inr
      split: prod.splits sum.splits if_splits)

lemma read_previous_state_Inl: "read_previous_state conf w = (Inl e, w') \<Longrightarrow> w' = tock w"
  by (auto simp: read_previous_state_def dest: os_read_file_pair split: prod.splits sum.splits if_splits)

lemma restore_state_spec:
  assumes "restore_state (managed_dir (env w) @ ''/'' @ overlay_name (ulower w) ty dn) previous existed w = (r, w')"
    and "ty \<in> file_types" "node_at w (overlay_at w ty dn) \<noteq> Some SubDir"
  shows "\<exists>t \<in> temps (overlay_at w ty dn). changes w w' {overlay_at w ty dn, t}"
    and "r = Inr u \<Longrightarrow> overlay_bytes w' ty dn = (if existed then Some previous else None)"
    and "r = Inl e \<Longrightarrow> node_at w' (overlay_at w ty dn) = node_at w (overlay_at w ty dn)"
proof -
  let ?o = "overlay_at w ty dn" and ?c = "managed_dir (env w) @ ''/'' @ overlay_name (ulower w) ty dn"
  note rs = resolve_overlay(1) [OF assms(2), of w dn]
  have ex: "\<exists>t. t \<in> temps ?o" by (auto simp: temps_iff)
  have "(\<exists>t \<in> temps ?o. changes w w' {?o, t})
    \<and> (r = Inr () \<longrightarrow> overlay_bytes w' ty dn = (if existed then Some previous else None))
    \<and> (\<forall>e. r = Inl e \<longrightarrow> node_at w' ?o = node_at w ?o)"
  proof (cases existed)
    case True
    then have "atomic_write ?c previous w = (r, w')" using assms(1) by (simp add: restore_state_def)
    note aw = atomic_write_overlay [OF this assms(2)]
    then obtain t where "changes w w' {?o, t}" by blast
    then have "overlay_at w' ty dn = ?o" by (rule changes_at)
    with aw True show ?thesis by (auto simp: overlay_bytes_def)
  next
    case False
    obtain r1 w1 where 1: "os_remove ?c w = (r1, w1)" by fastforce
    have w': "w' = w1" using assms(1) 1 False by (auto simp: restore_state_def split: sum.splits if_splits)
    have ch: "changes w w1 {?o}" using os_remove_changes [OF 1] assms(3) rs by simp
    have o: "overlay_at w1 ty dn = ?o" using ch by (rule changes_at)
    have "\<exists>t \<in> temps ?o. changes w w' {?o, t}" using changes_mono [OF ch] ex w' by blast
    moreover have "overlay_bytes w' ty dn = None" if "r = Inr ()"
    proof -
      have "node_at w1 ?o = None"
      proof (cases r1)
        case (Inl e)
        with 1 False assms(1) that have "is_not_exist e" by (auto simp: restore_state_def split: if_splits)
        then have "node_at w ?o = None" using os_remove_not_exist [OF 1 [unfolded Inl]] rs by simp
        then show ?thesis using os_remove_Inl [OF 1 [unfolded Inl]] by simp
      next
        case (Inr u)
        then show ?thesis using os_remove_Inr [OF 1 [unfolded Inr]] assms(3) rs by simp
      qed
      then show ?thesis by (simp add: overlay_bytes_def w' o)
    qed
    moreover have "node_at w' ?o = node_at w ?o" if e: "r = Inl e" for e
    proof -
      obtain e' where "r1 = Inl e'" using assms(1) 1 False e by (cases r1) (auto simp: restore_state_def)
      then show ?thesis using os_remove_Inl 1 w' by fastforce
    qed
    ultimately show ?thesis using False by simp
  qed
  then show "\<exists>t \<in> temps ?o. changes w w' {?o, t}"
    "r = Inr u \<Longrightarrow> overlay_bytes w' ty dn = (if existed then Some previous else None)"
    "r = Inl e \<Longrightarrow> node_at w' ?o = node_at w ?o" by auto
qed

subsection \<open>The contract of a mutation, and the chain on top of it\<close>

definition same_settings :: "('a) proc_scheme \<Rightarrow> ('a) proc_scheme \<Rightarrow> bool" where
  "same_settings w v \<longleftrightarrow> cwd v = cwd w \<and> env v = env w \<and> ulower v = ulower w"

lemma stays_settings: "stays w w' S \<Longrightarrow> same_settings w w'"
  by (simp add: stays_def same_settings_def)

lemma settings_at: "same_settings w v \<Longrightarrow> overlay_at v ty dn = overlay_at w ty dn"
  by (simp add: same_settings_def overlay_at_def)

text \<open>The paths a write of an overlay may touch.\<close>

definition overlay_area :: "('a) proc_scheme \<Rightarrow> string \<Rightarrow> string \<Rightarrow> path set" where
  "overlay_area w ty dn = insert (overlay_at w ty dn) (temps (overlay_at w ty dn))"

definition chain_event :: "string \<Rightarrow> string \<Rightarrow> string \<Rightarrow> string \<Rightarrow> string \<Rightarrow> log_text \<Rightarrow> audit_event" where
  "chain_event ev dn from dst remote_ip st =
     \<lparr>ev_event = ev, ev_domain = dn, ev_from = or_unknown from, ev_to = or_unknown dst,
      ev_remote_ip = remote_ip, ev_caddy_reload = or_unknown_text st\<rparr>"

lemma audits_log: "audits (log_action ev d f t ip s w) = audits w @ [chain_event ev d f t ip s]"
  by (simp add: chain_event_def)

definition failure_event :: "string \<Rightarrow> string \<Rightarrow> 'w chain_opts \<Rightarrow> log_text \<Rightarrow> audit_event" where
  "failure_event dn remote_ip opts st =
     chain_event (co_fail_event opts) dn (co_from opts) (co_fail_to opts) remote_ip st"

locale chain_mutation =
  fixes ty dn remote_ip :: string
    and w0 :: "'a world_scheme"
    and opts :: "('a world_scheme) chain_opts"
    and written :: "'a world_scheme \<Rightarrow> string \<Rightarrow> bool"
  assumes type_known: "ty \<in> file_types"
    and opts_type: "co_file_type opts = ty"
    and opts_path: "co_conf_path opts = managed_dir (env w0) @ ''/'' @ overlay_name (ulower w0) ty dn"
    and mutate_stays: "fs_wf v \<Longrightarrow> same_settings w0 v \<Longrightarrow> co_mutate opts v = (r, v') \<Longrightarrow>
      stays v v' (overlay_area w0 ty dn)"
    and mutate_ok: "fs_wf v \<Longrightarrow> same_settings w0 v \<Longrightarrow> co_mutate opts v = (Inr u, v') \<Longrightarrow>
      audits v' = audits v \<and> (\<exists>c. written v c \<and> node_at v' (overlay_at w0 ty dn) = Some (Reg c 420))"
    and mutate_err: "fs_wf v \<Longrightarrow> same_settings w0 v \<Longrightarrow> co_mutate opts v = (Inl e, v') \<Longrightarrow>
      node_at v' (overlay_at w0 ty dn) = node_at v (overlay_at w0 ty dn)
      \<and> (\<exists>st. audits v' = audits v @ [failure_event dn remote_ip opts st])"
begin

abbreviation "ov \<equiv> overlay_at w0 ty dn"

lemma conf_resolves: "same_settings w0 v \<Longrightarrow> resolve (cwd v) (co_conf_path opts) = ov"
  using resolve_overlay(1) [OF type_known, of w0 dn] by (simp add: opts_path same_settings_def)

lemma area_sub: "overlay_area w0 ty dn \<subseteq> chain_paths w0 ty dn" "snapshot_paths w0 ty dn \<subseteq> chain_paths w0 ty dn"
  by (auto simp: overlay_area_def chain_paths_def)

text \<open>The two steps before the mutation leave the overlay as it was.\<close>

lemma before_mutate:
  assumes "fs_wf w0" "read_previous_state (co_conf_path opts) w0 = (r1, w1)" "backup dn ty w1 = (r2, w2)"
  shows "stays w0 w1 {}" "stays w0 w2 (snapshot_paths w0 ty dn)" "audits w1 = audits w0"
    "audits w2 = audits w0" "node_at w2 ov = node_at w0 ov" "fs_wf w2" "same_settings w0 w2"
    "w1 = tock w0"
proof -
  show w1: "w1 = tock w0"
    using read_previous_state_Inl assms(2)
      read_previous_state_spec(1) [OF _ conf_resolves [of w0]] by (cases r1) (auto simp: same_settings_def)
  then show "stays w0 w1 {}" "audits w1 = audits w0" by simp_all
  have wf1: "fs_wf w1" using assms(1) w1 by simp
  have p: "snapshot_paths w1 ty dn = snapshot_paths w0 ty dn" "overlay_at w1 ty dn = ov"
    by (simp_all add: w1 snapshot_paths_def backups_at_def overlay_at_def)
  note b = backup_stays [OF assms(3) type_known wf1]
  from b(1) show s: "stays w0 w2 (snapshot_paths w0 ty dn)" unfolding p by (simp add: w1)
  from b(2) show "audits w2 = audits w0" by (simp add: w1)
  from backup_keeps_overlay [OF assms(3) type_known wf1] show "node_at w2 ov = node_at w0 ov"
    unfolding p by (simp add: w1)
  from s assms(1) show "fs_wf w2" "same_settings w0 w2" by (auto dest: stays_wf stays_settings)
qed

text \<open>After a failed reload the overlay has its old bytes again, unless restoring failed too.\<close>

lemma after_reload:
  assumes "same_settings w0 v" "node_at v ov = Some (Reg c m)" "fs_wf v"
    and "restore_state (co_conf_path opts) previous existed v = (r, w')"
  shows "stays v w' (overlay_area w0 ty dn)" "audits w' = audits v"
    and "r = Inr u \<Longrightarrow> overlay_bytes w' ty dn = (if existed then Some previous else None)"
    and "r = Inl e \<Longrightarrow> overlay_bytes w' ty dn = Some c"
proof -
  have o: "overlay_at v ty dn = ov" by (rule settings_at [OF assms(1)])
  have path: "co_conf_path opts = managed_dir (env v) @ ''/'' @ overlay_name (ulower v) ty dn"
    using assms(1) by (simp add: opts_path same_settings_def)
  note rs = restore_state_spec [OF assms(4) [unfolded path] type_known, unfolded o]
  have ns: "node_at v ov \<noteq> Some SubDir" using assms(2) by simp
  obtain t where ch: "t \<in> temps ov" "changes v w' {ov, t}" using rs(1) [OF ns] by blast
  show st: "stays v w' (overlay_area w0 ty dn)"
    by (rule stays_mono [OF stays_changes [OF ch(2)]]) (use ch(1) in \<open>auto simp: overlay_area_def\<close>)
  show "audits w' = audits v" using changes_proc [OF ch(2)] by simp
  show "r = Inr u \<Longrightarrow> overlay_bytes w' ty dn = (if existed then Some previous else None)"
    by (rule rs(2) [OF ns])
  have "overlay_at w' ty dn = ov" using changes_at [OF ch(2)] o by simp
  then show "r = Inl e \<Longrightarrow> overlay_bytes w' ty dn = Some c"
    using rs(3) [OF ns] assms(2) by (simp add: overlay_bytes_def)
qed

end

text \<open>The outcomes of a chain.\<close>

definition restore_failed :: "gerr \<Rightarrow> bool" where
  "restore_failed e \<longleftrightarrow> (\<exists>e1 e2. e =
     Errorf ''error reloading Caddy: %v; error restoring overlay: %w'' [] [e1] (Some (OsErr e2)))"

context chain_mutation
begin

lemma run_chain_cases:
  assumes "fs_wf w0" "run_chain dn remote_ip opts w0 = (r, w')"
  obtains
    (not_written) e st where "r = Inl e" "stays w0 w' (chain_paths w0 ty dn)"
      "node_at w' ov = node_at w0 ov" "audits w' = audits w0 @ [failure_event dn remote_ip opts st]"
  | (not_reloaded) e st v c where "r = Inl e" "stays w0 w' (chain_paths w0 ty dn)"
      "same_settings w0 v" "written v c" "backup dn ty (tock w0) = (Inr (), v)"
      "overlay_bytes w' ty dn = overlay_bytes w0 ty dn \<or> restore_failed e \<and> overlay_bytes w' ty dn = Some c"
      "audits w' = audits w0 @
        [chain_event (co_reload_fail_event opts) dn (co_from opts) (co_to opts) remote_ip st]"
  | (installed) v c v3 v4 where "r = Inr ()" "stays w0 w' (chain_paths w0 ty dn)"
      "same_settings w0 v" "written v c" "backup dn ty (tock w0) = (Inr (), v)"
      "node_at w0 ov \<noteq> Some SubDir" "node_at v3 ov = Some (Reg c 420)" "same_settings w0 v3" "reload v3 = (Inr (), v4)"
      "w' = log_action (co_success_event opts) dn (co_from opts) (co_to opts) remote_ip (Text ''success'' []) v4"
      "node_at w' ov = Some (Reg c 420)" "audits v4 = audits w0"
proof -
  let ?P = "chain_paths w0 ty dn"
  obtain r1 w1 where 1: "read_previous_state (co_conf_path opts) w0 = (r1, w1)" by fastforce
  obtain r2 w2 where 2: "backup dn ty w1 = (r2, w2)" by fastforce
  note b = before_mutate [OF assms(1) 1 2]
  have s1: "stays w0 w1 ?P" and s2: "stays w0 w2 ?P"
    using stays_mono [OF b(1)] stays_mono [OF b(2) area_sub(2)] by simp_all
  have fail: thesis
    if "r = Inl e" "w' = log_action (co_fail_event opts) dn (co_from opts) (co_fail_to opts) remote_ip st v"
      "stays w0 v ?P" "node_at v ov = node_at w0 ov" "audits v = audits w0" for e st v
    using that by (intro not_written [of e st]) (simp_all add: failure_event_def chain_event_def)
  show thesis
  proof (cases r1)
    case (Inl e)
    then show ?thesis
      using assms(2) 1 b s1
      by (intro fail [of "Errorf ''error reading previous state: %w'' [] [] (Some (OsErr e))"
            "Text ''read error: '' [OsErr e]" w1]) (auto simp: run_chain_def)
  next
    case (Inr pe)
    obtain previous existed where pe: "pe = (previous, existed)" by (cases pe)
    note rp = read_previous_state_spec [OF 1 [unfolded Inr pe] conf_resolves [of w0], simplified same_settings_def, simplified]
    show ?thesis
    proof (cases r2)
      case (Inl e)
      then show ?thesis
        using assms(2) 1 2 \<open>r1 = Inr pe\<close> pe b s2
        by (intro fail [of "Errorf ''error creating backup: %w'' [] [] (Some e)"
              "Text ''backup error: '' [e]" w2]) (auto simp: run_chain_def opts_type)
    next
      case r2: (Inr u2)
      have bk: "backup dn ty (tock w0) = (Inr (), w2)" using 2 r2 b(8) by simp
      obtain r3 w3 where 3: "co_mutate opts w2 = (r3, w3)" by fastforce
      have s23: "stays w2 w3 (overlay_area w0 ty dn)" by (rule mutate_stays [OF b(6,7) 3])
      have s3: "stays w0 w3 ?P" using stays_trans [OF s2 stays_mono [OF s23 area_sub(1)]] .
      show ?thesis
      proof (cases r3)
        case (Inl e)
        have "r = Inl e" "w' = w3"
          using assms(2) 1 2 3 \<open>r1 = Inr pe\<close> pe r2 Inl by (auto simp: run_chain_def opts_type)
        with mutate_err [OF b(6,7) 3 [unfolded Inl]] s3 b show ?thesis by (auto intro: not_written)
      next
        case r3: (Inr u3)
        from mutate_ok [OF b(6,7) 3 [unfolded r3]] obtain c
          where c: "written w2 c" "node_at w3 ov = Some (Reg c 420)" "audits w3 = audits w2" by blast
        have set3: "same_settings w0 w3" using s3 by (rule stays_settings)
        obtain r4 w4 where 4: "reload w3 = (r4, w4)" by fastforce
        note d = reload_disk [OF 4]
        have n4: "node_at w4 ov = Some (Reg c 420)" using c(2) same_disk_node [OF d] by simp
        have s4: "stays w0 w4 ?P" using stays_trans [OF s3 same_disk_stays [OF d]] .
        have a4: "audits w4 = audits w0" using same_disk_audits [OF d] c(3) b(4) by simp
        have set4: "same_settings w0 w4" using s4 by (rule stays_settings)
        have wf4: "fs_wf w4" using stays_wf [OF s4 assms(1)] .
        show ?thesis
        proof (cases r4)
          case (Inr u4)
          have "r = Inr ()" "w' = log_action (co_success_event opts) dn (co_from opts) (co_to opts)
              remote_ip (Text ''success'' []) w4"
            using assms(2) 1 2 3 4 \<open>r1 = Inr pe\<close> pe r2 r3 Inr by (auto simp: run_chain_def opts_type)
          with 4 Inr c n4 s4 a4 set3 b(7) bk rp(2) show ?thesis by (intro installed [of w2 c w3 w4]) simp_all
        next
          case (Inl e)
          obtain r5 w5 where 5: "restore_state (co_conf_path opts) previous existed w4 = (r5, w5)" by fastforce
          note ar = after_reload [OF set4 n4 wf4 5]
          have s5: "stays w0 w5 ?P" using stays_trans [OF s4 stays_mono [OF ar(1) area_sub(1)]] .
          have a5: "audits w5 = audits w0" using ar(2) a4 by simp
          have old: "overlay_bytes w0 ty dn = (if existed then Some previous else None)"
            using rp by (cases existed) (auto simp: overlay_bytes_def)
          obtain st where w': "w' = log_action (co_reload_fail_event opts) dn (co_from opts) (co_to opts) remote_ip st w5"
              and r: "r = Inl (case r5 of Inl re \<Rightarrow>
                Errorf ''error reloading Caddy: %v; error restoring overlay: %w'' [] [e] (Some (OsErr re))
              | Inr _ \<Rightarrow> Errorf ''error reloading Caddy: %w'' [] [] (Some e))"
            using assms(2) 1 2 3 4 5 \<open>r1 = Inr pe\<close> pe r2 r3 Inl
            by (cases r5) (auto simp: run_chain_def opts_type)
          have ob: "overlay_bytes w' ty dn = overlay_bytes w5 ty dn"
            by (simp add: w' overlay_bytes_def overlay_at_def)
          show ?thesis
          proof (rule not_reloaded [OF r _ b(7) c(1) bk])
            show "stays w0 w' ?P" using s5 by (simp add: w')
            show "audits w' = audits w0 @
                [chain_event (co_reload_fail_event opts) dn (co_from opts) (co_to opts) remote_ip st]"
              using a5 by (simp add: w' chain_event_def)
            show "overlay_bytes w' ty dn = overlay_bytes w0 ty dn \<or>
              restore_failed (case r5 of Inl re \<Rightarrow>
                Errorf ''error reloading Caddy: %v; error restoring overlay: %w'' [] [e] (Some (OsErr re))
              | Inr _ \<Rightarrow> Errorf ''error reloading Caddy: %w'' [] [] (Some e)) \<and> overlay_bytes w' ty dn = Some c"
              using ar(3,4) ob old by (cases r5) (auto simp: restore_failed_def)
          qed
        qed
      qed
    qed
  qed
qed

end

subsection \<open>The entry points keep the contract\<close>

lemma generate_and_write_spec:
  assumes run: "generate_and_write dn remote_ip opts generate v = (r, v')"
    and gen: "\<And>q v'. generate v = (q, v') \<Longrightarrow> v' = v \<or> v' = tock v"
    and ty: "ty \<in> file_types"
    and path: "co_conf_path opts = managed_dir (env v) @ ''/'' @ overlay_name (ulower v) ty dn"
  shows "stays v v' (overlay_area v ty dn)"
    and "r = Inr u \<Longrightarrow> audits v' = audits v \<and>
      (\<exists>c w. generate v = (Inr c, w) \<and> node_at v' (overlay_at v ty dn) = Some (Reg c 420))"
    and "r = Inl e \<Longrightarrow> node_at v' (overlay_at v ty dn) = node_at v (overlay_at v ty dn)
      \<and> (\<exists>st. audits v' = audits v @ [failure_event dn remote_ip opts st])"
proof -
  let ?o = "overlay_at v ty dn"
  obtain q w1 where 1: "generate v = (q, w1)" by fastforce
  have w1: "stays v w1 S" "audits w1 = audits v" "node_at w1 = node_at v" "same_settings v w1" for S
    using gen [OF 1] by (auto simp: same_settings_def)
  have "stays v v' (overlay_area v ty dn)
    \<and> (r = Inr () \<longrightarrow> audits v' = audits v \<and>
      (\<exists>c w. generate v = (Inr c, w) \<and> node_at v' ?o = Some (Reg c 420)))
    \<and> (\<forall>e. r = Inl e \<longrightarrow> node_at v' ?o = node_at v ?o
      \<and> (\<exists>st. audits v' = audits v @ [failure_event dn remote_ip opts st]))"
  proof (cases q)
    case (Inl e)
    with run 1 w1 show ?thesis
      by (auto simp: generate_and_write_def failure_event_def audits_log simp del: audits_log_action)
  next
    case (Inr c)
    have path1: "co_conf_path opts = managed_dir (env w1) @ ''/'' @ overlay_name (ulower w1) ty dn"
      using path w1(4) by (simp add: same_settings_def)
    obtain q2 w2 where 2: "atomic_write (co_conf_path opts) c w1 = (q2, w2)" by fastforce
    note aw = atomic_write_overlay [OF 2 [unfolded path1] ty, unfolded settings_at [OF w1(4)]]
    obtain t where t: "t \<in> temps ?o" "changes w1 w2 {?o, t}" using aw(1) by blast
    have s2: "stays v w2 (overlay_area v ty dn)"
      using stays_trans [OF w1(1) stays_mono [OF stays_changes [OF t(2)]]] t(1)
      by (simp add: overlay_area_def)
    have a2: "audits w2 = audits v" using changes_proc [OF t(2)] w1(2) by simp
    show ?thesis
    proof (cases q2)
      case q2: (Inl e)
      have "r = Inl (Errorf ''error writing configuration: %w'' [] [] (Some (OsErr e)))"
        "v' = log_action (co_fail_event opts) dn (co_from opts) (co_fail_to opts) remote_ip
           (Text ''write error: '' [OsErr e]) w2"
        using run 1 2 Inr q2 by (auto simp: generate_and_write_def)
      with s2 a2 aw(3) q2 w1(3) show ?thesis
        by (auto simp: failure_event_def audits_log simp del: audits_log_action)
    next
      case q2: (Inr u')
      have "r = Inr ()" "v' = w2" using run 1 2 Inr q2 by (auto simp: generate_and_write_def)
      with s2 a2 aw(2) q2 1 Inr show ?thesis by auto
    qed
  qed
  then show "stays v v' (overlay_area v ty dn)"
    "r = Inr u \<Longrightarrow> audits v' = audits v \<and>
      (\<exists>c w. generate v = (Inr c, w) \<and> node_at v' ?o = Some (Reg c 420))"
    "r = Inl e \<Longrightarrow> node_at v' ?o = node_at v ?o
      \<and> (\<exists>st. audits v' = audits v @ [failure_event dn remote_ip opts st])" by auto
qed

lemma with_mutation_fields [simp]:
  "co_file_type (with_mutation f opts) = co_file_type opts"
  "co_conf_path (with_mutation f opts) = co_conf_path opts"
  "co_fail_event (with_mutation f opts) = co_fail_event opts"
  "co_from (with_mutation f opts) = co_from opts" "co_fail_to (with_mutation f opts) = co_fail_to opts"
  "co_to (with_mutation f opts) = co_to opts"
  "co_success_event (with_mutation f opts) = co_success_event opts"
  "co_reload_fail_event (with_mutation f opts) = co_reload_fail_event opts"
  "co_mutate (with_mutation f opts) = f opts"
  by (simp_all add: with_mutation_def)

lemma failure_event_with [simp]:
  "failure_event dn remote_ip (with_mutation f opts) st = failure_event dn remote_ip opts st"
  by (simp add: failure_event_def)

lemma overlay_area_at: "same_settings w v \<Longrightarrow> overlay_area v ty dn = overlay_area w ty dn"
  by (simp add: overlay_area_def settings_at)

lemma generator_contract:
  assumes gen: "\<And>v q v'. generate v = (q, v') \<Longrightarrow> v' = v \<or> v' = tock v"
    and ty: "ty \<in> file_types"
    and opts: "opts = with_mutation (\<lambda>opts. generate_and_write dn remote_ip opts generate) opts0"
    and "co_file_type opts0 = ty"
    and path: "co_conf_path opts0 = managed_dir (env w) @ ''/'' @ overlay_name (ulower w) ty dn"
  shows "chain_mutation ty dn remote_ip w opts (\<lambda>v c. \<exists>v'. generate v = (Inr c, v'))"
proof
  have mut: "co_mutate opts = generate_and_write dn remote_ip opts0 generate" by (simp add: opts)
  have spec:
    "stays v v' (overlay_area w ty dn)
     \<and> (r = Inr () \<longrightarrow> audits v' = audits v \<and>
         (\<exists>c. (\<exists>v'. generate v = (Inr c, v')) \<and> node_at v' (overlay_at w ty dn) = Some (Reg c 420)))
     \<and> (\<forall>e. r = Inl e \<longrightarrow> node_at v' (overlay_at w ty dn) = node_at v (overlay_at w ty dn)
         \<and> (\<exists>st. audits v' = audits v @ [failure_event dn remote_ip opts st]))"
    if "same_settings w v" "co_mutate opts v = (r, v')" for v v' r
  proof -
    have run: "generate_and_write dn remote_ip opts0 generate v = (r, v')" using that(2) by (simp add: mut)
    have p: "co_conf_path opts0 = managed_dir (env v) @ ''/'' @ overlay_name (ulower v) ty dn"
      using that(1) path by (simp add: same_settings_def)
    note s = generate_and_write_spec [OF run gen ty p, unfolded settings_at [OF that(1)] overlay_area_at [OF that(1)]]
    show ?thesis using s by (auto simp: opts)
  qed
  show "stays v v' (overlay_area w ty dn)"
    if "same_settings w v" "co_mutate opts v = (r, v')" for v v' r
    using spec [OF that] by blast
  show "audits v' = audits v \<and>
      (\<exists>c. (\<exists>v'. generate v = (Inr c, v')) \<and> node_at v' (overlay_at w ty dn) = Some (Reg c 420))"
    if "same_settings w v" "co_mutate opts v = (Inr u, v')" for v v' u
    using spec [OF that] by simp
  show "node_at v' (overlay_at w ty dn) = node_at v (overlay_at w ty dn)
      \<and> (\<exists>st. audits v' = audits v @ [failure_event dn remote_ip opts st])"
    if "same_settings w v" "co_mutate opts v = (Inl e, v')" for v v' e
    using spec [OF that] by simp
qed (use assms in auto)

lemma generate_waf_snippet_step:
  "generate_waf_snippet st a i v = (q, v') \<Longrightarrow> v' = tock v"
  by (auto simp: generate_waf_snippet_def Let_def time_now_def)

lemma generate_exclusions_step:
  "generate_exclusions st exs v = (q, v') \<Longrightarrow> v' = v \<or> v' = tock v"
  by (auto simp: generate_exclusions_def Let_def time_now_def split: option.splits)

lemma file_types_known [simp]:
  "file_type_waf \<in> file_types" "file_type_exclusions \<in> file_types" "file_type_ip_rules \<in> file_types"
  by (simp_all add: file_types_def)

lemma config_paths:
  "waf_config_path L d dn = d @ ''/'' @ overlay_name L file_type_waf dn"
  "exclusions_config_path L d dn = d @ ''/'' @ overlay_name L file_type_exclusions dn"
  "ip_rules_config_path L d dn = d @ ''/'' @ overlay_name L file_type_ip_rules dn"
  by (simp_all add: waf_config_path_def exclusions_config_path_def ip_rules_config_path_def
      overlay_name_def file_type_defs)

definition waf_generator ::
  "string \<Rightarrow> string \<Rightarrow> ('a) world_scheme \<Rightarrow> (gerr + string) \<times> ('a) world_scheme" where
  "waf_generator dn md v =
     generate_waf_snippet (new_site dn md) (audit_log_path (env v)) (include_dir (env v)) v"

interpretation waf_chain: chain_mutation file_type_waf dn remote_ip w
  "waf_mode_opts dn md remote_ip w" "\<lambda>v c. \<exists>v'. waf_generator dn md v = (Inr c, v')"
  for dn md remote_ip w
  by (rule generator_contract)
    (auto simp: waf_mode_opts_def waf_generator_def [abs_def] config_paths dest: generate_waf_snippet_step)

interpretation exclusions_chain: chain_mutation file_type_exclusions dn remote_ip w
  "exclusions_opts dn exs remote_ip w"
  "\<lambda>v c. \<exists>v'. generate_exclusions (new_site dn []) exs v = (Inr c, v')"
  for dn exs remote_ip w
  by (rule generator_contract)
    (auto simp: exclusions_opts_def config_paths dest: generate_exclusions_step)

interpretation ip_rules_chain: chain_mutation file_type_ip_rules dn remote_ip w
  "ip_rules_opts dn rules remote_ip w"
  "\<lambda>v c. \<exists>v'. generate_ip_rules (new_site dn []) rules v = (Inr c, v')"
  for dn rules remote_ip w
  by (rule generator_contract)
    (auto simp: ip_rules_opts_def config_paths dest: generate_ip_rules_step)

text \<open>
  A rollback keeps the contract for every valid snapshot name; what it installs is the snapshot
  found in the backup directory at that moment.
\<close>

lemma rollback_contract:
  fixes w :: "'a world_scheme"
  assumes "stamp_ok ts" "ty \<in> file_types" "sid = snapshot_name ts ty"
    and conf: "conf = managed_dir (env w) @ ''/'' @ overlay_name (ulower w) ty dn"
  shows "chain_mutation ty dn remote_ip w (rollback_opts dn sid remote_ip ty conf)
    (\<lambda>v c. \<exists>m. node_at v (backups_at w dn @ [sid]) = Some (Reg c m))"
proof
  let ?opts = "rollback_opts dn sid remote_ip ty conf :: ('a world_scheme) chain_opts"
  have spec:
    "stays v v' (overlay_area w ty dn)
     \<and> (r = Inr () \<longrightarrow> audits v' = audits v \<and>
         (\<exists>c. (\<exists>m. node_at v (backups_at w dn @ [sid]) = Some (Reg c m))
            \<and> node_at v' (overlay_at w ty dn) = Some (Reg c 420)))
     \<and> (\<forall>e. r = Inl e \<longrightarrow> node_at v' (overlay_at w ty dn) = node_at v (overlay_at w ty dn)
         \<and> (\<exists>st. audits v' = audits v @ [failure_event dn remote_ip ?opts st]))"
    if s: "same_settings w v" and m: "co_mutate ?opts v = (r, v')" for v v' r
  proof -
    obtain q v1 where 1: "restore_backup dn sid v = (q, v1)" by fastforce
    have b: "backups_at v dn = backups_at w dn" using s by (simp add: same_settings_def backups_at_def)
    note rb = restore_backup_spec [OF 1 assms(3,1,2), unfolded settings_at [OF s] b]
    obtain t where t: "t \<in> temps (overlay_at w ty dn)" "changes v v1 {overlay_at w ty dn, t}"
      using rb(1) by blast
    have s1: "stays v v1 (overlay_area w ty dn)"
      by (rule stays_mono [OF stays_changes [OF t(2)]]) (use t(1) in \<open>auto simp: overlay_area_def\<close>)
    have a1: "audits v1 = audits v" using changes_proc [OF t(2)] by simp
    show ?thesis
    proof (cases q)
      case (Inl e)
      then have "r = Inl (Errorf ''error restoring snapshot: %w'' [] [] (Some e))"
        "v' = log_action ''rollback_failed'' dn sid [] remote_ip (Text ''restore error: '' [e]) v1"
        using m 1 by (auto simp: rollback_opts_def)
      with s1 a1 rb(3) Inl show ?thesis
        by (auto simp: failure_event_def rollback_opts_def audits_log simp del: audits_log_action)
    next
      case (Inr u)
      then have "r = Inr ()" "v' = v1" using m 1 by (auto simp: rollback_opts_def)
      with s1 a1 rb(2) Inr show ?thesis by auto
    qed
  qed
  show "stays v v' (overlay_area w ty dn)"
    if "same_settings w v" "co_mutate ?opts v = (r, v')" for v v' r
    using spec [OF that] by blast
  show "audits v' = audits v \<and> (\<exists>c. (\<exists>m. node_at v (backups_at w dn @ [sid]) = Some (Reg c m))
        \<and> node_at v' (overlay_at w ty dn) = Some (Reg c 420))"
    if "same_settings w v" "co_mutate ?opts v = (Inr u, v')" for v v' u
    using spec [OF that] by simp
  show "node_at v' (overlay_at w ty dn) = node_at v (overlay_at w ty dn)
      \<and> (\<exists>st. audits v' = audits v @ [failure_event dn remote_ip ?opts st])"
    if "same_settings w v" "co_mutate ?opts v = (Inl e, v')" for v v' e
    using spec [OF that] by simp
qed (use assms in \<open>auto simp: rollback_opts_def\<close>)

subsection \<open>Public entries\<close>

text \<open>
  The operations of the package on the overlay of type \<open>ty\<close> of a domain. Only a rollback names a
  type through its argument.
\<close>

inductive public_entry ::
  "string \<Rightarrow> string \<Rightarrow> string \<Rightarrow> ('a world_scheme \<Rightarrow> (gerr + unit) \<times> 'a world_scheme) \<Rightarrow> bool"
  for dn remote_ip where
  waf_mode: "public_entry dn remote_ip file_type_waf (update_waf_mode dn md remote_ip)"
| exclusions: "public_entry dn remote_ip file_type_exclusions (update_exclusions dn exs remote_ip)"
| ip_rules: "public_entry dn remote_ip file_type_ip_rules (update_ip_rules dn rules remote_ip)"
| rollback: "backup_type sid = Inr ty \<Longrightarrow> public_entry dn remote_ip ty (rollback dn sid remote_ip)"

definition success_events :: "string set" where
  "success_events = {''waf_mode_changed'', ''exclusions_updated'', ''iprules_updated'', ''rollback_restored''}"

lemma public_entry_type: "public_entry dn ip ty f \<Longrightarrow> ty \<in> file_types"
  by (induction rule: public_entry.induct) (auto simp: backup_type_Inr)

text \<open>
  Every entry either refuses its arguments without touching anything, or is a chain run that
  keeps the contract, with event names of its own.
\<close>

definition events_ok :: "'w chain_opts \<Rightarrow> bool" where
  "events_ok opts \<longleftrightarrow> co_success_event opts \<in> success_events \<and> co_fail_event opts \<notin> success_events
     \<and> co_reload_fail_event opts \<notin> success_events"

lemma events_ok_opts:
  "events_ok (waf_mode_opts dn md ip w)" "events_ok (exclusions_opts dn exs ip w)"
  "events_ok (ip_rules_opts dn rules ip w)" "events_ok (rollback_opts dn sid ip ty conf)"
  by (simp_all add: events_ok_def success_events_def waf_mode_opts_def exclusions_opts_def
      ip_rules_opts_def rollback_opts_def)

definition chain_run ::
  "string \<Rightarrow> string \<Rightarrow> string \<Rightarrow> ('a) world_scheme \<Rightarrow> ('a world_scheme) chain_opts \<Rightarrow>
     ('a world_scheme \<Rightarrow> string \<Rightarrow> bool) \<Rightarrow> bool" where
  "chain_run dn ip ty w opts written \<longleftrightarrow>
     validate_domain dn = None \<and> events_ok opts \<and> chain_mutation ty dn ip w opts written"

lemma public_entry_cases:
  fixes w :: "'a world_scheme"
  assumes "public_entry dn ip ty f" "f w = (r, w')"
  shows "(\<exists>e. r = Inl e \<and> w' = w) \<or>
    (\<exists>opts written. chain_run dn ip ty w opts written \<and> run_chain dn ip opts w = (r, w'))"
  using assms
proof (induction rule: public_entry.induct)
  case (waf_mode md)
  have "chain_run dn ip file_type_waf w (waf_mode_opts dn md ip w)
      (\<lambda>v c. \<exists>v'. waf_generator dn md v = (Inr c, v'))" if "validate_domain dn = None"
    unfolding chain_run_def by (intro conjI that events_ok_opts waf_chain.chain_mutation_axioms)
  with waf_mode show ?case by (auto simp: update_waf_mode_def split: option.splits if_splits)
next
  case (exclusions exs)
  have "chain_run dn ip file_type_exclusions w (exclusions_opts dn exs ip w)
      (\<lambda>v c. \<exists>v'. generate_exclusions (new_site dn []) exs v = (Inr c, v'))" if "validate_domain dn = None"
    unfolding chain_run_def by (intro conjI that events_ok_opts exclusions_chain.chain_mutation_axioms)
  with exclusions show ?case by (auto simp: update_exclusions_def split: option.splits)
next
  case (ip_rules rules)
  have "chain_run dn ip file_type_ip_rules w (ip_rules_opts dn rules ip w)
      (\<lambda>v c. \<exists>v'. generate_ip_rules (new_site dn []) rules v = (Inr c, v'))" if "validate_domain dn = None"
    unfolding chain_run_def by (intro conjI that events_ok_opts ip_rules_chain.chain_mutation_axioms)
  with ip_rules show ?case by (auto simp: update_ip_rules_def split: option.splits)
next
  case (rollback sid ty)
  then obtain ts where sid: "stamp_ok ts" "ty \<in> file_types" "sid = snapshot_name ts ty"
    by (auto simp: backup_type_Inr)
  let ?opts = "rollback_opts dn sid ip ty (managed_dir (env w) @ ''/'' @ overlay_name (ulower w) ty dn)
    :: ('a world_scheme) chain_opts"
  have "chain_run dn ip ty w ?opts (\<lambda>v c. \<exists>m. node_at v (backups_at w dn @ [sid]) = Some (Reg c m))"
    if "validate_domain dn = None"
    unfolding chain_run_def by (intro conjI that events_ok_opts rollback_contract [OF sid refl])
  moreover have "w' = w \<and> (\<exists>e. r = Inl e) \<or> validate_domain dn = None \<and> run_chain dn ip ?opts w = (r, w')"
    using rollback by (auto simp: rollback_def overlay_path_form [OF sid(2)] split: option.splits)
  ultimately show ?case by auto
qed

end
