(* ===== verification/ChainProps.thy ===== *)
theory ChainProps
  imports Chain
begin

text \<open>
  What a caller of \<open>internal/service\<close> can rely on, proved for every public entry at once from the
  outcomes of \<open>run_chain\<close>: for any I/O fault at any system call, any answer of the Admin API and
  any readings of the clock.
\<close>

lemma overlay_bytes_same:
  "stays w w' S \<Longrightarrow> node_at w' (overlay_at w ty dn) = node_at w (overlay_at w ty dn) \<Longrightarrow>
     overlay_bytes w' ty dn = overlay_bytes w ty dn"
  by (simp add: overlay_bytes_def stays_at)

lemma last_readback_log [simp]: "last_readback (log_action ev d f t ip s w) = last_readback w"
  by (simp add: log_action_def log_append_def)

text \<open>What a success rests on: the overlay was new when a reload succeeded.\<close>

definition committed ::
  "('a) world_scheme \<Rightarrow> ('a) world_scheme \<Rightarrow> string \<Rightarrow> string \<Rightarrow> string \<Rightarrow> bool" where
  "committed w w' ty dn c \<longleftrightarrow>
     node_at w' (overlay_at w ty dn) = Some (Reg c 420) \<and>
     (\<exists>v v'. same_settings w v \<and> node_at v (overlay_at w ty dn) = Some (Reg c 420)
        \<and> reload v = (Inr (), v') \<and> tree w' = tree v' \<and> last_readback w' = last_readback v')"

lemma entry_outcome:
  fixes w :: "'a world_scheme"
  assumes "public_entry dn ip ty f" "fs_wf w" "f w = (r, w')"
  shows "stays w w' (chain_paths w ty dn)
    \<and> (\<forall>e. r = Inl e \<longrightarrow> overlay_bytes w' ty dn = overlay_bytes w ty dn \<or> restore_failed e)
    \<and> (r \<noteq> Inr () \<and> w' = w \<or> (\<exists>ev. audits w' = audits w @ [ev] \<and> ev_domain ev = dn \<and> ev_remote_ip ev = ip
        \<and> (ev_event ev \<in> success_events \<longleftrightarrow> r = Inr ())))
    \<and> (r = Inr () \<longrightarrow> (\<exists>c. committed w w' ty dn c))"
proof -
  consider (refused) e where "r = Inl e" "w' = w"
    | (chain) opts written where "chain_run dn ip ty w opts written" "run_chain dn ip opts w = (r, w')"
    using public_entry_cases [OF assms(1,3)] by auto
  then show ?thesis
  proof cases
    case refused
    then show ?thesis by simp
  next
    case chain
    then have cm: "chain_mutation ty dn ip w opts written" and ev: "events_ok opts"
      by (simp_all add: chain_run_def)
    note ev = ev [unfolded events_ok_def]
    show ?thesis
    proof (rule chain_mutation.run_chain_cases [OF cm assms(2) chain(2)],
        goal_cases not_written not_reloaded installed)
      case (not_written e st)
      then show ?thesis using ev
        by (auto simp: overlay_bytes_same failure_event_def chain_event_def)
    next
      case (not_reloaded e st v c)
      then show ?thesis using ev by (auto simp: chain_event_def)
    next
      case (installed v c v3 v4)
      have "tree w' = tree v4" using installed(10) by simp
      then have "committed w w' ty dn c"
        using installed unfolding committed_def by auto
      then show ?thesis using installed ev by (auto simp: audits_log chain_event_def simp del: audits_log_action)
    qed
  qed
qed

text \<open>What a successful entry installed, entry by entry.\<close>

lemma run_chain_installed:
  fixes w :: "'a world_scheme"
  assumes "chain_mutation ty dn ip w opts written" "fs_wf w" "run_chain dn ip opts w = (Inr (), w')"
  shows "\<exists>v c. same_settings w v \<and> backup dn ty (tock w) = (Inr (), v) \<and> written v c
    \<and> node_at w (overlay_at w ty dn) \<noteq> Some SubDir \<and> node_at w' (overlay_at w ty dn) = Some (Reg c 420)"
  by (rule chain_mutation.run_chain_cases [OF assms]) auto

lemma backup_clock:
  "backup dn ty (tock w) = (r, v) \<Longrightarrow> ty \<in> file_types \<Longrightarrow> fs_wf w \<Longrightarrow> clock v = clock w"
  using backup_run [of dn ty "tock w" r v] by (auto dest: changes_fields)

lemma update_waf_mode_Inr:
  fixes w :: "'a world_scheme"
  assumes "fs_wf w" "update_waf_mode dn md ip w = (Inr (), w')"
  shows "validate_domain dn = None" "md \<in> {mode_on, mode_off, mode_detection_only}"
    "\<exists>k. node_at w' (overlay_at w file_type_waf dn) = Some (Reg (unlines (waf_lines (header dn md (clock w k)) md
        (filepath_join [include_dir (env w), ''exclusions-'' @ domain_slug (ulower w) dn @ ''.conf''])
        (audit_log_path (env w)))) 420)"
proof -
  show "validate_domain dn = None" "md \<in> {mode_on, mode_off, mode_detection_only}"
    using assms(2) by (auto simp: update_waf_mode_def split: option.splits if_splits)
  then have "run_chain dn ip (waf_mode_opts dn md ip w) w = (Inr (), w')"
    using assms(2) by (auto simp: update_waf_mode_def)
  from run_chain_installed [OF waf_chain.chain_mutation_axioms assms(1) this] backup_clock [of dn file_type_waf w] assms(1)
  show "\<exists>k. node_at w' (overlay_at w file_type_waf dn) = Some (Reg (unlines (waf_lines (header dn md (clock w k)) md
        (filepath_join [include_dir (env w), ''exclusions-'' @ domain_slug (ulower w) dn @ ''.conf''])
        (audit_log_path (env w)))) 420)"
    by (fastforce simp: waf_generator_def generate_waf_snippet_def Let_def time_now_def new_site_def same_settings_def)
qed

lemma update_exclusions_Inr:
  fixes w :: "'a world_scheme"
  assumes "fs_wf w" "update_exclusions dn exs ip w = (Inr (), w')"
  shows "validate_domain dn = None" "validate_exclusions exs = None"
    "\<exists>t. node_at w' (overlay_at w file_type_exclusions dn) = Some (Reg (unlines
        (exclusions_lines (header dn [] t) (exclusion_rows id_base (dedupe_exclusions exs)))) 420)"
proof -
  show "validate_domain dn = None" "validate_exclusions exs = None"
    using assms(2) by (auto simp: update_exclusions_def split: option.splits)
  then have "run_chain dn ip (exclusions_opts dn exs ip w) w = (Inr (), w')"
    using assms(2) by (simp add: update_exclusions_def)
  from run_chain_installed [OF exclusions_chain.chain_mutation_axioms assms(1) this]
  show "\<exists>t. node_at w' (overlay_at w file_type_exclusions dn) = Some (Reg (unlines
        (exclusions_lines (header dn [] t) (exclusion_rows id_base (dedupe_exclusions exs)))) 420)"
    using \<open>validate_exclusions exs = None\<close>
    by (auto simp: generate_exclusions_def Let_def time_now_def new_site_def)
qed

lemma update_ip_rules_Inr:
  fixes w :: "'a world_scheme"
  assumes "fs_wf w" "update_ip_rules dn rules ip w = (Inr (), w')"
  shows "validate_domain dn = None"
    "\<exists>t deny allow. normalize_ip_entries (denylist rules) = Inr deny
      \<and> normalize_ip_entries (allowlist rules) = Inr allow
      \<and> node_at w' (overlay_at w file_type_ip_rules dn) = Some (Reg (unlines (ip_rules_lines (header dn [] t)
        (domain_slug (ulower w) dn) (join '' '' deny) (join '' '' allow))) 420)"
proof -
  show "validate_domain dn = None"
    using assms(2) by (auto simp: update_ip_rules_def split: option.splits)
  then have "run_chain dn ip (ip_rules_opts dn rules ip w) w = (Inr (), w')"
    using assms(2) by (auto simp: update_ip_rules_def split: option.splits)
  moreover obtain deny allow where "normalize_ip_entries (denylist rules) = Inr deny"
      "normalize_ip_entries (allowlist rules) = Inr allow"
    using assms(2) validate_ip_rules_iff [of rules] by (auto simp: update_ip_rules_def split: option.splits)
  ultimately show "\<exists>t deny allow. normalize_ip_entries (denylist rules) = Inr deny
      \<and> normalize_ip_entries (allowlist rules) = Inr allow
      \<and> node_at w' (overlay_at w file_type_ip_rules dn) = Some (Reg (unlines (ip_rules_lines (header dn [] t)
        (domain_slug (ulower w) dn) (join '' '' deny) (join '' '' allow))) 420)"
    using run_chain_installed [OF ip_rules_chain.chain_mutation_axioms assms(1), of dn ip rules w']
    by (auto simp: generate_ip_rules_def Let_def time_now_def new_site_def same_settings_def)
qed

text \<open>
  A rollback installs the bytes the snapshot had, or, when the backup taken by the same chain got
  the snapshot's name, the bytes of the overlay itself.
\<close>

lemma snapshot_after_backup:
  assumes "fs_wf w" "ty \<in> file_types" "stamp_ok ts" and b: "backup dn ty w = (Inr (), v)"
    and ov: "node_at w (overlay_at w ty dn) \<noteq> Some SubDir"
    and s: "node_at v (backups_at w dn @ [snapshot_name ts ty]) = Some (Reg c m)"
  shows "(\<exists>m'. node_at w (backups_at w dn @ [snapshot_name ts ty]) = Some (Reg c m'))
    \<or> snapshot_name ts ty = backup_name w ty \<and> overlay_bytes w ty dn = Some c"
proof (cases "node_at w (overlay_at w ty dn)")
  case None
  then have "v = tock w" using backup_run [OF b assms(2,1)] by simp
  with s show ?thesis by auto
next
  case (Some x)
  let ?B = "backups_at w dn" and ?n = "snapshot_name ts ty"
  from Some ov obtain c0 m0 where x: "node_at w (overlay_at w ty dn) = Some (Reg c0 m0)" by (cases x) auto
  then obtain m' where m': "tree v ?B \<noteq> None"
      "after_backup ty (backup_keep (env w)) (backup_name w ty) (Reg c0 m') (listing w ?B) (listing v ?B)"
    using backup_run [OF b assms(2,1)] by auto
  have "map_of (listing v ?B) ?n = Some (Reg c m)" using s by (simp add: node_at_listing)
  then have "(?n, Reg c m) \<in> set (snaps ty (listing v ?B))"
    using assms(2,3) by (auto simp: snaps_def is_snapshot_iff dest: map_of_SomeD)
  then have "(?n, Reg c m) = (backup_name w ty, Reg c0 m') \<or> (?n, Reg c m) \<in> set (listing w ?B)"
    using snaps_after_bounds(3) [OF m'(2) backup_keep_pos listing_wf [OF assms(1)]] by auto
  moreover have "node_at w (?B @ [?n]) = Some (Reg c m)" if "(?n, Reg c m) \<in> set (listing w ?B)"
    using that listing_wf [OF assms(1), of ?B] by (simp add: node_at_listing dir_wf_distinct)
  ultimately show ?thesis using x by (auto simp: overlay_bytes_def)
qed

lemma rollback_Inr:
  fixes w :: "'a world_scheme"
  assumes "fs_wf w" "rollback dn sid ip w = (Inr (), w')"
  shows "\<exists>ty c. backup_type sid = Inr ty \<and> node_at w' (overlay_at w ty dn) = Some (Reg c 420)
    \<and> ((\<exists>m. node_at w (backups_at w dn @ [sid]) = Some (Reg c m))
      \<or> sid = backup_name (tock w) ty \<and> overlay_bytes w ty dn = Some c)"
proof -
  obtain ty where ty: "backup_type sid = Inr ty"
    using assms(2) by (auto simp: rollback_def split: option.splits sum.splits)
  then obtain ts where sid: "stamp_ok ts" "ty \<in> file_types" "sid = snapshot_name ts ty"
    by (auto simp: backup_type_Inr)
  let ?opts = "rollback_opts dn sid ip ty (managed_dir (env w) @ ''/'' @ overlay_name (ulower w) ty dn)
    :: ('a world_scheme) chain_opts"
  have "run_chain dn ip ?opts w = (Inr (), w')"
    using assms(2) ty by (auto simp: rollback_def overlay_path_form [OF sid(2)] split: option.splits)
  from run_chain_installed [OF rollback_contract [OF sid refl] assms(1) this] obtain v c m where
    v: "backup dn ty (tock w) = (Inr (), v)" "node_at v (backups_at w dn @ [sid]) = Some (Reg c m)"
      "node_at w (overlay_at w ty dn) \<noteq> Some SubDir" "node_at w' (overlay_at w ty dn) = Some (Reg c 420)"
    by blast
  have at: "overlay_at (tock w) ty dn = overlay_at w ty dn" "backups_at (tock w) dn = backups_at w dn"
    "overlay_bytes (tock w) ty dn = overlay_bytes w ty dn"
    by (simp_all add: overlay_at_def backups_at_def overlay_bytes_def)
  from snapshot_after_backup [of "tock w", OF _ sid(2,1) v(1)] v(2,3) assms(1)
  have "(\<exists>m. node_at w (backups_at w dn @ [sid]) = Some (Reg c m))
      \<or> sid = backup_name (tock w) ty \<and> overlay_bytes w ty dn = Some c"
    by (simp add: at sid(3))
  with ty v(4) show ?thesis by blast
qed

lemma host_field: "hostname_ok dn \<Longrightarrow> field_ok dn \<and> nl \<notin> set dn"
proof -
  assume h: "hostname_ok dn"
  have g: "\<forall>c \<in> set dn. is_graph c \<and> c \<noteq> CHR ''|''"
    using hostname_bytes [OF h] by (auto dest: host_byte_graph)
  moreover have "\<not> is_graph nl" by (simp add: is_graph_def less_eq_char_def)
  then have "nl \<notin> set dn" using g by blast
  ultimately show ?thesis using hostname_dots(1) [OF h] by (auto intro: field_okI)
qed

end
