(* ===== verification/Healthy.thy ===== *)
theory Healthy
  imports ChainProps
begin

text \<open>
  The other half of the chain's correctness: on a healthy system it succeeds. Healthy means no
  I/O fault, the directories in place, free temporary names, and an Admin API that accepts the
  Caddyfile and shows its hosts. The lemmas go operation by operation.
\<close>

subsection \<open>System calls\<close>

lemma dirs_closed:
  assumes "fs_wf w" "tree w p \<noteq> None"
  shows "node_at w (take k p) = Some SubDir"
  using assms(2)
proof (induction p arbitrary: k rule: rev_induct)
  case (snoc n p)
  have s: "node_at w (p @ [n]) = Some SubDir" using snoc.prems fs_wfD(2) [OF assms(1)] by auto
  then have "tree w p \<noteq> None" using node_at_Some_parent by fastforce
  with snoc.IH [of k] s show ?case by (cases "k \<le> length p") auto
qed simp

lemma not_below:
  assumes "fs_wf w" "tree w (butlast p) \<noteq> None"
  shows "\<not> below_file w p"
proof -
  have "node_at w (take k p) = Some SubDir" if "k < length p" for k
    using dirs_closed [OF assms, of k] that by (simp add: take_butlast)
  then show ?thesis by (auto simp: below_file_def list_ex_iff)
qed

lemma missing_parent: "fs_wf w \<Longrightarrow> tree w (butlast p) \<noteq> None \<Longrightarrow> missing w p = ENOENT"
  by (simp add: missing_def not_below)

lemma no_faults_changes: "changes w w' K \<Longrightarrow> no_faults w' = no_faults w"
  by (simp add: no_faults_def changes_fields)

lemma os_read_file_absent:
  assumes "fs_wf w" "no_faults w" "resolve (cwd w) f = p" "node_at w p = None" "tree w (butlast p) \<noteq> None"
  shows "os_read_file f w = (Inl (PathError ''open'' f ENOENT), tock w)"
  using assms missing_parent [of w p] by (simp add: os_read_file_def)

lemma os_stat_absent:
  assumes "fs_wf w" "no_faults w" "resolve (cwd w) f = p" "node_at w p = None" "tree w (butlast p) \<noteq> None"
  shows "os_stat f w = (Inl (PathError ''stat'' f ENOENT), tock w)"
  using assms missing_parent [of w p] by (simp add: os_stat_def)

text \<open>No temporary name of a write of \<open>p\<close> is taken.\<close>

definition temps_free :: "('a) fsys_scheme \<Rightarrow> path \<Rightarrow> bool" where
  "temps_free w p \<longleftrightarrow> (\<forall>t \<in> temps p. node_at w t = None)"

lemma atomic_write_ok:
  assumes "no_faults w" and p: "pth = d @ ''/'' @ n" "name_ok n" "d \<noteq> []"
    and q: "q = resolve (cwd w) pth" "tree w (butlast q) \<noteq> None" "node_at w q \<noteq> Some SubDir" "temps_free w q"
  shows "fst (atomic_write pth bytes w) = Inr ()"
proof -
  have base: "filepath_base pth = n" using p filepath_base_name by simp
  have qd: "q = resolve (cwd w) d @ [n]" using resolve_slash_name [OF p(2,3)] p(1) q(1) by simp
  have rd: "resolve (cwd w) (filepath_dir pth) = resolve (cwd w) d"
    using resolve_dir_name [OF p(2,3)] p(1) by simp
  let ?k = "tmp_num w (tick w)"
  define tmp where "tmp = filepath_dir pth @ (if has_suffix ''/'' (filepath_dir pth) then [] else ''/'') @ temp_name n ?k"
  have dne: "filepath_dir pth \<noteq> []" by (simp add: filepath_dir_def)
  have nsl: "CHR ''/'' \<notin> set n" using p(2) by (simp add: name_ok_def)
  have t: "resolve (cwd w) tmp = resolve (cwd w) d @ [temp_name n ?k]"
    unfolding tmp_def using temp_path [OF temp_name_ok [OF nsl] dne] rd by simp
  have tq: "resolve (cwd w) tmp \<in> temps q" by (auto simp: temps_iff t qd)
  have nq: "resolve (cwd w) tmp \<noteq> q" using t qd temp_name_neq [of n ?k] by auto
  have 1: "os_create_temp (filepath_dir pth) (filepath_base pth) w
      = (Inr tmp, tock (put_node (resolve (cwd w) tmp) (Reg [] 384) w))"
    using assms(1) q(2,4) tq t qd
    by (simp add: os_create_temp_def Let_def base tmp_def [symmetric] temps_free_def)
  let ?w1 = "tock (put_node (resolve (cwd w) tmp) (Reg [] 384) w)"
  note c1 = os_create_temp_at [OF 1 p, folded q(1)]
  have nf1: "no_faults ?w1" using no_faults_changes [OF c1(4)] assms(1) by simp
  obtain w2 where 2: "os_chmod tmp 420 ?w1 = (Inr (), w2)"
    using nf1 by (cases "os_chmod tmp 420 ?w1") (auto simp: os_chmod_def Let_def)
  have ch2: "changes ?w1 w2 {resolve (cwd w) tmp}"
    using os_chmod_changes [OF 2] resolve_same [OF c1(4), of tmp] by simp
  have n2: "node_at w2 (resolve (cwd w) tmp) = Some (Reg [] 420)"
    using os_chmod_Inr [OF 2] c1(3) resolve_same [OF c1(4), of tmp] by simp
  have ch2': "changes w w2 {resolve (cwd w) tmp}" by (rule changes_trans_same [OF c1(4) ch2])
  note e2 = resolve_same [OF ch2', of tmp]
  have nf2: "no_faults w2" using no_faults_changes [OF ch2'] assms(1) by simp
  obtain w3 where 3: "os_write tmp bytes w2 = (Inr (), w3)"
    using nf2 by (cases "os_write tmp bytes w2") (auto simp: os_write_def Let_def)
  have ch3: "changes w w3 {resolve (cwd w) tmp}"
    using changes_trans_same [OF ch2'] os_write_changes [OF 3] e2 by simp
  have n3: "node_at w3 (resolve (cwd w) tmp) = Some (Reg bytes 420)"
    using os_write_Inr [OF 3] n2 e2 by (metis append_Nil)
  have nf3: "no_faults w3" using no_faults_changes [OF ch3] assms(1) by simp
  have 4: "os_close tmp w3 = (Inr (), tock w3)" using nf3 by (simp add: os_close_def)
  have ch4: "changes w (tock w3) {resolve (cwd w) tmp}" using ch3 by simp
  have "node_at (tock w3) q \<noteq> Some SubDir" using changes_node [OF ch4, of q] nq q(3) by auto
  moreover have "tree (tock w3) (butlast q) \<noteq> None" using changes_tree_Some [OF ch4 q(2)] .
  ultimately obtain w5 where 5: "os_rename tmp pth (tock w3) = (Inr (), w5)"
    using n3 nf3 resolve_same [OF ch4] q(1)
    by (cases "os_rename tmp pth (tock w3)") (auto simp: os_rename_def Let_def)
  show ?thesis using 1 2 3 4 5 by (simp add: atomic_write_def)
qed

subsection \<open>Reload\<close>

definition caddy_accepts :: "('a) world_scheme \<Rightarrow> string \<Rightarrow> bool" where
  "caddy_accepts w caddyfile \<longleftrightarrow>
     validate_admin_url (url_parse w) (admin_url (env w)) = None
     \<and> url_parse w (admin_url (env w) @ ''/load'') \<noteq> None
     \<and> url_parse w (admin_url (env w) @ ''/config/apps/http/servers'') \<noteq> None
     \<and> (\<forall>t rq. \<exists>rs cfg. net w t rq = Inr rs \<and> rs_status_code rs = 200
          \<and> json_decode (limit_read (rs_body rs)) = Some cfg
          \<and> set (expected_hosts caddyfile) \<subseteq> set (collect_hosts cfg))"

lemma http_do_ok:
  assumes "caddy_accepts w c"
  shows "\<exists>rs cfg. http_do rq w = (Inr rs, tock (w\<lparr>sent := sent w @ [rq]\<rparr>)) \<and> rs_status_code rs = 200
    \<and> json_decode (limit_read (rs_body rs)) = Some cfg \<and> set (expected_hosts c) \<subseteq> set (collect_hosts cfg)"
  using assms by (auto simp: caddy_accepts_def http_do_def)

lemma caddy_accepts_same:
  "url_parse w' = url_parse w \<Longrightarrow> env w' = env w \<Longrightarrow> net w' = net w \<Longrightarrow>
     caddy_accepts w' c = caddy_accepts w c"
  by (simp add: caddy_accepts_def)

lemma reload_ok:
  assumes "no_faults w" "node_at w (resolve (cwd w) (caddyfile_path (env w))) = Some (Reg c m)"
    and acc: "caddy_accepts w c"
  shows "fst (reload w) = Inr ()"
proof -
  have 1: "os_read_file (caddyfile_path (env w)) w = (Inr c, tock w)"
    using assms(1,2) by (simp add: os_read_file_def)
  let ?rq = "\<lparr>rq_method = ''POST'', rq_url = admin_url (env w) @ ''/load'',
      rq_content_type = ''text/caddyfile'', rq_body = c\<rparr>"
  have acc1: "caddy_accepts (tock w) c" using acc by (simp add: caddy_accepts_def)
  from http_do_ok [OF this, of ?rq] obtain rs
    where 2: "http_do ?rq (tock w) = (Inr rs, tock ((tock w)\<lparr>sent := sent w @ [?rq]\<rparr>))" "rs_status_code rs = 200"
    by auto
  let ?w2 = "tock ((tock w)\<lparr>sent := sent w @ [?rq]\<rparr>)"
  have acc2: "caddy_accepts ?w2 c" using acc by (simp add: caddy_accepts_def)
  have f: "url_parse ?w2 = url_parse w" by simp_all
  obtain live n w3 where 3: "fetch_live_hosts (admin_url (env w)) ?w2 = (Inr (live, n), w3)"
    "set (expected_hosts c) \<subseteq> set live"
  proof -
    let ?g = "\<lparr>rq_method = ''GET'', rq_url = admin_url (env w) @ ''/config/apps/http/servers'',
        rq_content_type = [], rq_body = []\<rparr>"
    from http_do_ok [OF acc2, of ?g] obtain rs' cfg
      where g: "http_do ?g ?w2 = (Inr rs', tock (?w2\<lparr>sent := sent ?w2 @ [?g]\<rparr>))" "rs_status_code rs' = 200"
        "json_decode (limit_read (rs_body rs')) = Some cfg" "set (expected_hosts c) \<subseteq> set (collect_hosts cfg)"
      by blast
    with g acc f that [of "collect_hosts cfg"] show thesis
      by (auto simp: fetch_live_hosts_def Let_def caddy_accepts_def)
  qed
  have "filter (\<lambda>h. h \<notin> set live) (expected_hosts c) = []" using 3(2) by (auto simp: filter_empty_conv)
  with 1 2 3(1) acc show ?thesis
    by (simp add: reload_def caddy_accepts_def Let_def time_now_def)
qed

subsection \<open>Backup\<close>

lemma changes_tock_left: "changes (tock w) w' K \<Longrightarrow> changes w w' K"
  by (rule changes_trans_same [of w "tock w"]) simp_all

lemma copy_file_ok:
  assumes "no_faults w" "node_at w (resolve (cwd w) src) = Some (Reg c m)"
    and d: "resolve (cwd w) dst = q" "tree w (butlast q) \<noteq> None" "node_at w q \<noteq> Some SubDir"
    and ne: "resolve (cwd w) src \<noteq> q"
  shows "fst (copy_file src dst w) = Inr ()"
proof -
  have 1: "os_open src w = (Inr (), tock w)" using assms(1,2) by (simp add: os_open_def)
  obtain w2 where 2: "os_create dst (tock w) = (Inr (), w2)"
    using assms(1) d by (cases "os_create dst (tock w)") (auto simp: os_create_def Let_def split: option.splits node.splits if_splits)
  have ch: "changes w w2 {q}" using os_create_changes [OF 2] d changes_tock_left by simp
  have "node_at w2 (resolve (cwd w2) src) = Some (Reg c m)"
    using assms(2) ne by (simp add: resolve_same [OF ch] changes_node [OF ch])
  moreover have "no_faults w2" using no_faults_changes [OF ch] assms(1) by simp
  ultimately have "fst (io_copy dst src w2) = Inr ()" by (simp add: io_copy_def os_write_def Let_def)
  with 1 2 show ?thesis by (cases "io_copy dst src w2") (simp add: copy_file_def Let_def)
qed

lemma remove_oldest_ok:
  assumes "no_faults w" "d \<noteq> []" "resolve (cwd w) d = p" "distinct ns"
    and "\<forall>n \<in> set ns. name_ok n \<and> (\<exists>c m. node_at w (p @ [n]) = Some (Reg c m))"
  shows "fst (remove_oldest d ns w) = Inr ()"
  using assms
proof (induction ns arbitrary: w)
  case (Cons n ns)
  let ?f = "filepath_join [d, n]"
  have rs: "resolve (cwd w) ?f = p @ [n]" using Cons.prems by (simp add: resolve_join_name)
  obtain c m where cm: "node_at w (p @ [n]) = Some (Reg c m)" using Cons.prems(5) by auto
  obtain w1 where 1: "os_remove ?f w = (Inr (), w1)"
    using Cons.prems(1) rs cm by (cases "os_remove ?f w") (auto simp: os_remove_def)
  have ch: "changes w w1 {p @ [n]}" using os_remove_changes [OF 1] rs cm by simp
  have "fst (remove_oldest d ns w1) = Inr ()"
  proof (rule Cons.IH)
    show "resolve (cwd w1) d = p" using Cons.prems(3) by (simp add: resolve_same [OF ch])
    show "no_faults w1" using no_faults_changes [OF ch] Cons.prems(1) by simp
    show "\<forall>k \<in> set ns. name_ok k \<and> (\<exists>c m. node_at w1 (p @ [k]) = Some (Reg c m))"
    proof
      fix k assume k: "k \<in> set ns"
      then have "node_at w1 (p @ [k]) = node_at w (p @ [k])"
        using Cons.prems(4) by (intro changes_node [OF ch]) auto
      with k Cons.prems(5) show "name_ok k \<and> (\<exists>c m. node_at w1 (p @ [k]) = Some (Reg c m))" by simp
    qed
  qed (use Cons.prems in auto)
  with 1 show ?case by simp
qed simp

lemma enforce_retention_ok:
  assumes "no_faults w" "fs_wf w" "d \<noteq> []" "resolve (cwd w) d = p" "tree w p = Some es"
  shows "fst (enforce_retention d ty limit w) = Inr ()"
proof -
  let ?bs = "filter (is_snapshot ty) es"
  have wf: "dir_wf es" using fs_wfD(1) [OF assms(2,5)] .
  have srt: "sort_key fst ?bs = ?bs" using sort_key_listing [OF wf, of ty] by (simp add: snaps_def)
  have dn: "distinct (map fst ?bs)" using dir_wf_distinct [OF wf] by (rule distinct_map_filter)
  have "fst (remove_oldest d (map fst (take k ?bs)) (tock w)) = Inr ()" for k
  proof (rule remove_oldest_ok)
    show "distinct (map fst (take k ?bs))" using dn by (simp flip: take_map)
    show "\<forall>n \<in> set (map fst (take k ?bs)). name_ok n \<and> (\<exists>c m. node_at (tock w) (p @ [n]) = Some (Reg c m))"
    proof
      fix n assume "n \<in> set (map fst (take k ?bs))"
      then have "\<exists>x. (n, x) \<in> set es \<and> is_snapshot ty (n, x)" by (fastforce dest: in_set_takeD)
      then obtain x where x: "(n, x) \<in> set es" "is_snapshot ty (n, x)" by blast
      then show "name_ok n \<and> (\<exists>c m. node_at (tock w) (p @ [n]) = Some (Reg c m))"
        using node_at_entry [OF assms(2,5) x(1)] by (cases x) (auto simp: is_snapshot_iff snapshot_name_ok)
    qed
  qed (use assms in auto)
  with assms srt show ?thesis by (simp add: enforce_retention_def os_read_dir_def Let_def)
qed

lemma backup_ok:
  assumes "no_faults w" "fs_wf w" "ty \<in> file_types"
    and ov: "tree w (butlast (overlay_at w ty dn)) \<noteq> None" "node_at w (overlay_at w ty dn) \<noteq> Some SubDir"
    and bd: "tree w (backups_at w dn) \<noteq> None"
    and nodir: "\<forall>q \<in> snapshot_paths w ty dn. node_at w q \<noteq> Some SubDir"
  shows "fst (backup dn ty w) = Inr ()"
proof -
  let ?o = "overlay_at w ty dn" and ?B = "backups_at w dn"
  let ?d = "backup_dir_path (ulower w) (backup_dir (env w)) dn"
  define src where "src = filepath_join [managed_dir (env w), ty @ ''-'' @ domain_slug (ulower w) dn @ ''.conf'']"
  have rs: "resolve (cwd w) src = ?o"
    using resolve_overlay(2) [OF assms(3)] by (simp add: src_def overlay_name_def)
  show ?thesis
  proof (cases "node_at w ?o")
    case None
    then have "os_stat src w = (Inl (PathError ''stat'' src ENOENT), tock w)"
      using os_stat_absent [OF assms(2,1) rs] ov(1) by simp
    then show ?thesis by (simp add: backup_def Let_def src_def)
  next
    case (Some x)
    then obtain c m where cm: "node_at w ?o = Some (Reg c m)" using ov(2) by (cases x) auto
    have 1: "os_stat src w = (Inr (Reg c m), tock w)" using assms(1) rs cm by (simp add: os_stat_def)
    have "resolve (cwd w) ?d = ?B" by (simp add: backups_at_def)
    moreover have "mkdirs (map (\<lambda>k. take k ?B) [1 ..< Suc (length ?B)]) (tock w) = (True, tock w)"
      using dirs_closed [OF assms(2) bd] by (intro mkdirs_exist) auto
    ultimately have 2: "os_mkdir_all ?d (tock w) = (Inr (), tock (tock w))"
      using assms(1) by (simp add: os_mkdir_all_def Let_def del: upt_Suc)
    define name where "name = backup_name w ty"
    have nm: "format_stamp (utc (clock w (Suc (Suc (tick w))))) @ CHR ''.'' # ty @ ''.conf'' = name"
      by (simp add: name_def backup_name_def snapshot_name_def)
    let ?v = "tock (tock (tock w))"
    have nok: "name_ok name" unfolding name_def backup_name_def by (rule stamp_name_ok [OF assms(3)])
    have dst: "resolve (cwd w) (filepath_join [?d, name]) = ?B @ [name]"
      using nok by (simp add: resolve_join_name backups_at_def)
    have sp: "?B @ [name] \<in> snapshot_paths w ty dn"
      by (auto simp: snapshot_paths_def name_def backup_name_def)
    have neq: "?o \<noteq> ?B @ [name]" using overlay_not_snapshot_path [OF assms(3,3)] sp by metis
    have "fst (copy_file src (filepath_join [?d, name]) ?v) = Inr ()"
      using assms(1) rs cm dst bd nodir sp neq by (intro copy_file_ok [where q = "?B @ [name]"]) auto
    then obtain w4 where 4: "copy_file src (filepath_join [?d, name]) ?v = (Inr (), w4)"
      by (cases "copy_file src (filepath_join [?d, name]) ?v") auto
    have ch: "changes w w4 {?B @ [name]}"
      using copy_file_changes [OF 4] changes_trans_same [of w ?v "{?B @ [name]}" w4] dst by simp
    have t4: "tree w4 ?B \<noteq> None" using changes_tree_Some [OF ch bd] .
    have "fst (enforce_retention ?d ty (backup_keep (env w)) w4) = Inr ()"
      using no_faults_changes [OF ch] assms(1) changes_wf [OF ch assms(2)] tree_listing [OF t4]
      by (intro enforce_retention_ok) (auto simp: resolve_same [OF ch] backups_at_def)
    with 1 2 4 nm show ?thesis
      by (simp add: backup_def Let_def time_now_def src_def)
  qed
qed

subsection \<open>The chain\<close>

text \<open>
  A world where a chain for this overlay cannot fail: directories in place, nothing in the way of
  the files to write, and an Admin API that takes the Caddyfile \<open>c\<close>.
\<close>

definition writable :: "('a) proc_scheme \<Rightarrow> string \<Rightarrow> string \<Rightarrow> bool" where
  "writable w ty dn \<longleftrightarrow> no_faults w \<and> tree w (butlast (overlay_at w ty dn)) \<noteq> None
     \<and> node_at w (overlay_at w ty dn) \<noteq> Some SubDir \<and> temps_free w (overlay_at w ty dn)"

definition healthy :: "('a) world_scheme \<Rightarrow> string \<Rightarrow> string \<Rightarrow> string \<Rightarrow> bool" where
  "healthy w ty dn c \<longleftrightarrow> fs_wf w \<and> writable w ty dn
     \<and> tree w (backups_at w dn) \<noteq> None \<and> (\<forall>q \<in> snapshot_paths w ty dn. node_at w q \<noteq> Some SubDir)
     \<and> (\<exists>m. node_at w (resolve (cwd w) (caddyfile_path (env w))) = Some (Reg c m))
     \<and> resolve (cwd w) (caddyfile_path (env w)) \<notin> chain_paths w ty dn \<and> caddy_accepts w c"

lemma changes_world:
  assumes "changes w w' K"
  shows "net w' = net w" "url_parse w' = url_parse w"
proof -
  have "w' = w\<lparr>tree := tree w', tick := tick w'\<rparr>" using assms by (simp add: changes_def)
  then have "net w' = net (w\<lparr>tree := tree w', tick := tick w'\<rparr>)"
    "url_parse w' = url_parse (w\<lparr>tree := tree w', tick := tick w'\<rparr>)" by metis+
  then show "net w' = net w" "url_parse w' = url_parse w" by simp_all
qed

lemma caddy_accepts_changes: "changes w w' K \<Longrightarrow> caddy_accepts w' c = caddy_accepts w c"
  by (rule caddy_accepts_same) (simp_all add: changes_world changes_proc)

text \<open>After the backup of a healthy world the overlay can still be written.\<close>

lemma temps_free_backup_area:
  assumes "fs_wf w" "tree w (backups_at w dn) \<noteq> None" "temps_free w (overlay_at w ty dn)"
    and "t \<in> temps (overlay_at w ty dn)"
  shows "t \<notin> backup_area w ty dn"
proof
  assume "t \<in> backup_area w ty dn"
  then consider k where "t = take k (backups_at w dn)" | "t \<in> snapshot_paths w ty dn"
    by (auto simp: backup_area_def)
  then show False
  proof cases
    case 1
    have "node_at w t = Some SubDir" unfolding 1 by (rule dirs_closed [OF assms(1,2)])
    with assms(3,4) show ?thesis by (simp add: temps_free_def)
  next
    case 2
    with assms(4) temp_not_snapshot show ?thesis by (auto simp: temps_iff snapshot_paths_def)
  qed
qed

lemma writable_backup:
  assumes h: "healthy w ty dn c" and b: "backup dn ty w = (r, w')" and ty: "ty \<in> file_types"
  shows "writable w' ty dn" "changes w w' (backup_area w ty dn)"
proof -
  have wf: "fs_wf w" and wr: "writable w ty dn" and bd: "tree w (backups_at w dn) \<noteq> None"
    using h by (simp_all add: healthy_def)
  show ch: "changes w w' (backup_area w ty dn)" using backup_run [OF b ty wf] by simp
  have o: "overlay_at w' ty dn = overlay_at w ty dn" using ch by (rule changes_at)
  have "temps_free w' (overlay_at w ty dn)"
    using wr temps_free_backup_area [OF wf bd] changes_node [OF ch]
    by (simp add: temps_free_def writable_def)
  then show "writable w' ty dn"
    using wr no_faults_changes [OF ch] changes_tree_Some [OF ch] backup_keeps_overlay [OF b ty wf]
    by (simp add: writable_def o)
qed

context chain_mutation
begin

lemma run_chain_if:
  assumes h: "healthy w0 ty dn c"
    and live: "\<And>v. backup dn ty (tock w0) = (Inr (), v) \<Longrightarrow> writable v ty dn \<Longrightarrow> fs_wf v \<Longrightarrow>
      same_settings w0 v \<Longrightarrow> \<exists>v'. co_mutate opts v = (Inr (), v') \<and> changes v v' (overlay_area w0 ty dn)"
  shows "fst (run_chain dn remote_ip opts w0) = Inr ()"
proof -
  have wf: "fs_wf w0" and wr: "writable w0 ty dn" using h by (simp_all add: healthy_def)
  note rs = conf_resolves [of w0, simplified same_settings_def, simplified]
  obtain pe where 1: "read_previous_state (co_conf_path opts) w0 = (Inr pe, tock w0)"
  proof (cases "node_at w0 ov")
    case None
    then have "os_read_file (co_conf_path opts) w0 =
        (Inl (PathError ''open'' (co_conf_path opts) ENOENT), tock w0)"
      using wf wr rs by (intro os_read_file_absent) (auto simp: writable_def)
    with that show thesis by (simp add: read_previous_state_def)
  next
    case (Some x)
    then obtain b m where "node_at w0 ov = Some (Reg b m)" using wr by (cases x) (auto simp: writable_def)
    then have "os_read_file (co_conf_path opts) w0 = (Inr b, tock w0)"
      using wr rs by (simp add: os_read_file_def writable_def)
    with that show thesis by (simp add: read_previous_state_def)
  qed
  have at: "overlay_at (tock w0) ty dn = ov" "backups_at (tock w0) dn = backups_at w0 dn"
    "snapshot_paths (tock w0) ty dn = snapshot_paths w0 ty dn"
    by (simp_all add: overlay_at_def backups_at_def snapshot_paths_def)
  have h1: "healthy (tock w0) ty dn c"
    using h by (simp add: healthy_def writable_def at chain_paths_def caddy_accepts_def temps_free_def)
  have "fst (backup dn ty (tock w0)) = Inr ()"
    using h1 type_known by (intro backup_ok) (auto simp: healthy_def writable_def)
  then obtain w2 where 2: "backup dn ty (tock w0) = (Inr (), w2)" by (cases "backup dn ty (tock w0)") auto
  note b = before_mutate [OF wf 1 2]
  note wb = writable_backup [OF h1 2 type_known]
  obtain w3 where 3: "co_mutate opts w2 = (Inr (), w3)" "changes w2 w3 (overlay_area w0 ty dn)"
    using live [OF 2 wb(1) b(6,7)] by blast
  have s3: "stays w0 w3 (chain_paths w0 ty dn)"
    using stays_trans [OF stays_mono [OF b(2) area_sub(2)] stays_mono [OF stays_changes [OF 3(2)] area_sub(1)]] .
  have "fst (reload w3) = Inr ()"
  proof (rule reload_ok)
    show "no_faults w3" using wb(1) no_faults_changes [OF 3(2)] by (simp add: writable_def)
    have "caddy_accepts w0 c" using h by (simp add: healthy_def)
    then show "caddy_accepts w3 c"
      using caddy_accepts_changes [OF 3(2)] caddy_accepts_changes [OF wb(2)] h1 by (simp add: healthy_def)
    let ?p = "resolve (cwd w0) (caddyfile_path (env w0))"
    obtain m where "node_at w0 ?p = Some (Reg c m)" "?p \<notin> chain_paths w0 ty dn"
      using h by (auto simp: healthy_def)
    then have "node_at w3 ?p = Some (Reg c m)" using s3 by (auto simp: stays_def keeps_nodes_def)
    with s3 show "node_at w3 (resolve (cwd w3) (caddyfile_path (env w3))) =
        Some (Reg c (case node_at w3 ?p of Some (Reg _ m) \<Rightarrow> m))"
      by (simp add: stays_def)
  qed
  with 1 2 3 show ?thesis
    by (cases pe; cases "reload w3") (simp add: run_chain_def opts_type)
qed

end

locale live_mutation = chain_mutation +
  assumes mutate_live: "fs_wf v \<Longrightarrow> same_settings w0 v \<Longrightarrow> writable v ty dn \<Longrightarrow>
    \<exists>v'. co_mutate opts v = (Inr (), v') \<and> changes v v' (overlay_area w0 ty dn)"
begin

lemma run_chain_ok: "healthy w0 ty dn c \<Longrightarrow> fst (run_chain dn remote_ip opts w0) = Inr ()"
  by (erule run_chain_if) (rule mutate_live)

end

lemma generate_and_write_live:
  assumes "generate v = (Inr s, v1)" "v1 = v \<or> v1 = tock v"
    and ty: "ty \<in> file_types" and wr: "writable v ty dn"
    and path: "co_conf_path opts = managed_dir (env v) @ ''/'' @ overlay_name (ulower v) ty dn"
  shows "\<exists>v'. generate_and_write dn' remote_ip opts generate v = (Inr (), v') \<and> changes v v' (overlay_area v ty dn)"
proof -
  let ?o = "overlay_at v ty dn"
  have v1: "node_at v1 = node_at v" "tree v1 = tree v" "same_settings v v1" "no_faults v1 = no_faults v"
    using assms(2) by (auto simp: same_settings_def)
  have o1: "overlay_at v1 ty dn = ?o" by (rule settings_at [OF v1(3)])
  have rs: "resolve (cwd v1) (co_conf_path opts) = ?o"
    using resolve_overlay(1) [OF ty, of v1 dn] v1(3) by (simp add: path o1 same_settings_def)
  have "fst (atomic_write (co_conf_path opts) s v1) = Inr ()"
    using wr v1 rs path
    by (intro atomic_write_ok [where q = ?o])
      (auto simp: writable_def temps_free_def overlay_name_ok ty dirs_not_Nil)
  then obtain v2 where 2: "atomic_write (co_conf_path opts) s v1 = (Inr (), v2)"
    by (cases "atomic_write (co_conf_path opts) s v1") auto
  have path1: "co_conf_path opts = managed_dir (env v1) @ ''/'' @ overlay_name (ulower v1) ty dn"
    using path v1(3) by (simp add: same_settings_def)
  from atomic_write_overlay(1) [OF 2 [unfolded path1] ty] obtain t
    where "t \<in> temps ?o" "changes v1 v2 {?o, t}" unfolding o1 by blast
  then have "changes v v2 {?o, t}" "{?o, t} \<subseteq> overlay_area v ty dn"
    using assms(2) changes_tock_left [of v v2 "{?o, t}"] by (auto simp: overlay_area_def)
  then have "changes v v2 (overlay_area v ty dn)" by (rule changes_mono)
  with assms(1) 2 show ?thesis by (simp add: generate_and_write_def)
qed

text \<open>The generators do not fail on arguments the entry points have validated.\<close>

lemma generator_live:
  fixes w :: "'a world_scheme"
  assumes cm: "chain_mutation ty dn remote_ip w opts written"
    and opts: "opts = with_mutation (\<lambda>opts. generate_and_write dn remote_ip opts generate) opts0"
    and gen: "\<And>v. \<exists>s. generate v = (Inr s, tock v)"
  shows "live_mutation ty dn remote_ip w opts written"
proof (rule live_mutation.intro [OF cm], unfold_locales)
  fix v assume v: "same_settings w v" "writable v ty dn"
  obtain s where "generate v = (Inr s, tock v)" using gen by blast
  moreover have "co_conf_path opts0 = managed_dir (env v) @ ''/'' @ overlay_name (ulower v) ty dn"
    using chain_mutation.opts_path [OF cm] v(1) by (simp add: opts same_settings_def)
  ultimately show "\<exists>v'. co_mutate opts v = (Inr (), v') \<and> changes v v' (overlay_area w ty dn)"
    using generate_and_write_live [OF _ disjI2 [OF refl] chain_mutation.type_known [OF cm] v(2)]
    by (simp add: opts overlay_area_at [OF v(1)])
qed

interpretation waf_live: live_mutation file_type_waf dn remote_ip w
  "waf_mode_opts dn md remote_ip w" "\<lambda>v c. \<exists>v'. waf_generator dn md v = (Inr c, v')"
  for dn md remote_ip w
  by (rule generator_live [OF waf_chain.chain_mutation_axioms waf_mode_opts_def])
    (simp add: generate_waf_snippet_def Let_def time_now_def)

lemma exclusions_live:
  "validate_exclusions exs = None \<Longrightarrow> live_mutation file_type_exclusions dn remote_ip w
     (exclusions_opts dn exs remote_ip w) (\<lambda>v c. \<exists>v'. generate_exclusions (new_site dn []) exs v = (Inr c, v'))"
  by (rule generator_live [OF exclusions_chain.chain_mutation_axioms exclusions_opts_def])
    (simp add: generate_exclusions_def Let_def time_now_def)

lemma ip_rules_live:
  "validate_ip_rules rules = None \<Longrightarrow> live_mutation file_type_ip_rules dn remote_ip w
     (ip_rules_opts dn rules remote_ip w) (\<lambda>v c. \<exists>v'. generate_ip_rules (new_site dn []) rules v = (Inr c, v'))"
  by (rule generator_live [OF ip_rules_chain.chain_mutation_axioms ip_rules_opts_def])
    (auto simp: generate_ip_rules_def Let_def time_now_def validate_ip_rules_iff)

lemma update_waf_mode_ok:
  "healthy w file_type_waf dn c \<Longrightarrow> validate_domain dn = None \<Longrightarrow>
     md = mode_on \<or> md = mode_off \<or> md = mode_detection_only \<Longrightarrow>
     fst (update_waf_mode dn md ip w) = Inr ()"
  using waf_live.run_chain_ok by (auto simp: update_waf_mode_def)

lemma update_exclusions_ok:
  "healthy w file_type_exclusions dn c \<Longrightarrow> validate_domain dn = None \<Longrightarrow> validate_exclusions exs = None \<Longrightarrow>
     fst (update_exclusions dn exs ip w) = Inr ()"
  using live_mutation.run_chain_ok [OF exclusions_live] by (auto simp: update_exclusions_def)

lemma update_ip_rules_ok:
  "healthy w file_type_ip_rules dn c \<Longrightarrow> validate_domain dn = None \<Longrightarrow> validate_ip_rules rules = None \<Longrightarrow>
     fst (update_ip_rules dn rules ip w) = Inr ()"
  using live_mutation.run_chain_ok [OF ip_rules_live] by (auto simp: update_ip_rules_def)

text \<open>A rollback succeeds if the snapshot is still there after the backup of the same chain.\<close>

lemma atomic_write_live:
  assumes "ty \<in> file_types" "writable v ty dn"
  shows "fst (atomic_write (managed_dir (env v) @ ''/'' @ overlay_name (ulower v) ty dn) bytes v) = Inr ()"
  using assms resolve_overlay(1) [OF assms(1), of v dn]
  by (intro atomic_write_ok [where q = "overlay_at v ty dn"])
    (auto simp: writable_def overlay_name_ok dirs_not_Nil)

lemma restore_backup_live:
  assumes "sid = snapshot_name ts ty" "stamp_ok ts" "ty \<in> file_types" "writable v ty dn"
    and "node_at v (backups_at v dn @ [sid]) = Some (Reg b m)"
  shows "\<exists>v'. restore_backup dn sid v = (Inr (), v') \<and> changes v v' (overlay_area v ty dn)"
proof -
  let ?f = "filepath_join [backup_dir_path (ulower v) (backup_dir (env v)) dn, sid]"
  have ty: "backup_type sid = Inr ty" using assms(1-3) by (auto simp: backup_type_Inr)
  have "resolve (cwd v) ?f = backups_at v dn @ [sid]"
    using assms(1-3) by (simp add: resolve_join_name snapshot_name_ok backups_at_def)
  then have 1: "os_read_file ?f v = (Inr b, tock v)"
    using assms(4,5) by (simp add: os_read_file_def writable_def)
  have "writable (tock v) ty dn"
    using assms(4) by (simp add: writable_def temps_free_def overlay_at_def)
  from atomic_write_live [OF assms(3) this] have
    "fst (atomic_write (managed_dir (env v) @ ''/'' @ overlay_name (ulower v) ty dn) b (tock v)) = Inr ()" by simp
  with 1 ty have "fst (restore_backup dn sid v) = Inr ()"
    by (auto simp: restore_backup_def overlay_path_form [OF assms(3)] split: prod.splits)
  then obtain v' where v': "restore_backup dn sid v = (Inr (), v')" by (cases "restore_backup dn sid v") auto
  from restore_backup_spec(1) [OF this assms(1-3)] obtain t
    where "t \<in> temps (overlay_at v ty dn)" "changes v v' {overlay_at v ty dn, t}" by blast
  then have "changes v v' (overlay_area v ty dn)"
    by (auto simp: overlay_area_def intro: changes_mono)
  with v' show ?thesis by blast
qed

lemma rollback_ok:
  fixes w :: "'a world_scheme"
  assumes h: "healthy w ty dn c" and dn: "validate_domain dn = None" and ty: "backup_type sid = Inr ty"
    and kept: "\<And>v. backup dn ty (tock w) = (Inr (), v) \<Longrightarrow> \<exists>b m. node_at v (backups_at w dn @ [sid]) = Some (Reg b m)"
  shows "fst (rollback dn sid ip w) = Inr ()"
proof -
  obtain ts where sid: "stamp_ok ts" "ty \<in> file_types" "sid = snapshot_name ts ty"
    using ty by (auto simp: backup_type_Inr)
  let ?opts = "rollback_opts dn sid ip ty (managed_dir (env w) @ ''/'' @ overlay_name (ulower w) ty dn)
    :: ('a world_scheme) chain_opts"
  have "fst (run_chain dn ip ?opts w) = Inr ()"
  proof (rule chain_mutation.run_chain_if [OF rollback_contract [OF sid refl] h])
    fix v assume v: "backup dn ty (tock w) = (Inr (), v)" "writable v ty dn" "same_settings w v"
    have "backups_at v dn = backups_at w dn" using v(3) by (simp add: same_settings_def backups_at_def)
    with kept [OF v(1)] restore_backup_live [OF sid(3,1,2) v(2)] obtain v' where
      "restore_backup dn sid v = (Inr (), v')" "changes v v' (overlay_area w ty dn)"
      by (auto simp: overlay_area_at [OF v(3)])
    then show "\<exists>v'. co_mutate ?opts v = (Inr (), v') \<and> changes v v' (overlay_area w ty dn)"
      by (simp add: rollback_opts_def)
  qed
  with dn ty show ?thesis by (simp add: rollback_def overlay_path_form [OF sid(2)])
qed

text \<open>Below the retention limit a backup drops no snapshot.\<close>

lemma length_filter_dir_put: "length (filter P (dir_put n x d)) \<le> Suc (length (filter P d))"
  by (induction n x d rule: dir_put.induct) auto

lemma backup_keeps_snapshot:
  assumes "fs_wf w" "backup dn ty w = (Inr (), v)" "node_at w (overlay_at w ty dn) \<noteq> Some SubDir"
    and few: "int (length (snaps ty (listing w (backups_at w dn)))) < backup_keep (env w)"
    and sid: "backup_type sid = Inr ty" "node_at w (backups_at w dn @ [sid]) = Some (Reg b m)"
  shows "\<exists>b m. node_at v (backups_at w dn @ [sid]) = Some (Reg b m)"
proof (cases "node_at w (overlay_at w ty dn)")
  case None
  have ty: "ty \<in> file_types" using sid(1) by (auto simp: backup_type_Inr)
  from None sid show ?thesis using backup_run [OF assms(2) ty assms(1)] by auto
next
  case (Some x)
  let ?B = "backups_at w dn"
  let ?es = "listing w ?B"
  have ty: "ty \<in> file_types" using sid(1) by (auto simp: backup_type_Inr)
  from Some assms(3) obtain c m0 where "node_at w (overlay_at w ty dn) = Some (Reg c m0)" by (cases x) auto
  then obtain m' where ab: "after_backup ty (backup_keep (env w)) (backup_name w ty) (Reg c m') ?es (listing v ?B)"
    using backup_run [OF assms(2) ty assms(1)] by auto
  let ?es1 = "dir_put (backup_name w ty) (Reg c m') ?es"
  have "length (snaps ty ?es1) \<le> Suc (length (snaps ty ?es))"
    by (simp add: snaps_def length_filter_dir_put)
  then have "snaps ty (listing v ?B) = snaps ty ?es1" using ab few by (simp add: after_backup_def Let_def)
  moreover obtain b' m' where b': "map_of ?es1 sid = Some (Reg b' m')"
    using sid(2) by (cases "sid = backup_name w ty") (auto simp: node_at_listing)
  moreover note map_of_SomeD [OF b']
  ultimately have "(sid, Reg b' m') \<in> set (snaps ty (listing v ?B))"
    using sid(1) by (auto simp: snaps_def is_snapshot_iff backup_type_Inr)
  then have "(sid, Reg b' m') \<in> set (listing v ?B)" by (simp add: snaps_def)
  moreover have "fs_wf v" using backup_run [OF assms(2) ty assms(1)] assms(1) by (auto dest: changes_wf)
  ultimately have "node_at v (?B @ [sid]) = Some (Reg b' m')"
    using listing_wf [of v ?B] by (simp add: node_at_listing dir_wf_distinct)
  then show ?thesis by blast
qed

end
