(* ===== verification/Demo.thy ===== *)
theory Demo
  imports Healthy
begin

text \<open>
  A concrete world at which the properties of the chain are applied: the domain \<open>example.com\<close>
  with a WAF overlay, one snapshot of it, a Caddyfile and an Admin API that accepts every load and
  lists the host.
\<close>

definition demo_domain :: string where
  "demo_domain = ''example.com''"

definition demo_snapshot :: string where
  "demo_snapshot = ''2026-01-02T03-04-05Z.waf.conf''"

definition demo_caddyfile :: string where
  "demo_caddyfile = ''example.com {''"

definition demo_dirs :: "(path \<times> dir) list" where
  "demo_dirs =
     [([], [(''backups'', SubDir), (''etc'', SubDir), (''ui-managed'', SubDir)]),
      ([''backups''], [(''example_com'', SubDir)]),
      ([''backups'', ''example_com''], [(demo_snapshot, Reg ''old'' 384)]),
      ([''etc''], [(''caddy'', SubDir)]),
      ([''etc'', ''caddy''], [(''Caddyfile'', Reg demo_caddyfile 420)]),
      ([''ui-managed''], [(''waf-example_com.conf'', Reg ''new'' 420)])]"

definition demo_time :: gotime where
  "demo_time = \<lparr>secs = 63926521689, nsec = 0, offs = 0\<rparr>"

definition demo_config :: json where
  "demo_config = JObj [(''srv0'', JObj [(''routes'', JArr [JObj [(''match'',
     JArr [JObj [(''host'', JArr [JStr ''example.com''])]])]])])]"

definition demo_answer :: string where
  "demo_answer = json_text ''{~srv0~:{~routes~:[{~match~:[{~host~:[~example.com~]}]}]}}''"

definition demo :: world where
  "demo =
     \<lparr>cwd = [], tree = map_of demo_dirs, tick = 0, fault = (\<lambda>_. None), clock = (\<lambda>_. demo_time),
      tmp_num = (\<lambda>n. n), create_mode = 420, env = (\<lambda>_. []), ulower = (\<lambda>s. s), slog = [],
      net = (\<lambda>_ _. Inr \<lparr>rs_status_code = 200, rs_status = ''200 OK'', rs_body = demo_answer\<rparr>),
      url_parse = (\<lambda>_. Some (''http'', ''caddy-waf:2019'', False)),
      sent = [],
      last_readback = \<lparr>rb_ok = True, rb_checked_at = demo_time, rb_servers = 0, rb_missing = [], rb_err = None\<rparr>\<rparr>"

lemma demo_fields [simp]:
  "cwd demo = []" "tree demo = map_of demo_dirs" "fault demo = (\<lambda>_. None)" "env demo = (\<lambda>_. [])"
  "ulower demo = (\<lambda>s. s)" "tick demo = 0" "slog demo = []" "clock demo = (\<lambda>_. demo_time)"
  by (simp_all add: demo_def)

lemma demo_overlay:
  "overlay_at demo file_type_waf demo_domain = [''ui-managed'', ''waf-example_com.conf'']"
  by code_simp

lemma demo_overlay2:
  "overlay_at demo file_type_exclusions demo_domain = [''ui-managed'', ''exclusions-example_com.conf'']"
  by code_simp

lemma demo_overlay3:
  "overlay_at demo file_type_ip_rules demo_domain = [''ui-managed'', ''ip-rules-example_com.conf'']"
  by code_simp

lemma demo_backups: "backups_at demo demo_domain = [''backups'', ''example_com'']"
  by code_simp

lemma demo_caddyfile_at:
  "resolve (cwd demo) (caddyfile_path (env demo)) = [''etc'', ''caddy'', ''Caddyfile'']"
  by code_simp

lemmas demo_paths = demo_overlay demo_overlay2 demo_overlay3 demo_backups demo_caddyfile_at

lemma demo_listings:
  "list_all (\<lambda>(q, d). dir_wf d \<and> node_at demo q = Some SubDir
     \<and> list_all (\<lambda>(n, x). x = SubDir \<longrightarrow> map_of demo_dirs (q @ [n]) \<noteq> None) d) demo_dirs"
  by code_simp

lemma demo_wf: "fs_wf demo"
proof -
  have 1: "dir_wf d" "node_at demo q = Some SubDir" if "map_of demo_dirs q = Some d" for q d
    using map_of_SomeD [OF that] demo_listings by (auto simp: list_all_iff)
  have 2: "map_of demo_dirs (q @ [n]) \<noteq> None" if "map_of demo_dirs q = Some d" "map_of d n = Some SubDir" for q d n
    using map_of_SomeD [OF that(1)] map_of_SomeD [OF that(2)] demo_listings by (fastforce simp: list_all_iff)
  have "(map_of demo_dirs p \<noteq> None) = (node_at demo p = Some SubDir)" for p
  proof (cases p rule: rev_cases)
    case Nil
    then show ?thesis by (simp add: demo_dirs_def)
  next
    case (snoc q n)
    show ?thesis
    proof
      assume "node_at demo p = Some SubDir"
      then obtain d where "map_of demo_dirs q = Some d" "map_of d n = Some SubDir"
        by (auto simp: snoc node_at_snoc split: option.splits)
      then show "map_of demo_dirs p \<noteq> None" unfolding snoc by (rule 2)
    qed (use 1(2) in auto)
  qed
  with 1(1) show ?thesis by (simp add: fs_wf_def)
qed

lemma demo_node_names:
  "list_all (\<lambda>(q, d). list_all (\<lambda>(n, x). q = [''ui-managed''] \<longrightarrow> n = ''waf-example_com.conf'') d
     \<and> (q = [''backups'', ''example_com''] \<longrightarrow> list_all (\<lambda>(n, x). x \<noteq> SubDir) d)) demo_dirs"
  by code_simp

lemma temp_name_digit: "temp_name b k = n \<Longrightarrow> is_digit (last n)"
  using nat_digits_digit [of "last (nat_digits k)" k] by (auto simp: temp_name_def)

lemma demo_temps: "temps_free demo [''ui-managed'', n]"
proof -
  have "map_of demo_dirs [''ui-managed''] = Some [(''waf-example_com.conf'', Reg ''new'' 420)]"
    by code_simp
  moreover have "temp_name n k \<noteq> ''waf-example_com.conf''" for k
    using temp_name_digit [of n k "''waf-example_com.conf''"] by (auto simp: is_digit_def less_eq_char_def)
  ultimately show ?thesis
    using node_at_snoc [of demo "[''ui-managed'']"] by (auto simp: temps_free_def temps_iff)
qed

lemma demo_snapshot_dir: "q \<in> snapshot_paths demo ty demo_domain \<Longrightarrow> node_at demo q \<noteq> Some SubDir"
proof -
  assume "q \<in> snapshot_paths demo ty demo_domain"
  then obtain n where q: "q = [''backups'', ''example_com''] @ [n]"
    by (auto simp: snapshot_paths_def demo_backups)
  have "map_of demo_dirs [''backups'', ''example_com''] = Some [(demo_snapshot, Reg ''old'' 384)]"
    by code_simp
  then show ?thesis unfolding q node_at_snoc by simp
qed

lemma demo_caddy: "caddy_accepts demo demo_caddyfile"
proof -
  have "set (expected_hosts demo_caddyfile) \<subseteq> set (collect_hosts demo_config)" by code_simp
  moreover have "json_decode demo_answer = Some demo_config" by code_simp
  moreover have "limit_read demo_answer = demo_answer"
    by (simp add: limit_read_def demo_answer_def json_text_def)
  moreover have "validate_admin_url (url_parse demo) (admin_url (env demo)) = None" by code_simp
  ultimately show ?thesis by (simp add: caddy_accepts_def demo_def)
qed

lemma demo_healthy:
  assumes "ty \<in> file_types"
  shows "healthy demo ty demo_domain demo_caddyfile"
proof -
  obtain n where o: "overlay_at demo ty demo_domain = [''ui-managed'', n]"
    using assms demo_overlay demo_overlay2 demo_overlay3 by (auto simp: file_types_def)
  have l: "map_of demo_dirs [''ui-managed''] = Some [(''waf-example_com.conf'', Reg ''new'' 420)]"
    by code_simp
  have nd: "node_at demo [''ui-managed'', n] \<noteq> Some SubDir"
    using node_at_snoc [of demo "[''ui-managed'']" n] l by simp
  have "map_of demo_dirs [''backups'', ''example_com''] \<noteq> None" by code_simp
  then have b: "tree demo (backups_at demo demo_domain) \<noteq> None" by (simp add: demo_backups)
  have "node_at demo [''etc'', ''caddy'', ''Caddyfile''] = Some (Reg demo_caddyfile 420)" by code_simp
  then have c: "\<exists>m. node_at demo (resolve (cwd demo) (caddyfile_path (env demo))) = Some (Reg demo_caddyfile m)"
    unfolding demo_caddyfile_at by blast
  have "resolve (cwd demo) (caddyfile_path (env demo)) \<notin> chain_paths demo ty demo_domain"
    unfolding demo_caddyfile_at
    by (auto simp: chain_paths_def o temps_iff snapshot_paths_def demo_backups)
  with b c nd l demo_wf demo_temps demo_snapshot_dir demo_caddy show ?thesis
    by (auto simp: healthy_def writable_def o no_faults_def)
qed

end
