(* ===== verification/FilesProps.thy ===== *)
theory FilesProps
  imports Demo
begin

text \<open>
  The properties of package \<open>internal/files\<close>: the atomic write, snapshots and their retention,
  restoring and listing them, and where the files of a domain lie.
\<close>

subsection \<open>Atomic write\<close>

text \<open>C15. \<open>AtomicWrite\<close> is atomic at every fault: on success the file has exactly the new bytes
  and mode 0644 and the temporary file is gone; on an error the file is what it was (old bytes, old
  mode, or absent). In both cases nothing else changes but one temporary name next to the file.\<close>

theorem atomic_write_atomic:
  assumes "atomic_write pth bytes w = (r, w')" "pth = d @ ''/'' @ n" "name_ok n" "d \<noteq> []"
    and "q = resolve (cwd w) pth"
  shows "\<exists>t \<in> temps q. (\<forall>p. p \<noteq> q \<longrightarrow> p \<noteq> t \<longrightarrow> node_at w' p = node_at w p)
    \<and> (r = Inr () \<longrightarrow> node_at w' q = Some (Reg bytes 420) \<and> node_at w' t = None)
    \<and> (r \<noteq> Inr () \<longrightarrow> node_at w' q = node_at w q)"
proof -
  note s = atomic_write_spec [OF assms(1-4), folded assms(5)]
  obtain t where t: "t \<in> temps q" "changes w w' {q, t}" "r = Inr () \<longrightarrow> node_at w' t = None" using s(1) by blast
  have "\<forall>p. p \<noteq> q \<longrightarrow> p \<noteq> t \<longrightarrow> node_at w' p = node_at w p" using changes_node [OF t(2)] by simp
  moreover have "(r = Inr () \<longrightarrow> node_at w' q = Some (Reg bytes 420)) \<and> (r \<noteq> Inr () \<longrightarrow> node_at w' q = node_at w q)"
    using s(2,3) by (cases r) auto
  ultimately show ?thesis using t(1,3) by blast
qed

lemma atomic_write_atomic_witness:
  "let w' = snd (atomic_write ''/ui-managed/x.conf'' ''abc'' (demo\<lparr>fault := (\<lambda>t. if t = 3 then Some (EIO, 1) else None)\<rparr>))
   in node_at w' [''ui-managed'', ''x.conf''] = None"
proof -
  let ?w = "demo\<lparr>fault := (\<lambda>t. if t = 3 then Some (EIO, 1) else None)\<rparr>"
  let ?p = "''/ui-managed'' @ ''/'' @ ''x.conf''"
  obtain r w' where a: "atomic_write ?p ''abc'' ?w = (r, w')" by fastforce
  have r: "fst (atomic_write ?p ''abc'' ?w) \<noteq> Inr ()" by code_simp
  have q: "[''ui-managed'', ''x.conf''] = resolve (cwd ?w) ?p" by code_simp
  have n: "node_at ?w [''ui-managed'', ''x.conf''] = None" by code_simp
  have "name_ok ''x.conf''" by code_simp
  from atomic_write_atomic [OF a refl this _ q] r n a
  show ?thesis by (auto simp: Let_def)
qed

subsection \<open>Snapshots\<close>


lemma demo_backup_run:
  "backup demo_domain file_type_waf demo = (Inr (), snd (backup demo_domain file_type_waf demo))"
proof -
  have h: "healthy demo file_type_waf demo_domain demo_caddyfile" by (rule demo_healthy) simp
  then have "fst (backup demo_domain file_type_waf demo) = Inr ()"
    by (intro backup_ok) (auto simp: healthy_def writable_def)
  then show ?thesis by (metis prod.collapse)
qed

lemma demo_overlay_node:
  "node_at demo (overlay_at demo file_type_waf demo_domain) = Some (Reg ''new'' 420)"
  unfolding demo_overlay by code_simp


lemma backup_installs:
  assumes "backup dn ty w = (Inr (), w1)" "ty \<in> file_types" "fs_wf w"
    and "node_at w (overlay_at w ty dn) = Some (Reg c m)"
    and "year_ok (clock w (tick w + 2))" "\<forall>e \<in> set (snaps ty (listing w (backups_at w dn))). fst e \<le> backup_name w ty"
  shows "\<exists>m'. node_at w1 (backups_at w dn @ [backup_name w ty]) = Some (Reg c m')"
proof -
  let ?n = "backup_name w ty" and ?B = "backups_at w dn"
  obtain m' where ab: "after_backup ty (backup_keep (env w)) ?n (Reg c m') (listing w ?B) (listing w1 ?B)"
    using backup_run [OF assms(1-3)] assms(4) by auto
  have s: "is_snapshot ty (?n, Reg c m')"
    using stamp_ok_format [OF assms(5)] assms(2) by (auto simp: is_snapshot_iff backup_name_def)
  have "(?n, Reg c m') \<in> set (snaps ty (listing w1 ?B))"
    by (rule snaps_after [OF ab backup_keep_pos listing_wf [OF assms(3)] s]) (use assms(6) in auto)
  then have "(?n, Reg c m') \<in> set (listing w1 ?B)" by (simp add: snaps_def)
  moreover have "fs_wf w1" using backup_run [OF assms(1-3)] assms(3) by (auto dest: changes_wf)
  ultimately show ?thesis using listing_wf [of w1 ?B] by (auto simp: node_at_listing dir_wf_distinct)
qed

text \<open>C17. A snapshot restores what was backed up: after a successful backup whose name is not
  before those of the other snapshots, a restore of that name in any later state whose snapshot
  directory is as the backup left it, once it succeeds, puts the backed-up bytes back into the
  overlay, whatever the overlay held in between.\<close>

theorem backup_restore_roundtrip:
  assumes "backup dn ty w = (Inr (), w1)" "ty \<in> file_types" "fs_wf w"
    and "node_at w (overlay_at w ty dn) = Some (Reg c m)"
    and "year_ok (clock w (tick w + 2))" "\<forall>e \<in> set (snaps ty (listing w (backups_at w dn))). fst e \<le> backup_name w ty"
    and "same_settings w w2" "tree w2 (backups_at w dn) = tree w1 (backups_at w dn)"
    and "restore_backup dn (backup_name w ty) w2 = (Inr (), w3)"
  shows "node_at w3 (overlay_at w ty dn) = Some (Reg c 420)"
proof -
  let ?n = "backup_name w ty" and ?B = "backups_at w dn"
  obtain m' where "node_at w1 (?B @ [?n]) = Some (Reg c m')" using backup_installs [OF assms(1-6)] by blast
  then have n2: "node_at w2 (?B @ [?n]) = Some (Reg c m')" using assms(8) by (simp add: node_at_snoc)
  have at: "overlay_at w2 ty dn = overlay_at w ty dn" "backups_at w2 dn = ?B"
    using settings_at [OF assms(7)] assms(7) by (simp_all add: same_settings_def backups_at_def)
  from restore_backup_spec(2) [OF assms(9) _ stamp_ok_format [OF assms(5)] assms(2), unfolded at] n2
  show ?thesis by (auto simp: backup_name_def)
qed

lemma backup_restore_roundtrip_witness:
  "\<exists>w3. restore_backup demo_domain (backup_name demo file_type_waf) (snd (backup demo_domain file_type_waf demo)) = (Inr (), w3)
     \<and> node_at w3 (overlay_at demo file_type_waf demo_domain) = Some (Reg ''new'' 420)"
proof -
  let ?w1 = "snd (backup demo_domain file_type_waf demo)"
  note b = demo_backup_run file_types_known(1) demo_wf demo_overlay_node
  have h: "healthy demo file_type_waf demo_domain demo_caddyfile" by (rule demo_healthy) simp
  have y: "year_ok (clock demo (tick demo + 2))" by code_simp
  have f: "format_stamp (utc demo_time) = ''2026-10-02T07-08-09Z''" by code_simp
  have "listing demo [''backups'', ''example_com''] = [(demo_snapshot, Reg ''old'' 384)]" by code_simp
  moreover have "demo_snapshot \<le> backup_name demo file_type_waf"
    by (simp add: backup_name_def f snapshot_name_def demo_snapshot_def file_type_defs less_char_def)
  ultimately have l: "\<forall>e \<in> set (snaps file_type_waf (listing demo (backups_at demo demo_domain))). fst e \<le> backup_name demo file_type_waf"
    by (simp add: demo_backups snaps_def)
  obtain m' where m': "node_at ?w1 (backups_at demo demo_domain @ [backup_name demo file_type_waf]) = Some (Reg ''new'' m')"
    using backup_installs [OF b y l] by blast
  note wb = writable_backup [OF h demo_backup_run file_types_known(1)]
  have same: "same_settings demo ?w1"
    using changes_fields [OF wb(2)] changes_proc [OF wb(2)] by (simp add: same_settings_def)
  obtain w3 where r: "restore_backup demo_domain (backup_name demo file_type_waf) ?w1 = (Inr (), w3)"
    using restore_backup_live [OF backup_name_def stamp_ok_format [OF y] file_types_known(1) wb(1)] m'
    unfolding changes_at(2) [OF wb(2)] by blast
  from backup_restore_roundtrip [OF b y l same refl r] r show ?thesis by blast
qed

text \<open>C25. A snapshot id is accepted exactly if it is a time stamp in the form the program writes,
  followed by one of the three file types and \<open>.conf\<close>; every other string, with any path
  separator or dot name in particular, is rejected with \<open>ErrInvalidBackup\<close>, and the accepted ones are
  single path elements.\<close>

theorem backup_id_valid:
  "(backup_type sid = Inr ty \<longleftrightarrow> (\<exists>ts. stamp_ok ts \<and> ty \<in> file_types \<and> sid = ts @ ''.'' @ ty @ ''.conf''))
   \<and> (backup_type sid = Inl e \<longrightarrow> errors_is e ErrInvalidBackup)
   \<and> (backup_type sid = Inr ty \<longrightarrow> name_ok sid)"
proof (intro conjI impI)
  show i: "backup_type sid = Inr ty \<longleftrightarrow> (\<exists>ts. stamp_ok ts \<and> ty \<in> file_types \<and> sid = ts @ ''.'' @ ty @ ''.conf'')"
    unfolding backup_type_Inr snapshot_name_def ..
  show "errors_is e ErrInvalidBackup" if "backup_type sid = Inl e" by (rule backup_type_Inl [OF that])
  show "name_ok sid" if b: "backup_type sid = Inr ty"
    using b [unfolded backup_type_Inr] snapshot_name_ok by blast
qed

lemma backup_id_valid_witness: "name_ok demo_snapshot"
proof -
  have "backup_type demo_snapshot = Inr file_type_waf" by code_simp
  then show ?thesis using backup_id_valid [of demo_snapshot file_type_waf] by blast
qed

text \<open>Snapshot names sort by time: for clock readings in years of four digits, the name of the
  later second is the lexicographically greater one, so the retention, which keeps the last names of
  the sorted listing, keeps the newest snapshots.\<close>

theorem snapshot_names_chronological:
  assumes "year_ok t" "year_ok t'" "secs t < secs t'"
  shows "snapshot_name (format_stamp (utc t)) ty < snapshot_name (format_stamp (utc t')) ty"
proof -
  have "format_stamp (utc t) < format_stamp (utc t')"
    using assms by (intro format_stamp_strict) (auto simp: year_ok_def utc_def)
  moreover have "length (format_stamp (utc t)) = length (format_stamp (utc t'))"
    using stamp_ok_length [OF stamp_ok_format [OF assms(1)]] stamp_ok_length [OF stamp_ok_format [OF assms(2)]] by simp
  ultimately show ?thesis unfolding snapshot_name_def by (simp add: list_less_append)
qed

lemma snapshot_names_chronological_witness:
  "snapshot_name (format_stamp (utc demo_time)) file_type_waf
     < snapshot_name (format_stamp (utc (demo_time\<lparr>secs := secs demo_time + 1\<rparr>))) file_type_waf"
proof (rule snapshot_names_chronological)
  show "year_ok demo_time" "year_ok (demo_time\<lparr>secs := secs demo_time + 1\<rparr>)" by code_simp+
qed simp

subsection \<open>Where the files lie\<close>

text \<open>C26. Overlay paths are confined: for every file type and every domain string, valid or not,
  the overlay path resolves to a direct child of the managed directory; an unknown type is an error.\<close>

theorem overlay_path_confined:
  "overlay_path L mdir ty dn = Inr conf \<Longrightarrow> mdir \<noteq> [] \<Longrightarrow>
     \<exists>n. name_ok n \<and> resolve wd conf = resolve wd mdir @ [n]"
proof -
  assume o: "overlay_path L mdir ty dn = Inr conf" and d: "mdir \<noteq> []"
  then have ty: "ty \<in> file_types"
    by (auto simp: overlay_path_def file_types_def split: if_splits)
  with o have "conf = mdir @ ''/'' @ overlay_name L ty dn" by (simp add: overlay_path_form)
  with resolve_slash_name [OF overlay_name_ok [OF ty] d] overlay_name_ok [OF ty] show ?thesis by blast
qed

lemma overlay_path_confined_witness:
  "\<exists>n. name_ok n \<and> resolve [] ''/ui-managed/waf-______etc_passwd.conf'' = [''ui-managed''] @ [n]"
proof -
  have "overlay_path (\<lambda>s. s) ''/ui-managed'' file_type_waf ''../../etc/passwd'' = Inr ''/ui-managed/waf-______etc_passwd.conf''"
    by code_simp
  moreover have "resolve [] ''/ui-managed'' = [''ui-managed'']" by code_simp
  ultimately show ?thesis using overlay_path_confined [of _ _ _ _ _ "[]"] by fastforce
qed



subsection \<open>Listing snapshots\<close>

definition entry_info :: "string \<times> node \<Rightarrow> backup_info option" where
  "entry_info e =
     (if snd e = SubDir then None
      else (case find_submatch backup_name_pattern (fst e) of
          None \<Rightarrow> None
        | Some m \<Rightarrow> Some \<lparr>b_timestamp = group 1 m, b_file_type = group 2 m, b_size = info_size (snd e)\<rparr>))"

lemma entry_info_pair:
  "entry_info (n, x) =
     (if x = SubDir then None
      else (case find_submatch backup_name_pattern n of
          None \<Rightarrow> None
        | Some m \<Rightarrow> Some \<lparr>b_timestamp = group 1 m, b_file_type = group 2 m, b_size = info_size x\<rparr>))"
  by (simp add: entry_info_def cong: option.case_cong)

lemma entry_info_Some:
  "entry_info (n, x) = Some b \<longleftrightarrow> x \<noteq> SubDir \<and> stamp_ok (b_timestamp b) \<and> b_file_type b \<in> file_types
     \<and> n = snapshot_name (b_timestamp b) (b_file_type b) \<and> b_size b = info_size x"
proof (cases "find_submatch backup_name_pattern n")
  case None
  then show ?thesis using submatch_snapshot_name by (cases b) (auto simp: entry_info_pair)
next
  case (Some m)
  then obtain ts ty where m: "stamp_ok ts" "ty \<in> file_types" "n = snapshot_name ts ty" "m = [(1, ts), (2, ty)]"
    by (auto simp: backup_name_submatch)
  then show ?thesis using Some by (cases b) (auto simp: entry_info_pair snapshot_name_eq)
qed

lemma ex_file: "(\<exists>x. x \<noteq> SubDir \<and> Q x) \<longleftrightarrow> (\<exists>c m. Q (Reg c m))"
proof
  assume "\<exists>x. x \<noteq> SubDir \<and> Q x"
  then obtain x where "x \<noteq> SubDir" "Q x" by blast
  then show "\<exists>c m. Q (Reg c m)" by (cases x) auto
qed blast

lemma list_entries_spec:
  assumes "no_faults w" "resolve (cwd w) d = p" "d \<noteq> []" "node_at w = nd"
    and "\<forall>(n, x) \<in> set es. nd (p @ [n]) = Some x"
  shows "fst (list_entries d es w) = List.map_filter entry_info es"
  using assms
proof (induction es arbitrary: w)
  case (Cons e es)
  obtain n x where e: "e = (n, x)" by (cases e)
  have IH: "fst (list_entries d es w) = List.map_filter entry_info es"
    "fst (list_entries d es (tock w)) = List.map_filter entry_info es"
    using Cons.prems by (intro Cons.IH; simp)+
  show ?case
  proof (cases "x = SubDir \<or> find_submatch backup_name_pattern n = None")
    case True
    with IH show ?thesis by (auto simp: e map_filter_Cons entry_info_pair)
  next
    case False
    then obtain m where m: "find_submatch backup_name_pattern n = Some m" "x \<noteq> SubDir" by auto
    then obtain ts ty where n: "stamp_ok ts" "ty \<in> file_types" "n = snapshot_name ts ty"
      by (auto simp: backup_name_submatch)
    have "resolve (cwd w) (d @ ''/'' @ n) = p @ [n]"
      using resolve_slash_name [OF snapshot_name_ok [OF n(1,2)] Cons.prems(3)] Cons.prems(2) n(3) by simp
    then have "os_stat (d @ ''/'' @ n) w = (Inr x, tock w)"
      using Cons.prems by (simp add: os_stat_def e)
    with m IH show ?thesis
      by (cases "list_entries d es (tock w)") (simp add: e map_filter_Cons entry_info_pair)
  qed
qed (simp add: List.map_filter_def)

lemma entry_infos_mem:
  "b \<in> set (List.map_filter entry_info es) \<longleftrightarrow> stamp_ok (b_timestamp b) \<and> b_file_type b \<in> file_types
     \<and> (\<exists>c m. (snapshot_name (b_timestamp b) (b_file_type b), Reg c m) \<in> set es \<and> b_size b = length c)"
proof -
  have "b \<in> set (List.map_filter entry_info es) \<longleftrightarrow> (\<exists>n x. (n, x) \<in> set es \<and> entry_info (n, x) = Some b)"
    by (force simp: List.map_filter_def)
  also have "\<dots> \<longleftrightarrow> (\<exists>x. x \<noteq> SubDir \<and> stamp_ok (b_timestamp b) \<and> b_file_type b \<in> file_types
      \<and> (snapshot_name (b_timestamp b) (b_file_type b), x) \<in> set es \<and> b_size b = info_size x)"
    unfolding entry_info_Some by blast
  also have "\<dots> \<longleftrightarrow> stamp_ok (b_timestamp b) \<and> b_file_type b \<in> file_types
      \<and> (\<exists>c m. (snapshot_name (b_timestamp b) (b_file_type b), Reg c m) \<in> set es \<and> b_size b = length c)"
    unfolding ex_file by (simp add: info_size_def)
  finally show ?thesis .
qed

lemma entry_infos_distinct:
  "distinct (map fst ds) \<Longrightarrow> distinct (map (\<lambda>b. b_timestamp b @ b_file_type b) (List.map_filter entry_info ds))"
proof (induction ds)
  case (Cons e ds)
  have "b_timestamp b @ b_file_type b \<noteq> b_timestamp b' @ b_file_type b'" if b: "entry_info e = Some b" "(n, x) \<in> set ds" "entry_info (n, x) = Some b'" for b b' n x
  proof
    assume k: "b_timestamp b @ b_file_type b = b_timestamp b' @ b_file_type b'"
    obtain n' x' where e: "e = (n', x')" by (cases e)
    note i = b(1) [unfolded e entry_info_Some] b(3) [unfolded entry_info_Some]
    have "n' = n" using i k stamp_ok_length [of "b_timestamp b"] stamp_ok_length [of "b_timestamp b'"] by simp
    with Cons.prems e b(2) show False by force
  qed
  moreover have "distinct (map (\<lambda>b. b_timestamp b @ b_file_type b) (List.map_filter entry_info ds))" using Cons by simp
  ultimately show ?case
    by (cases "entry_info e") (force simp: map_filter_Cons List.map_filter_def)+
qed (simp add: List.map_filter_def)

text \<open>C22. \<open>ListBackups\<close> lists exactly the snapshots, newest first: without I/O faults the result
  has one entry for every regular file of the domain's backup directory with a valid snapshot name,
  with its time stamp, type and size, and nothing else, in strictly descending order.\<close>

theorem list_backups_exact:
  assumes "no_faults w" "fs_wf w" "tree w (backups_at w dn) = Some es"
  shows "\<exists>bs. fst (list_backups dn w) = Inr bs
    \<and> sorted_wrt (\<lambda>a b. b_timestamp a @ b_file_type a > b_timestamp b @ b_file_type b) bs
    \<and> (\<forall>b. b \<in> set bs \<longleftrightarrow> stamp_ok (b_timestamp b) \<and> b_file_type b \<in> file_types
        \<and> (\<exists>c m. (snapshot_name (b_timestamp b) (b_file_type b), Reg c m) \<in> set es \<and> b_size b = length c))"
proof -
  let ?d = "backup_dir_path (ulower w) (backup_dir (env w)) dn"
  let ?key = "\<lambda>b. b_timestamp b @ b_file_type b" and ?bs = "List.map_filter entry_info es"
  have "\<forall>(n, x) \<in> set es. node_at w (backups_at w dn @ [n]) = Some x"
    using node_at_entry [OF assms(2,3)] by auto
  then have le: "fst (list_entries ?d es (tock w)) = ?bs"
    using assms(1) by (intro list_entries_spec [of _ _ "backups_at w dn" "node_at w"]) (auto simp: backups_at_def)
  have "os_read_dir ?d w = (Inr es, tock w)" using assms(1,3) by (simp add: os_read_dir_def backups_at_def)
  then have r: "fst (list_backups dn w) = Inr (rev (sort_key ?key ?bs))"
    using le by (cases "list_entries ?d es (tock w)") (simp add: list_backups_def Let_def)
  have "distinct (map ?key ?bs)"
    by (rule entry_infos_distinct) (rule dir_wf_distinct [OF fs_wfD(1) [OF assms(2,3)]])
  then have "distinct (map ?key (sort_key ?key ?bs))" by (simp add: distinct_map)
  moreover have "sorted (map ?key (sort_key ?key ?bs))" by simp
  ultimately have "sorted_wrt (<) (map ?key (sort_key ?key ?bs))" by (simp add: strict_sorted_iff)
  then have "sorted_wrt (\<lambda>a b. ?key a > ?key b) (rev (sort_key ?key ?bs))"
    by (simp add: sorted_wrt_rev sorted_wrt_map)
  moreover have "set (rev (sort_key ?key ?bs)) = set ?bs" by simp
  ultimately show ?thesis using r entry_infos_mem [of _ es] by auto
qed

lemma list_backups_exact_witness:
  "\<exists>bs b. fst (list_backups demo_domain demo) = Inr bs \<and> b \<in> set bs \<and> b_size b = 3"
proof -
  have t: "tree demo (backups_at demo demo_domain) = Some [(demo_snapshot, Reg ''old'' 384)]"
    unfolding demo_backups by code_simp
  have "stamp_ok ''2026-01-02T03-04-05Z''" by code_simp
  moreover have "snapshot_name ''2026-01-02T03-04-05Z'' file_type_waf = demo_snapshot" by code_simp
  ultimately show ?thesis
    using list_backups_exact [OF _ demo_wf t] file_types_known(1)
    by (fastforce simp: no_faults_def dest: spec
        [of _ "\<lparr>b_timestamp = ''2026-01-02T03-04-05Z'', b_file_type = file_type_waf, b_size = 3\<rparr>"])
qed

end
