(* ===== verification/Overlay.thy ===== *)
theory Overlay
  imports ChainProps
begin

text \<open>
  \<open>ui/overlay.go\<close>: the readers of the overlays the program itself generates. The views show their
  result and the add forms extend it, so they have to recover exactly what was generated.
\<close>

subsection \<open>Model\<close>

definition exclusion_url_line :: re where
  "exclusion_url_line =
     seqs [BeginText, lit ''SecRuleRemoveById'', plus re_space, Cap 1 (plus is_digit), EndText]"

definition exclusion_tag_line :: re where
  "exclusion_tag_line =
     seqs [BeginText, lit ''SecRuleRemoveByTag'', plus re_space, lit [quot], Cap 1 (plus tag_byte),
           lit [quot], EndText]"

definition exclusion_target_id :: re where
  "exclusion_target_id =
     seqs [BeginText, lit ''SecRule ARGS:'', Cap 1 (plus tag_byte), plus re_space,
           lit ([quot] @ ''@unconditionalMatch'' @ [quot]), plus re_space, lit ([quot] @ ''id:''),
           plus is_digit, lit '',phase:2,pass,nolog,ctl:ruleRemoveById='', Cap 2 (plus is_digit),
           lit [quot], EndText]"

definition exclusion_target_tag :: re where
  "exclusion_target_tag =
     seqs [BeginText, lit ''SecRule ARGS:'', Cap 1 (plus tag_byte), plus re_space,
           lit ([quot] @ ''@unconditionalMatch'' @ [quot]), plus re_space, lit ([quot] @ ''id:''),
           plus is_digit, lit '',phase:2,pass,nolog,ctl:ruleRemoveByTag='', Cap 2 (plus tag_byte),
           lit [quot], EndText]"

definition ip_rules_deny_line :: re where
  "ip_rules_deny_line =
     seqs [BeginText, Star (Chr re_space), lit ''remote_ip'', plus re_space, Cap 1 (plus re_dot), EndText]"

definition ip_rules_allow_line :: re where
  "ip_rules_allow_line =
     seqs [BeginText, Star (Chr re_space), lit ''not remote_ip'', plus re_space, Cap 1 (plus re_dot), EndText]"

definition exclusion_of_line :: "string \<Rightarrow> exclusion option" where
  "exclusion_of_line line =
     (let trimmed = trim_space line in
      case find_submatch exclusion_url_line trimmed of
        Some m \<Rightarrow> Some \<lparr>ex_type = exclude_by_id, ex_value = group 1 m, ex_param = []\<rparr>
      | None \<Rightarrow>
     (case find_submatch exclusion_tag_line trimmed of
        Some m \<Rightarrow> Some \<lparr>ex_type = exclude_by_tag, ex_value = group 1 m, ex_param = []\<rparr>
      | None \<Rightarrow>
     (case find_submatch exclusion_target_id trimmed of
        Some m \<Rightarrow> Some \<lparr>ex_type = exclude_by_id, ex_value = group 2 m, ex_param = group 1 m\<rparr>
      | None \<Rightarrow>
     (case find_submatch exclusion_target_tag trimmed of
        Some m \<Rightarrow> Some \<lparr>ex_type = exclude_by_tag, ex_value = group 2 m, ex_param = group 1 m\<rparr>
      | None \<Rightarrow> None))))"

definition parse_exclusions_overlay :: "string \<Rightarrow> exclusion list" where
  "parse_exclusions_overlay bytes = List.map_filter exclusion_of_line (split_on nl bytes)"

text \<open>The loop of \<open>parseIPRulesOverlay\<close>; a line may extend both lists.\<close>

fun ip_rules_of_lines :: "ip_rules \<Rightarrow> string list \<Rightarrow> ip_rules" where
  "ip_rules_of_lines rules [] = rules"
| "ip_rules_of_lines rules (line # ls) =
     (let r1 = (case find_submatch ip_rules_deny_line line of
          Some m \<Rightarrow> rules\<lparr>denylist := denylist rules @ str_fields (group 1 m)\<rparr> | None \<Rightarrow> rules);
          r2 = (case find_submatch ip_rules_allow_line line of
          Some m \<Rightarrow> r1\<lparr>allowlist := allowlist r1 @ str_fields (group 1 m)\<rparr> | None \<Rightarrow> r1)
      in ip_rules_of_lines r2 ls)"

definition no_ip_rules :: ip_rules where
  "no_ip_rules = \<lparr>allowlist = [], denylist = []\<rparr>"

definition parse_ip_rules_overlay :: "string \<Rightarrow> ip_rules" where
  "parse_ip_rules_overlay bytes = ip_rules_of_lines no_ip_rules (split_on nl bytes)"

definition read_exclusions_file ::
  "string \<Rightarrow> ('a) fsys_scheme \<Rightarrow> (os_error + exclusion list) \<times> ('a) fsys_scheme" where
  "read_exclusions_file pth w =
     (case os_read_file pth w of
        (Inl e, w1) \<Rightarrow> (if is_not_exist e then (Inr [], w1) else (Inl e, w1))
      | (Inr bytes, w1) \<Rightarrow> (Inr (parse_exclusions_overlay bytes), w1))"

definition read_exclusions ::
  "string \<Rightarrow> ('a) proc_scheme \<Rightarrow> (os_error + exclusion list) \<times> ('a) proc_scheme" where
  "read_exclusions dn w =
     read_exclusions_file (exclusions_config_path (ulower w) (managed_dir (env w)) dn) w"

definition read_ip_rules_file ::
  "string \<Rightarrow> ('a) fsys_scheme \<Rightarrow> (os_error + ip_rules) \<times> ('a) fsys_scheme" where
  "read_ip_rules_file pth w =
     (case os_read_file pth w of
        (Inl e, w1) \<Rightarrow> (if is_not_exist e then (Inr no_ip_rules, w1) else (Inl e, w1))
      | (Inr bytes, w1) \<Rightarrow> (Inr (parse_ip_rules_overlay bytes), w1))"

definition read_ip_rules ::
  "string \<Rightarrow> ('a) proc_scheme \<Rightarrow> (os_error + ip_rules) \<times> ('a) proc_scheme" where
  "read_ip_rules dn w =
     read_ip_rules_file (ip_rules_config_path (ulower w) (managed_dir (env w)) dn) w"

subsection \<open>Lemmas: matching a line\<close>

text \<open>\<open>r\<close> cannot match at a byte of the class \<open>f\<close>, so a repetition of \<open>f\<close> before it is maximal.\<close>

definition starts_none :: "(char \<Rightarrow> bool) \<Rightarrow> re \<Rightarrow> bool" where
  "starts_none f r \<longleftrightarrow> (\<forall>p c s. f c \<longrightarrow> rm r p (c # s) = [])"

lemma starts_none_End: "starts_none f EndText"
  by (simp add: starts_none_def)

lemma starts_none_lit: "\<not> f c \<Longrightarrow> starts_none f (Seq (lit (c # w)) r)"
  by (auto simp: starts_none_def rm_lit simp del: rm.simps)

lemma starts_none_plus: "(\<And>x. f x \<Longrightarrow> \<not> g x) \<Longrightarrow> starts_none f (Seq (plus g) r)"
  by (auto simp: starts_none_def plus_def)

lemma starts_none_Cap: "(\<And>x. f x \<Longrightarrow> \<not> g x) \<Longrightarrow> starts_none f (Seq (Cap n (plus g)) r)"
  by (auto simp: starts_none_def plus_def)

lemma rm_lit_here: "rm (Seq (lit w) r) p (w @ s) = rm r (rev w @ p) s"
  by (simp add: rm_lit del: rm.simps)

lemma rm_lit_other: "\<not> has_prefix w s \<Longrightarrow> rm (Seq (lit w) r) p s = []"
  by (simp add: rm_lit del: rm.simps)

lemma run_split:
  assumes "list_all f v" "s = [] \<or> \<not> f (hd s)"
  shows "takeWhile f (v @ s) = v" "dropWhile f (v @ s) = s"
  using assms by (induction v) (cases s; auto)+

lemma rm_plus_run:
  assumes "list_all f v" "v \<noteq> []" "s = [] \<or> \<not> f (hd s)" "starts_none f r"
  shows "rm (Seq (plus f) r) p (v @ s) = rm r (rev v @ p) s"
    and "rm (Seq (Cap n (plus f)) r) p (v @ s) = with_caps [(n, v)] (rm r (rev v @ p) s)"
proof -
  have nn: "\<And>p c s. f c \<Longrightarrow> rm r p (c # s) = []" using assms(4) by (simp add: starts_none_def)
  show "rm (Seq (plus f) r) p (v @ s) = rm r (rev v @ p) s"
    using rm_plus_munch [where r = r and f = f and p = p and s = "v @ s", OF nn] run_split [OF assms(1,3)] assms(2) by (simp del: rm.simps)
  show "rm (Seq (Cap n (plus f)) r) p (v @ s) = with_caps [(n, v)] (rm r (rev v @ p) s)"
    using rm_Cap_plus_munch [where r = r and f = f and p = p and s = "v @ s" and n = n, OF nn] run_split [OF assms(1,3)] assms(2) by (simp del: rm.simps)
qed

lemma rm_space_run:
  assumes "s = [] \<or> \<not> re_space (hd s)" "starts_none re_space r"
  shows "rm (Seq (plus re_space) r) p (CHR '' '' # s) = rm r (CHR '' '' # p) s"
  using rm_plus_run(1) [of re_space "'' ''" s r p] assms by (simp add: re_space_def)

lemma rm_plus_end:
  assumes "list_all f v" "v \<noteq> []" "starts_none f r"
  shows "rm (Seq (Cap n (plus f)) r) p v = with_caps [(n, v)] (rm r (rev v @ p) [])"
  using rm_plus_run(2) [OF assms(1,2) disjI1 [OF refl] assms(3)] by simp

subsection \<open>Lemmas: exclusion lines\<close>

lemma tag_byte_plain: "tag_byte c \<Longrightarrow> c \<noteq> quot \<and> c \<noteq> CHR '','' \<and> \<not> re_space c"
  by (auto simp: tag_byte_def re_space_def char_class_defs less_eq_char_def)

lemma digit_plain: "is_digit c \<Longrightarrow> c \<noteq> quot \<and> c \<noteq> CHR '','' \<and> \<not> re_space c"
  using tag_byte_plain [OF tag_byte_digit] by blast

lemma plain_bytes [simp]:
  "\<not> tag_byte quot" "\<not> is_digit quot" "\<not> is_digit CHR '',''" "\<not> re_space quot" "re_space CHR '' ''"
  "\<not> tag_byte CHR '' ''"
  by (simp_all add: tag_byte_def re_space_def char_class_defs less_eq_char_def)

lemma starts_none_classes:
  "starts_none re_space (Seq (Cap n (plus is_digit)) r)"
  "starts_none re_space (Seq (Cap n (plus tag_byte)) r)"
  "starts_none re_space (Seq (plus is_digit) r)"
  "starts_none tag_byte (Seq (plus re_space) r)"
  "starts_none re_space (Seq (lit (quot # w)) r)"
  "starts_none tag_byte (Seq (lit (quot # w)) r)"
  "starts_none is_digit (Seq (lit (quot # w)) r)"
  "starts_none is_digit (Seq (lit (CHR '','' # w)) r)"
  "starts_none f EndText"
  by (auto intro!: starts_none_Cap starts_none_plus starts_none_lit starts_none_End
      dest: tag_byte_plain digit_plain)

lemmas rm_line = find_submatch_BeginText rm_lit rm_space_run rm_plus_run rm_plus_end starts_none_classes

lemma digits_run: "digits_ok v \<Longrightarrow> list_all is_digit v \<and> v \<noteq> [] \<and> \<not> re_space (hd v)"
  using digit_plain by (cases v) (auto simp: digits_ok_def)

lemma tag_run: "tag_ok v \<Longrightarrow> list_all tag_byte v \<and> v \<noteq> [] \<and> \<not> re_space (hd v)"
  using tag_byte_plain by (cases v) (auto simp: tag_ok_def)

lemma url_line:
  assumes "digits_ok v"
  shows "find_submatch exclusion_url_line (''SecRuleRemoveById '' @ v) = Some [(1, v)]"
  using digits_run [OF assms]
  by (simp add: exclusion_url_line_def rm_line del: rm.simps) simp

lemma tag_line:
  assumes "tag_ok v"
  shows "find_submatch exclusion_tag_line (''SecRuleRemoveByTag '' @ [quot] @ v @ [quot]) = Some [(1, v)]"
    "find_submatch exclusion_url_line (''SecRuleRemoveByTag '' @ r) = None"
  using tag_run [OF assms]
  by (simp_all add: exclusion_tag_line_def exclusion_url_line_def rm_line del: rm.simps) simp

lemma itoa_run: "0 \<le> i \<Longrightarrow> list_all is_digit (itoa i) \<and> itoa i \<noteq> [] \<and> \<not> re_space (hd (itoa i))"
  using digits_run [of "itoa i"] nat_digits_digit by (auto simp: itoa_def digits_ok_def list_all_iff)

abbreviation target_text :: "string \<Rightarrow> int \<Rightarrow> string \<Rightarrow> string \<Rightarrow> string" where
  "target_text param i ctl v \<equiv>
     ''SecRule ARGS:'' @ param @ '' '' @ [quot] @ ''@unconditionalMatch'' @ [quot] @ '' ''
       @ [quot] @ ''id:'' @ itoa i @ '',phase:2,pass,nolog,ctl:'' @ ctl @ v @ [quot]"

lemma target_line:
  assumes "tag_ok param" "0 \<le> i"
  shows "find_submatch exclusion_url_line (target_text param i ctl v) = None"
    "find_submatch exclusion_tag_line (target_text param i ctl v) = None"
    "digits_ok v \<Longrightarrow> find_submatch exclusion_target_id (target_text param i ''ruleRemoveById='' v) = Some [(1, param), (2, v)]"
    "find_submatch exclusion_target_id (target_text param i ''ruleRemoveByTag='' v) = None"
    "tag_ok v \<Longrightarrow> find_submatch exclusion_target_tag (target_text param i ''ruleRemoveByTag='' v) = Some [(1, param), (2, v)]"
  using tag_run [OF assms(1)] itoa_run [OF assms(2)] digits_run [of v] tag_run [of v]
  by (simp_all add: exclusion_url_line_def exclusion_tag_line_def exclusion_target_id_def
      exclusion_target_tag_def rm_line del: rm.simps) simp_all

lemma exclusion_of_tight: "starts_tight l \<Longrightarrow> ends_tight l \<Longrightarrow> exclusion_of_line l =
    (case find_submatch exclusion_url_line l of
        Some m \<Rightarrow> Some \<lparr>ex_type = exclude_by_id, ex_value = group 1 m, ex_param = []\<rparr>
      | None \<Rightarrow>
     (case find_submatch exclusion_tag_line l of
        Some m \<Rightarrow> Some \<lparr>ex_type = exclude_by_tag, ex_value = group 1 m, ex_param = []\<rparr>
      | None \<Rightarrow>
     (case find_submatch exclusion_target_id l of
        Some m \<Rightarrow> Some \<lparr>ex_type = exclude_by_id, ex_value = group 2 m, ex_param = group 1 m\<rparr>
      | None \<Rightarrow>
     (case find_submatch exclusion_target_tag l of
        Some m \<Rightarrow> Some \<lparr>ex_type = exclude_by_tag, ex_value = group 2 m, ex_param = group 1 m\<rparr>
      | None \<Rightarrow> None))))"
  by (simp add: exclusion_of_line_def)

text \<open>Every row is read back from the line generated for it; comments and blank lines give nothing.\<close>

lemma exclusion_of_row:
  assumes "exclusion_ok ex" "0 \<le> i"
  shows "\<exists>l. row_lines (ex, i) = [l] \<and> nl \<notin> set l \<and> exclusion_of_line l = Some ex"
proof -
  have v: "tag_ok (ex_value ex)" using assms(1) by (auto simp: exclusion_ok_def intro: digits_tag_ok)
  have "\<not> tag_byte nl" by (simp add: tag_byte_def char_class_defs less_eq_char_def)
  then have nl: "nl \<notin> set t" if "tag_ok t" for t using that by (auto simp: tag_ok_def list_all_iff)
  have nli: "nl \<notin> set (itoa i)" using itoa_run [OF assms(2)] digit_plain by (auto simp: list_all_iff re_space_def)
  have e: "ends_tight (a # u @ ex_value ex)" for a u
    using v by (auto simp: ends_tight_def tag_ok_def list_all_iff)
  consider "ex_type ex = ''id''" "digits_ok (ex_value ex)" | "ex_type ex = ''tag''"
    using assms(1) by (auto simp: exclusion_ok_def)
  then show ?thesis
  proof cases
    case 1
    show ?thesis
    proof (cases "ex_param ex = []")
      case True
      let ?l = "''SecRuleRemoveById '' @ ex_value ex"
      have "exclusion_of_line ?l = Some ex"
        using e [of "CHR ''S''" "''ecRuleRemoveById ''"] url_line [OF 1(2)] True 1(1)
        by (cases ex) (simp add: exclusion_of_tight starts_tight_def is_graph_def less_eq_char_def group_def exclude_by_id_def)
      then show ?thesis using 1(1) True nl [OF v] by (simp add: row_lines_def)
    next
      case False
      then have p: "tag_ok (ex_param ex)" using assms(1) by (auto simp: exclusion_ok_def)
      let ?l = "target_text (ex_param ex) i ''ruleRemoveById='' (ex_value ex)"
      have "exclusion_of_line ?l = Some ex"
        using target_line(1,2) [OF p assms(2), of "''ruleRemoveById=''" "ex_value ex"]
          target_line(3) [OF p assms(2) 1(2)] 1(1)
        by (cases ex) (simp add: exclusion_of_tight starts_tight_def ends_tight_def is_graph_def less_eq_char_def
            group_def exclude_by_id_def)
      then show ?thesis using 1(1) False nl [OF v] nl [OF p] nli by (simp add: row_lines_def)
    qed
  next
    case 2
    show ?thesis
    proof (cases "ex_param ex = []")
      case True
      let ?l = "''SecRuleRemoveByTag '' @ [quot] @ ex_value ex @ [quot]"
      have "exclusion_of_line ?l = Some ex"
        using tag_line(1) [OF v] tag_line(2) [OF v, of "[quot] @ ex_value ex @ [quot]"] True 2
        by (cases ex) (simp add: exclusion_of_tight starts_tight_def ends_tight_def is_graph_def less_eq_char_def
            group_def exclude_by_tag_def)
      then show ?thesis using 2 True nl [OF v] by (simp add: row_lines_def)
    next
      case False
      then have p: "tag_ok (ex_param ex)" using assms(1) by (auto simp: exclusion_ok_def)
      let ?l = "target_text (ex_param ex) i ''ruleRemoveByTag='' (ex_value ex)"
      have "exclusion_of_line ?l = Some ex"
        using target_line(1,2) [OF p assms(2), of "''ruleRemoveByTag=''" "ex_value ex"]
          target_line(4) [OF p assms(2), of "ex_value ex"] target_line(5) [OF p assms(2) v] 2
        by (cases ex) (simp add: exclusion_of_tight starts_tight_def ends_tight_def is_graph_def less_eq_char_def
            group_def exclude_by_tag_def)
      then show ?thesis using 2 False nl [OF v] nl [OF p] nli by (simp add: row_lines_def)
    qed
  qed
qed

lemma exclusion_of_comment:
  assumes "ends_tight (CHR ''#'' # l)"
  shows "exclusion_of_line (CHR ''#'' # l) = None"
proof -
  have "starts_tight (CHR ''#'' # l)" by (simp add: starts_tight_def is_graph_def less_eq_char_def)
  with assms show ?thesis
    by (simp add: exclusion_of_tight exclusion_url_line_def exclusion_tag_line_def exclusion_target_id_def
        exclusion_target_tag_def find_submatch_BeginText rm_lit del: rm.simps)
qed

lemma exclusion_of_blank [simp]: "exclusion_of_line [] = None"
  by (simp add: exclusion_of_line_def exclusion_url_line_def exclusion_tag_line_def exclusion_target_id_def
      exclusion_target_tag_def find_submatch_BeginText rm_lit has_prefix_def del: rm.simps)

lemma header_comment: "\<exists>l. header d md t = CHR ''#'' # l"
  by (simp add: header_def header_prefix_def Let_def)

lemma map_filter_Nil: "List.map_filter f [] = []"
  by (simp add: List.map_filter_def)

lemma parse_generated_exclusions:
  assumes "list_all exclusion_ok exs" "nl \<notin> set d"
  shows "parse_exclusions_overlay (unlines (exclusions_lines (header d [] t) (exclusion_rows id_base exs))) = exs"
proof -
  let ?rows = "exclusion_rows id_base exs"
  have "\<exists>ls. concat (map row_lines rows) = ls \<and> (\<forall>l \<in> set ls. nl \<notin> set l)
      \<and> List.map_filter exclusion_of_line ls = map fst rows"
    if "\<forall>r \<in> set rows. exclusion_ok (fst r) \<and> 0 \<le> snd r" for rows
    using that
  proof (induction rows)
    case (Cons r rows)
    then obtain l where "row_lines r = [l]" "nl \<notin> set l" "exclusion_of_line l = Some (fst r)"
      using exclusion_of_row [of "fst r" "snd r"] by auto
    with Cons show ?case by (simp add: map_filter_Cons)
  qed (simp add: List.map_filter_def)
  moreover have "\<forall>r \<in> set ?rows. exclusion_ok (fst r) \<and> 0 \<le> snd r"
  proof
    fix r assume r: "r \<in> set ?rows"
    then have "fst r \<in> set exs" using exclusion_rows_fst [of id_base exs] by (metis image_eqI set_map)
    with assms(1) r exclusion_rows_nonneg [of id_base "fst r" "snd r" exs]
    show "exclusion_ok (fst r) \<and> 0 \<le> snd r" by (simp add: list_all_iff id_base_def)
  qed
  ultimately have rows: "\<forall>l \<in> set (concat (map row_lines ?rows)). nl \<notin> set l"
    "List.map_filter exclusion_of_line (concat (map row_lines ?rows)) = exs" by auto
  obtain h where h: "header d [] t = CHR ''#'' # h" using header_comment by blast
  have "exclusion_of_line (header d [] t) = None"
    using header_ends_tight [of d "[]" t] unfolding h by (rule exclusion_of_comment)
  moreover have "exclusion_of_line managed_line = None" "exclusion_of_line ''# No exclusions configured for this domain.'' = None"
    unfolding managed_line_def
    by (rule exclusion_of_comment, simp add: ends_tight_def is_graph_def less_eq_char_def)+
  moreover have "\<forall>l \<in> set (exclusions_lines (header d [] t) ?rows). nl \<notin> set l"
    using rows(1) header_no_nl [OF assms(2), of "[]" t] by (auto simp: exclusions_lines_def managed_line_def)
  then have "split_on nl (unlines (exclusions_lines (header d [] t) ?rows)) =
      exclusions_lines (header d [] t) ?rows @ [[]]" by (rule split_on_unlines)
  ultimately show ?thesis using rows(2)
    by (cases "?rows = []")
      (simp_all add: parse_exclusions_overlay_def exclusions_lines_def map_filter_Cons map_filter_snoc
        map_filter_Nil del: unlines_simps)
qed

subsection \<open>Lemmas: IP rule lines\<close>

lemma rm_Star_munch:
  assumes "starts_none f r"
  shows "rm (Seq (Star (Chr f)) r) p s = rm r (rev (takeWhile f s) @ p) (dropWhile f s)"
proof -
  let ?n = "length (takeWhile f s)"
  let ?g = "\<lambda>k. rm r (rev (take k s) @ p) (drop k s)"
  have none: "?g k = []" if "k < ?n" for k
    using takeWhile_run [OF that] assms by (auto simp: starts_none_def)
  have "rm (Seq (Star (Chr f)) r) p s = concat (map ?g (rev [0 ..< Suc ?n]))"
    by (simp add: rm_Star_Chr comp_def del: upt_Suc rm.simps(5))
  also have "\<dots> = ?g ?n" using none by simp
  finally show ?thesis by (simp only: flip: takeWhile_eq_take dropWhile_eq_drop)
qed

text \<open>The greedy choice is tried first.\<close>

lemma rm_plus_greedy:
  assumes "list_all f v" "v \<noteq> []" "s = [] \<or> \<not> f (hd s)" "rm r (rev v @ p) s = m # ms"
  shows "\<exists>ms'. rm (Seq (plus f) r) p (v @ s) = m # ms'"
proof -
  let ?s = "v @ s"
  let ?g = "\<lambda>k. rm r (rev (take k ?s) @ p) (drop k ?s)"
  have t: "takeWhile f ?s = v" using run_split [OF assms(1,3)] by simp
  obtain k where k: "length v = Suc k" using assms(2) by (cases v) auto
  have "rm (Seq (plus f) r) p ?s = concat (map ?g (rev [1 ..< Suc (length (takeWhile f ?s))]))"
    by (simp add: rm_plus comp_def del: upt_Suc takeWhile_append)
  also have "\<dots> = ?g (length v) @ concat (map ?g (rev [1 ..< length v]))"
    by (simp add: t k)
  finally show ?thesis using assms(4) by simp
qed

definition ip_line :: "string \<Rightarrow> re" where
  "ip_line kw = seqs [BeginText, Star (Chr re_space), lit kw, plus re_space, Cap 1 (plus re_dot), EndText]"

lemma ip_line_none:
  assumes "kw = c # cs" "\<not> re_space c" "\<not> has_prefix kw (dropWhile re_space l)"
  shows "find_submatch (ip_line kw) l = None"
  using assms
  by (simp add: ip_line_def find_submatch_BeginText rm_Star_munch starts_none_lit rm_lit_other del: rm.simps)

lemma ip_line_match:
  assumes "kw = c # cs" "\<not> re_space c" "d \<noteq> []" "\<not> re_space (hd d)" "nl \<notin> set d"
  shows "find_submatch (ip_line kw) (''    '' @ kw @ '' '' @ d) = Some [(1, d)]"
proof -
  let ?r = "Seq (Cap 1 (plus re_dot)) EndText"
  have dot: "list_all re_dot d" using assms(5) by (auto simp: list_all_iff re_dot_def)
  have d: "rm ?r p d = [([(1, d)], rev d @ p, [])]" for p
    using rm_plus_end [OF dot assms(3) starts_none_End, of 1 p] by (simp add: with_caps_def)
  have sp: "list_all re_space '' ''" by simp
  have "\<exists>ms. rm (Seq (plus re_space) ?r) p ('' '' @ d) = ([(1, d)], rev d @ '' '' @ p, []) # ms" for p
    using rm_plus_greedy [OF sp _ disjI2 [OF assms(4)], of ?r p] d [of "rev '' '' @ p"] by simp
  then obtain ms where "rm (Seq (plus re_space) ?r) (rev kw @ rev ''    '') ('' '' @ d)
      = ([(1, d)], rev d @ '' '' @ rev kw @ rev ''    '', []) # ms" by blast
  moreover have "rm (Seq (Star (Chr re_space)) (Seq (lit kw) (Seq (plus re_space) ?r))) [] (''    '' @ kw @ '' '' @ d)
      = rm (Seq (lit kw) (Seq (plus re_space) ?r)) (rev ''    '') (kw @ '' '' @ d)"
    using assms(1,2) rm_Star_munch [OF starts_none_lit [where f = re_space, OF assms(2)], of cs] by (simp del: rm.simps)
  ultimately show ?thesis
    by (simp add: ip_line_def find_submatch_BeginText rm_lit_here del: rm.simps append.simps)
qed

lemma ip_lines:
  "ip_rules_deny_line = ip_line ''remote_ip''" "ip_rules_allow_line = ip_line ''not remote_ip''"
  by (simp_all add: ip_rules_deny_line_def ip_rules_allow_line_def ip_line_def)

text \<open>Lines that begin with another byte add nothing.\<close>

lemma ip_rules_of_plain:
  assumes "l = [] \<or> \<not> re_space (hd l) \<and> hd l \<noteq> CHR ''r'' \<and> hd l \<noteq> CHR ''n''"
  shows "ip_rules_of_lines r (l # ls) = ip_rules_of_lines r ls"
proof -
  have "\<not> has_prefix (CHR ''r'' # x) (dropWhile re_space l)" "\<not> has_prefix (CHR ''n'' # x) (dropWhile re_space l)" for x
    using assms by (cases l; auto simp: has_prefix_def)+
  then have "find_submatch ip_rules_deny_line l = None" "find_submatch ip_rules_allow_line l = None"
    unfolding ip_lines by (auto intro!: ip_line_none simp: re_space_def)
  then show ?thesis by simp
qed

lemma set_join: "set (join s xs) \<subseteq> set s \<union> \<Union> (set ` set xs)"
  by (induction s xs rule: join.induct) auto

lemma ip_rules_of_deny:
  assumes "ns \<noteq> []" "list_all entry_ok ns"
  shows "ip_rules_of_lines r ((''    remote_ip '' @ join '' '' ns) # ls) = ip_rules_of_lines (r\<lparr>denylist := denylist r @ ns\<rparr>) ls"
    and "ip_rules_of_lines r ((''    not remote_ip '' @ join '' '' ns) # ls) = ip_rules_of_lines (r\<lparr>allowlist := allowlist r @ ns\<rparr>) ls"
proof -
  let ?d = "join '' '' ns"
  have g: "\<forall>n \<in> set ns. n \<noteq> [] \<and> (\<forall>c \<in> set n. is_graph c)"
    using assms(2) by (auto simp: list_all_iff dest: entry_ok_graph)
  have nl: "nl \<notin> set ?d"
  proof
    assume "nl \<in> set ?d"
    then obtain n where "n \<in> set ns" "nl \<in> set n" using set_join [of "'' ''" ns] by auto
    with g have "is_graph nl" by blast
    then show False by (simp add: is_graph_def less_eq_char_def)
  qed
  have h: "?d \<noteq> [] \<and> \<not> re_space (hd ?d)"
  proof -
    obtain n ns' where "ns = n # ns'" using assms(1) by (cases ns) auto
    moreover from this g obtain c n' where "n = c # n'" "is_graph c" by (cases n) auto
    moreover have "\<not> re_space c" using \<open>is_graph c\<close> by (auto simp: re_space_def is_graph_def less_eq_char_def)
    ultimately show ?thesis by (cases ns') auto
  qed
  have m: "find_submatch ip_rules_deny_line (''    remote_ip '' @ ?d) = Some [(1, ?d)]"
    "find_submatch ip_rules_allow_line (''    not remote_ip '' @ ?d) = Some [(1, ?d)]"
    unfolding ip_lines
    using ip_line_match [of "''remote_ip''" "CHR ''r''" "''emote_ip''" ?d] h nl
      ip_line_match [of "''not remote_ip''" "CHR ''n''" "''ot remote_ip''" ?d] by (simp_all add: re_space_def)
  have o: "find_submatch ip_rules_allow_line (''    remote_ip '' @ ?d) = None"
    "find_submatch ip_rules_deny_line (''    not remote_ip '' @ ?d) = None"
    unfolding ip_lines by (auto intro!: ip_line_none simp: re_space_def)
  show "ip_rules_of_lines r ((''    remote_ip '' @ ?d) # ls) = ip_rules_of_lines (r\<lparr>denylist := denylist r @ ns\<rparr>) ls"
    using m(1) o(1) fields_entries [OF assms(2)] by (simp add: group_def del: append.simps)
  show "ip_rules_of_lines r ((''    not remote_ip '' @ ?d) # ls) = ip_rules_of_lines (r\<lparr>allowlist := allowlist r @ ns\<rparr>) ls"
    using m(2) o(2) fields_entries [OF assms(2)] by (simp add: group_def del: append.simps)
qed

lemma join_entries_Nil: "list_all entry_ok ns \<Longrightarrow> join '' '' ns = [] \<longleftrightarrow> ns = []"
  by (cases ns; cases "tl ns") (auto dest: entry_ok_graph)

lemma entries_no_nl: "list_all entry_ok ns \<Longrightarrow> nl \<notin> set (join '' '' ns)"
proof
  assume ok: "list_all entry_ok ns" and "nl \<in> set (join '' '' ns)"
  then obtain n where "n \<in> set ns" "nl \<in> set n" using set_join [of "'' ''" ns] by auto
  with ok have "is_graph nl" by (auto simp: list_all_iff dest: entry_ok_graph)
  then show False by (simp add: is_graph_def less_eq_char_def)
qed

lemma parse_generated_ip_rules:
  assumes deny: "list_all entry_ok deny" and allow: "list_all entry_ok allow"
    and "nl \<notin> set d" "slug_ok slug"
  shows "parse_ip_rules_overlay (unlines (ip_rules_lines (header d [] t) slug (join '' '' deny) (join '' '' allow)))
    = \<lparr>allowlist = allow, denylist = deny\<rparr>"
proof -
  let ?ls = "ip_rules_lines (header d [] t) slug (join '' '' deny) (join '' '' allow)"
  obtain h where h: "header d [] t = CHR ''#'' # h" using header_comment by blast
  have "\<forall>l \<in> set ?ls. nl \<notin> set l"
    using header_no_nl [OF assms(3), of "[]" t] slug_ok_no_slash [OF assms(4)]
      entries_no_nl [OF deny] entries_no_nl [OF allow]
    by (auto simp: ip_rules_lines_def managed_line_def)
  then have "split_on nl (unlines ?ls) = ?ls @ [[]]" by (rule split_on_unlines)
  then have "parse_ip_rules_overlay (unlines ?ls) = ip_rules_of_lines no_ip_rules (?ls @ [[]])"
    by (simp add: parse_ip_rules_overlay_def)
  also have "\<dots> = \<lparr>allowlist = allow, denylist = deny\<rparr>"
    using deny allow ip_rules_of_deny [of deny] ip_rules_of_deny [of allow]
    by (cases "deny = []"; cases "allow = []")
      (simp_all add: ip_rules_lines_def h managed_line_def ip_rules_of_plain join_entries_Nil no_ip_rules_def
        re_space_def del: ip_rules_of_lines.simps(2))
  finally show ?thesis .
qed

end
