(* ===== verification/ComponentProps.thy ===== *)
theory ComponentProps
  imports Overlay Demo
begin

text \<open>
  The properties of the pure parts: the header format and slug of package \<open>domain\<close>, the host-name
  check of \<open>service/validate.go\<close>, the generators of packages \<open>waf\<close> and \<open>iprules\<close>, and the host
  matching of package \<open>caddy\<close>.
\<close>

subsection \<open>Host names\<close>

text \<open>C20. \<open>ValidateDomain\<close> accepts exactly the host names: at most 253 bytes, labels of 1 to 63
  letters, digits and inner hyphens joined by dots, where a first label \<open>*\<close> is allowed before at least
  two others; everything else is an error with \<open>ErrInvalidDomain\<close>. In particular an accepted domain
  has no byte that could end a header field, a line or a path element.\<close>

theorem validate_domain_exact:
  "(validate_domain d = None \<longleftrightarrow> hostname_ok d)
   \<and> (validate_domain d = Some e \<longrightarrow> errors_is e ErrInvalidDomain)
   \<and> (validate_domain d = None \<longrightarrow>
        (\<forall>c \<in> set d. is_graph c \<and> c \<noteq> CHR ''|'' \<and> c \<noteq> CHR ''/'' \<and> c \<noteq> nl))"
proof (intro conjI impI ballI)
  show "validate_domain d = None \<longleftrightarrow> hostname_ok d" by (rule validate_domain_iff)
  show "errors_is e ErrInvalidDomain" if "validate_domain d = Some e" by (rule validate_domain_error [OF that])
  show "is_graph c" "c \<noteq> CHR ''|''" "c \<noteq> CHR ''/''" "c \<noteq> nl" if "validate_domain d = None" "c \<in> set d" for c
    using host_byte_graph [OF hostname_bytes [of d c]] that by (auto simp: validate_domain_iff)
qed

lemma validate_domain_exact_witness:
  "\<exists>e. validate_domain ''-a.com'' = Some e \<and> errors_is e ErrInvalidDomain"
proof -
  have "\<not> hostname_ok ''-a.com''" by code_simp
  with validate_domain_exact [of "''-a.com''"] show ?thesis by blast
qed

subsection \<open>Headers\<close>

text \<open>C21. The overlay header round trip: for a valid domain, any mode the generator writes (or none)
  and any clock reading in a year of four digits, \<open>ParseHeader\<close> returns from \<open>Header\<close> exactly the
  domain, the mode, and the instant truncated to seconds.\<close>

theorem header_roundtrip:
  assumes "validate_domain d = None" "md \<in> {[], mode_on, mode_off, mode_detection_only}" "year_ok t"
  shows "\<exists>h. parse_header L (header d md t) = Inr h \<and> h_domain h = d \<and> h_mode h = md
    \<and> (h_has_mode h \<longleftrightarrow> md \<noteq> []) \<and> h_has_updated h \<and> h_updated h = (utc t)\<lparr>nsec := 0\<rparr>"
proof -
  have d: "field_ok d" using assms(1) host_field [of d] by (simp add: validate_domain_iff)
  have md: "md = [] \<or> field_ok md"
    using assms(2) by (auto simp: mode_defs field_ok_def starts_tight_def ends_tight_def is_graph_def less_eq_char_def)
  from parse_header_header [OF d md assms(3)] show ?thesis by (auto simp: header_of_def)
qed

lemma header_roundtrip_witness:
  "\<exists>h. parse_header (\<lambda>s. s) (header ''*.example.org'' mode_off \<lparr>secs = 63926000000, nsec = 5, offs = 7200\<rparr>) = Inr h
     \<and> h_mode h = mode_off"
proof -
  have "validate_domain ''*.example.org'' = None" "year_ok \<lparr>secs = 63926000000, nsec = 5, offs = 7200\<rparr>" by code_simp+
  from header_roundtrip [OF this(1) _ this(2), of mode_off "\<lambda>s. s"] show ?thesis by auto
qed

text \<open>The slug is safe in a file name: whatever the domain, the slug consists of lower-case
  letters, digits and underscores only, so overlay and backup names built from it never contain a
  separator or a dot.\<close>

theorem slug_safe:
  "\<forall>c \<in> set (domain_slug L d). is_lower c \<or> is_digit c \<or> c = CHR ''_''"
  using slug_ok_domain_slug [of L d] by (simp add: slug_ok_def)

lemma slug_safe_witness: "is_lower (hd (domain_slug (\<lambda>s. s) ''Example''))"
proof -
  have "domain_slug (\<lambda>s. s) ''Example'' = ''example''" by code_simp
  with slug_safe [of "\<lambda>s. s" "''Example''"] show ?thesis by (simp add: is_lower_def less_eq_char_def)
qed

subsection \<open>Generated overlays\<close>

text \<open>Nothing but the template is in a WAF overlay: for a valid domain and mode and newline-free
  paths, the lines of the generated file are exactly the fifteen lines of the template, with the mode
  in its own directive and the exclusions file of this domain as the include.\<close>

theorem waf_snippet_lines:
  assumes "validate_domain (site_domain st) = None" "site_mode st \<in> {mode_on, mode_off, mode_detection_only}"
    and "nl \<notin> set audit" "nl \<notin> set (filepath_join [incl, ''exclusions-'' @ domain_slug (ulower w) (site_domain st) @ ''.conf''])"
  shows "\<exists>s. fst (generate_waf_snippet st audit incl w) = Inr s
    \<and> split_on nl s = waf_lines (header (site_domain st) (site_mode st) (clock w (tick w))) (site_mode st)
        (filepath_join [incl, ''exclusions-'' @ domain_slug (ulower w) (site_domain st) @ ''.conf'']) audit @ [[]]"
proof -
  have d: "nl \<notin> set (site_domain st)" using assms(1) host_field by (auto simp: validate_domain_iff)
  have md: "nl \<notin> set (site_mode st)" using assms(2) by (auto simp: mode_defs)
  have "\<forall>l \<in> set (waf_lines (header (site_domain st) (site_mode st) (clock w (tick w))) (site_mode st)
      (filepath_join [incl, ''exclusions-'' @ domain_slug (ulower w) (site_domain st) @ ''.conf'']) audit). nl \<notin> set l"
    using assms(3,4) header_no_nl [OF d md] md by (auto simp: waf_lines_def managed_line_def)
  from split_on_unlines [OF this] show ?thesis
    by (simp add: generate_waf_snippet_def Let_def time_now_def)
qed

lemma waf_snippet_lines_witness:
  "\<exists>s. fst (generate_waf_snippet (new_site ''example.com'' mode_on) ''/a.log'' ''/etc/caddy'' demo) = Inr s
     \<and> split_on nl s ! 7 = ''        SecRuleEngine On''"
proof -
  have v: "validate_domain ''example.com'' = None" by code_simp
  have "domain_slug (ulower demo) ''example.com'' = ''example_com''" by code_simp
  moreover have "filepath_join [''/etc/caddy'', ''exclusions-'' @ ''example_com'' @ ''.conf''] =
      ''/etc/caddy/exclusions-example_com.conf''" by code_simp
  ultimately show ?thesis
    using waf_snippet_lines [of "new_site ''example.com'' mode_on" "''/a.log''" "''/etc/caddy''" demo] v
    by (auto simp: new_site_def waf_lines_def mode_defs)
qed



text \<open>C24. An accepted IP entry cannot escape its matcher: whatever the input string, the normalised
  entry is not empty and consists of hexadecimal digits, dots, colons and a slash only; validation
  accepts a rule set exactly if the generator produces an overlay for it.\<close>

theorem ip_entries_safe:
  "(normalize_ip_entry e = Inr n \<longrightarrow> n \<noteq> [] \<and> (\<forall>c \<in> set n. is_hex c \<or> c \<in> {CHR ''.'', CHR '':'', CHR ''/''}))
   \<and> (validate_ip_rules rules = None \<longleftrightarrow> fst (generate_ip_rules st rules w) \<in> range Inr)"
proof
  show "normalize_ip_entry e = Inr n \<longrightarrow> n \<noteq> [] \<and> (\<forall>c \<in> set n. is_hex c \<or> c \<in> {CHR ''.'', CHR '':'', CHR ''/''})"
    using normalize_ip_entry_ok [of e n] by (auto simp: entry_ok_def list_all_iff ip_byte_def is_hex_def)
  show "validate_ip_rules rules = None \<longleftrightarrow> fst (generate_ip_rules st rules w) \<in> range Inr"
    by (auto simp: validate_ip_rules_def generate_ip_rules_def Let_def time_now_def split: sum.splits)
qed

lemma ip_entries_safe_witness:
  "fst (generate_ip_rules (new_site ''a.b'' []) \<lparr>allowlist = [], denylist = [''10.0.0.7'']\<rparr> demo) \<in> range Inr
   \<and> CHR ''}'' \<notin> set ''10.0.0.7/32''"
proof -
  have n: "normalize_ip_entry ''10.0.0.7'' = Inr ''10.0.0.7/32''" by code_simp
  then have "validate_ip_rules \<lparr>allowlist = [], denylist = [''10.0.0.7'']\<rparr> = None"
    by (simp add: validate_ip_rules_def)
  moreover have "\<not> is_hex CHR ''}''" by code_simp
  ultimately show ?thesis
    using n ip_entries_safe [of "''10.0.0.7''" "''10.0.0.7/32''" "\<lparr>allowlist = [], denylist = [''10.0.0.7'']\<rparr>"
        "new_site ''a.b'' []" demo] by blast
qed

subsection \<open>Hosts\<close>

text \<open>The read-back compares the right sets: the expected hosts of any Caddyfile are distinct,
  non-empty, and look like hosts, and the live hosts collected from a configuration are exactly the
  strings in a \<open>host\<close> list at any depth, so the iteration order of Go's maps does not matter.\<close>

theorem readback_hosts:
  "distinct (expected_hosts c)
   \<and> (\<forall>h \<in> set (expected_hosts c). h \<noteq> [] \<and> (str_contains h ''.'' \<or> str_contains h '':'' \<or> h = ''localhost''))
   \<and> (h \<in> set (collect_hosts v) \<longleftrightarrow> live_host v h)"
  using expected_hosts_inv [of c] collect_hosts_live [of h v] live_host_collect [of v h]
  by (auto simp: hosts_ok_def looks_like_host_def)

lemma readback_hosts_witness: "live_host demo_config ''example.com''"
proof -
  have "''example.com'' \<in> set (collect_hosts demo_config)" by code_simp
  then show ?thesis using readback_hosts [of "[]" "''example.com''" demo_config] by blast
qed

subsection \<open>Scanner\<close>

text \<open>One broken overlay hides no other site: without I/O faults the scan is the list, in
  directory order, of what each overlay file gives by itself; a file that cannot be parsed is skipped
  and nothing else.\<close>

theorem scan_independent:
  assumes "no_faults w" "tree w (resolve (cwd w) d) = Some es"
  shows "fst (scan d w) = Inr (List.map_filter (\<lambda>(n, x).
      if x = SubDir \<or> \<not> has_prefix ''waf-'' n \<or> \<not> has_suffix ''.conf'' n then None
      else (case fst (parse_site_header (filepath_join [d, n]) n w) of Inl _ \<Rightarrow> None | Inr st \<Rightarrow> Some st)) es)"
proof -
  have "entry_site d w = (\<lambda>(n, x).
      if x = SubDir \<or> \<not> has_prefix ''waf-'' n \<or> \<not> has_suffix ''.conf'' n then None
      else (case fst (parse_site_header (filepath_join [d, n]) n w) of Inl _ \<Rightarrow> None | Inr st \<Rightarrow> Some st))"
    by (auto simp: fun_eq_iff entry_site_def)
  with scan_spec [OF assms] show ?thesis by simp
qed

lemma scan_independent_witness:
  "fst (scan ''/etc'' demo) = Inr []"
proof -
  have t: "tree demo (resolve (cwd demo) ''/etc'') = Some [(''caddy'', SubDir)]" by code_simp
  show ?thesis using scan_independent [OF _ t] by (simp add: no_faults_def List.map_filter_def)
qed

end
