(* ===== verification/AuditReader.thy ===== *)
theory AuditReader
  imports Config Json "HOL-Library.Signed_Division"
begin

text \<open>
  The reader of the Coraza audit log (\<open>internal/logs/reader.go\<close>): the window at the end of the
  file, the two formats (lines, and objects without newlines), the mapping of an object to an entry,
  filters and pagination. The path names the open file: nothing else writes it between the calls of
  one read. The texts of errors are not built, only the log lines that report them.
\<close>

subsection \<open>Entries\<close>

record audit_entry =
  ae_timestamp :: string
  ae_rule_id :: string
  ae_client :: string
  ae_uri :: string
  ae_action :: string
  ae_message :: string

record audit_msg_data =
  ad_id :: int
  ad_msg :: string

record audit_message =
  am_message :: string
  am_actionset :: string
  am_data :: "audit_msg_data option"

record audit_transaction =
  at_timestamp :: string
  at_unix_timestamp :: int
  at_id :: string
  at_client_ip :: string
  at_is_interrupted :: bool
  at_action :: string
  at_request :: "string option"

record audit_line =
  al_transaction :: audit_transaction
  al_messages :: "audit_message list"

definition no_data :: audit_msg_data where
  "no_data = \<lparr>ad_id = 0, ad_msg = []\<rparr>"

definition no_message :: audit_message where
  "no_message = \<lparr>am_message = [], am_actionset = [], am_data = None\<rparr>"

definition no_line :: audit_line where
  "no_line = \<lparr>al_transaction = \<lparr>at_timestamp = [], at_unix_timestamp = 0, at_id = [], at_client_ip = [],
     at_is_interrupted = False, at_action = [], at_request = None\<rparr>, al_messages = []\<rparr>"

text \<open>The JSON tags of the four structs.\<close>

definition dec_msg_data :: "audit_msg_data decoder" where
  "dec_msg_data = dec_struct
     [(''id'', \<lambda>v a. map_option (\<lambda>x. a\<lparr>ad_id := x\<rparr>) (dec_int64 v (ad_id a))),
      (''msg'', \<lambda>v a. map_option (\<lambda>x. a\<lparr>ad_msg := x\<rparr>) (dec_string v (ad_msg a)))]"

definition dec_message :: "audit_message decoder" where
  "dec_message = dec_struct
     [(''message'', \<lambda>v a. map_option (\<lambda>x. a\<lparr>am_message := x\<rparr>) (dec_string v (am_message a))),
      (''actionset'', \<lambda>v a. map_option (\<lambda>x. a\<lparr>am_actionset := x\<rparr>) (dec_string v (am_actionset a))),
      (''data'', \<lambda>v a. map_option (\<lambda>x. a\<lparr>am_data := x\<rparr>) (dec_ptr no_data dec_msg_data v (am_data a)))]"

definition dec_transaction :: "audit_transaction decoder" where
  "dec_transaction = dec_struct
     [(''timestamp'', \<lambda>v a. map_option (\<lambda>x. a\<lparr>at_timestamp := x\<rparr>) (dec_string v (at_timestamp a))),
      (''unix_timestamp'', \<lambda>v a. map_option (\<lambda>x. a\<lparr>at_unix_timestamp := x\<rparr>) (dec_int64 v (at_unix_timestamp a))),
      (''id'', \<lambda>v a. map_option (\<lambda>x. a\<lparr>at_id := x\<rparr>) (dec_string v (at_id a))),
      (''client_ip'', \<lambda>v a. map_option (\<lambda>x. a\<lparr>at_client_ip := x\<rparr>) (dec_string v (at_client_ip a))),
      (''is_interrupted'', \<lambda>v a. map_option (\<lambda>x. a\<lparr>at_is_interrupted := x\<rparr>) (dec_bool v (at_is_interrupted a))),
      (''action'', \<lambda>v a. map_option (\<lambda>x. a\<lparr>at_action := x\<rparr>) (dec_string v (at_action a))),
      (''request'', \<lambda>v a. map_option (\<lambda>x. a\<lparr>at_request := x\<rparr>)
         (dec_ptr [] (dec_struct [(''uri'', dec_string)]) v (at_request a)))]"

definition dec_audit_line :: "audit_line decoder" where
  "dec_audit_line = dec_struct
     [(''transaction'', \<lambda>v a. map_option (\<lambda>x. a\<lparr>al_transaction := x\<rparr>) (dec_transaction v (al_transaction a))),
      (''messages'', \<lambda>v a. map_option (\<lambda>x. a\<lparr>al_messages := x\<rparr>) (dec_slice no_message dec_message v (al_messages a)))]"

subsection \<open>Timestamps\<close>

definition short_months :: "string list" where
  "short_months = [''Jan'', ''Feb'', ''Mar'', ''Apr'', ''May'', ''Jun'', ''Jul'', ''Aug'', ''Sep'', ''Oct'', ''Nov'', ''Dec'']"

text \<open>A chunk \<open>Jan\<close> of a layout: the month's number, letters compared without case.\<close>

definition get_month :: "string \<Rightarrow> (int \<times> string) option" where
  "get_month s =
     (case List.find (\<lambda>i. map lower_byte (take 3 s) = map lower_byte (short_months ! i)) [0 ..< 12] of
        None \<Rightarrow> None | Some i \<Rightarrow> Some (int i + 1, drop 3 s))"

text \<open>A space of a layout stands for one or more spaces, or for the end of the value.\<close>

definition skip_space :: "string \<Rightarrow> string option" where
  "skip_space s = (if s \<noteq> [] \<and> hd s \<noteq> CHR '' '' then None else Some (dropWhile (\<lambda>c. c = CHR '' '') s))"

text \<open>The chunk \<open>-0700\<close>, at the end of the layout.\<close>

definition get_num_zone :: "string \<Rightarrow> int option" where
  "get_num_zone s =
     (if length s < 5 then None
      else (case (getnum True (take 2 (drop 1 s)), getnum True (take 2 (drop 3 s))) of
          (Some (hh, _), Some (mm, _)) \<Rightarrow>
            if hh > 24 \<or> mm > 60 \<or> drop 5 s \<noteq> [] then None
            else if hd s = CHR ''+'' then Some ((hh * 60 + mm) * 60)
            else if hd s = CHR ''-'' then Some (- ((hh * 60 + mm) * 60))
            else None
        | _ \<Rightarrow> None))"

text \<open>\<open>time.Parse(layoutApache, s)\<close>, the layout \<open>02/Jan/2006:15:04:05 -0700\<close>.\<close>

definition parse_apache :: "string \<Rightarrow> gotime option" where
  "parse_apache s0 =
     Option.bind (getnum True s0) (\<lambda>(d, s1).
     Option.bind (Option.bind (skip CHR ''/'' s1) get_month) (\<lambda>(mo, s2).
     Option.bind (Option.bind (skip CHR ''/'' s2) get_year) (\<lambda>(y, s3).
     Option.bind (Option.bind (skip CHR '':'' s3) (in_range 0 23 \<circ> getnum False)) (\<lambda>(h, s4).
     Option.bind (Option.bind (skip CHR '':'' s4) (in_range 0 59 \<circ> getnum True)) (\<lambda>(mi, s5).
     Option.bind (Option.bind (skip CHR '':'' s5) (in_range 0 59 \<circ> getnum True)) (\<lambda>(sc, s6).
     (let (ns, s7) = get_fraction s6
      in Option.bind (Option.bind (skip_space s7) get_num_zone) (\<lambda>z.
           if valid_date y mo d
           then Some \<lparr>secs = days_of_civil y mo d * 86400 + h * 3600 + mi * 60 + sc - z,
                      nsec = ns, offs = z\<rparr>
           else None))))))))"

text \<open>64-bit arithmetic wraps around.\<close>

definition wrap64 :: "int \<Rightarrow> int" where
  "wrap64 i = (i + 2 ^ 63) mod 2 ^ 64 - 2 ^ 63"

definition unix_time :: "int \<Rightarrow> gotime" where
  "unix_time u = \<lparr>secs = wrap64 (u + 62135596800), nsec = 0, offs = 0\<rparr>"

definition normalize_timestamp :: "string \<Rightarrow> int \<Rightarrow> string" where
  "normalize_timestamp ts unix =
     (if ts \<noteq> [] then (case parse_apache ts of Some t \<Rightarrow> format_rfc3339 t | None \<Rightarrow> ts)
      else if unix > 0 then format_rfc3339 (unix_time unix)
      else ts)"

subsection \<open>Mapping an object to an entry\<close>

definition action_blocked :: string where "action_blocked = ''BLOCKED''"
definition action_detected :: string where "action_detected = ''DETECTED''"

text \<open>\<open>strings.Trim(s, cutset)\<close> for a cutset of ASCII characters.\<close>

definition trim_set :: "string \<Rightarrow> string \<Rightarrow> string" where
  "trim_set cs s = rev (dropWhile (\<lambda>c. c \<in> set cs) (rev (dropWhile (\<lambda>c. c \<in> set cs) s)))"

fun verb_of_tokens :: "string list \<Rightarrow> string" where
  "verb_of_tokens [] = []"
| "verb_of_tokens (tok # toks) =
     (let t = trim_set [CHR 0x27, quot] (trim_space tok) in
      if t = ''deny'' \<or> t = ''drop'' \<or> t = ''redirect'' \<or> has_prefix ''redirect:'' t then ''deny''
      else if t = ''pass'' \<or> t = ''allow'' then ''pass''
      else verb_of_tokens toks)"

definition disruptive_verb :: "string \<Rightarrow> string" where
  "disruptive_verb actionset = verb_of_tokens (split_on CHR '','' actionset)"

definition is_block_verb :: "string \<Rightarrow> bool" where
  "is_block_verb v \<longleftrightarrow> v = ''deny'' \<or> v = ''drop'' \<or> v = ''redirect''"

definition is_pass_verb :: "string \<Rightarrow> bool" where
  "is_pass_verb v \<longleftrightarrow> v = ''pass'' \<or> v = ''allow''"

fun classify_sets :: "bool \<Rightarrow> string list \<Rightarrow> string" where
  "classify_sets interrupted [] = (if interrupted then action_blocked else action_detected)"
| "classify_sets interrupted (st # sts) =
     (if is_block_verb (disruptive_verb st) then action_blocked
      else if is_pass_verb (disruptive_verb st) then action_detected
      else classify_sets interrupted sts)"

definition classify :: "(string \<Rightarrow> string) \<Rightarrow> string \<Rightarrow> bool \<Rightarrow> string list \<Rightarrow> string" where
  "classify L tx_action interrupted actionsets =
     (let a = to_lower L (trim_space tx_action) in
      if is_block_verb a then action_blocked
      else if is_pass_verb a then action_detected
      else classify_sets interrupted actionsets)"

definition actionsets_of :: "audit_message list \<Rightarrow> string list" where
  "actionsets_of messages = map am_actionset messages"

text \<open>The loop over the messages: the first message text, the first positive rule id.\<close>

definition add_message :: "audit_entry \<Rightarrow> audit_message \<Rightarrow> audit_entry" where
  "add_message e m =
     (let e1 = (if ae_message e = [] then e\<lparr>ae_message := am_message m\<rparr> else e) in
      case am_data m of
        Some d \<Rightarrow> if ae_rule_id e1 = [] \<and> ad_id d > 0 then e1\<lparr>ae_rule_id := itoa (ad_id d)\<rparr> else e1
      | None \<Rightarrow> e1)"

definition entry_from_line :: "(string \<Rightarrow> string) \<Rightarrow> audit_line \<Rightarrow> audit_entry option" where
  "entry_from_line L l =
     (let t = al_transaction l in
      if at_id t = [] then None
      else Some (foldl add_message
        \<lparr>ae_timestamp = normalize_timestamp (at_timestamp t) (at_unix_timestamp t), ae_rule_id = [],
         ae_client = at_client_ip t, ae_uri = (case at_request t of Some u \<Rightarrow> u | None \<Rightarrow> []),
         ae_action = classify L (at_action t) (at_is_interrupted t) (actionsets_of (al_messages l)),
         ae_message = []\<rparr> (al_messages l)))"

definition parse_line :: "(string \<Rightarrow> string) \<Rightarrow> string \<Rightarrow> audit_entry option" where
  "parse_line L raw =
     Option.bind (json_unmarshal raw) (\<lambda>v. Option.bind (dec_audit_line v no_line) (entry_from_line L))"

subsection \<open>Filters and pages\<close>

text \<open>
  \<open>strings.EqualFold(e.Action, action)\<close>: the action of an entry is ASCII.
\<close>

definition entry_matches :: "(string \<Rightarrow> string) \<Rightarrow> audit_entry \<Rightarrow> string \<Rightarrow> string \<Rightarrow> bool" where
  "entry_matches L e search action \<longleftrightarrow>
     (if action \<noteq> [] \<and> \<not> equal_fold (ae_action e) action then False
      else if trim_space search = [] then True
      else list_ex (\<lambda>hay. str_contains (to_lower L hay) (to_lower L (trim_space search)))
             [ae_client e, ae_uri e, ae_rule_id e, ae_message e])"

definition default_page_size :: int where "default_page_size = 50"

record read_options =
  op_search :: string
  op_action :: string
  op_page :: int
  op_page_size :: int

record log_page =
  pg_entries :: "audit_entry list"
  pg_page :: int
  pg_page_size :: int
  pg_total :: int
  pg_pages :: int

definition no_page :: log_page where
  "no_page = \<lparr>pg_entries = [], pg_page = 0, pg_page_size = 0, pg_total = 0, pg_pages = 0\<rparr>"

text \<open>
  The numbers \<open>paginate\<close> computes: page, page size, number of pages, and the bounds of the slice.
  The page asked for is clamped from below, from above and from below again.
\<close>

definition clamp_page :: "int \<Rightarrow> int \<Rightarrow> int" where
  "clamp_page page pages =
     (let page = (if page < 1 then 1 else page);
          page = (if page > pages then pages else page)
      in if page < 1 then 1 else page)"

definition real_size :: "int \<Rightarrow> int" where
  "real_size page_size = (if page_size < 1 then default_page_size else page_size)"

definition page_bounds :: "int \<Rightarrow> int \<Rightarrow> int \<Rightarrow> int \<times> int \<times> int \<times> int \<times> int" where
  "page_bounds count page page_size =
     (let page_size = real_size page_size;
          pages = (if count > 0 then wrap64 (count + page_size - 1) sdiv page_size else 0);
          page = clamp_page page pages;
          start = wrap64 ((page - 1) * page_size);
          stop = wrap64 (start + page_size)
      in (page, page_size, pages, if start > count then count else start, if stop > count then count else stop))"

definition paginate :: "audit_entry list \<Rightarrow> int \<Rightarrow> int \<Rightarrow> log_page" where
  "paginate entries page page_size =
     (let (p, size, pages, start, stop) = page_bounds (int (length entries)) page page_size
      in \<lparr>pg_entries = take (nat (stop - start)) (drop (nat start) entries), pg_page = p,
          pg_page_size = size, pg_total = int (length entries), pg_pages = pages\<rparr>)"

subsection \<open>Reading\<close>

definition max_tail_bytes :: nat where "max_tail_bytes = 2 * 1024 * 1024"

text \<open>\<open>f.Stat\<close> of the open file, and one read of it (\<open>io.ReadAll\<close>, \<open>f.ReadAt\<close>).\<close>

definition file_stat :: "string \<Rightarrow> ('a) fsys_scheme \<Rightarrow> nat os_result \<times> ('a) fsys_scheme" where
  "file_stat f w =
     (case now_fault w of Some (e, _) \<Rightarrow> Inl (PathError ''stat'' f (Fault e))
      | None \<Rightarrow> (case node_at w (resolve (cwd w) f) of Some (Reg c _) \<Rightarrow> Inr (length c) | _ \<Rightarrow> Inr 0),
      tock w)"

definition file_read :: "string \<Rightarrow> ('a) fsys_scheme \<Rightarrow> string os_result \<times> ('a) fsys_scheme" where
  "file_read f w =
     (case now_fault w of Some (e, _) \<Rightarrow> Inl (PathError ''read'' f (Fault e))
      | None \<Rightarrow> (case node_at w (resolve (cwd w) f) of Some (Reg c _) \<Rightarrow> Inr c
                 | _ \<Rightarrow> Inl (PathError ''read'' f EISDIR)),
      tock w)"

text \<open>What follows the first newline, if there is one.\<close>

definition after_newline :: "string \<Rightarrow> string" where
  "after_newline s = (if nl \<in> set s then tl (dropWhile (\<lambda>c. c \<noteq> nl) s) else s)"

definition tail_window :: "nat \<Rightarrow> string \<Rightarrow> ('a) fsys_scheme \<Rightarrow> string os_result \<times> ('a) fsys_scheme" where
  "tail_window m f w =
     (case file_stat f w of
        (Inl e, w1) \<Rightarrow> (Inl e, w1)
      | (Inr len, w1) \<Rightarrow>
          if len \<le> m then file_read f w1
          else (case file_read f w1 of
              (Inl e, w2) \<Rightarrow> (Inl e, w2)
            | (Inr c, w2) \<Rightarrow> (Inr (after_newline (take m (drop (len - m) c))), w2)))"

text \<open>The loop over \<open>reader.ReadBytes('\n')\<close>: \<open>n\<close> is the number of the line.\<close>

definition read_lines_of :: "string \<Rightarrow> string list" where
  "read_lines_of s = map (\<lambda>l. l @ [nl]) (butlast (split_on nl s)) @ [last (split_on nl s)]"

fun read_lines ::
  "string \<Rightarrow> read_options \<Rightarrow> nat \<Rightarrow> string list \<Rightarrow> audit_entry list \<Rightarrow> ('a) proc_scheme
    \<Rightarrow> audit_entry list \<times> ('a) proc_scheme" where
  "read_lines pth opts n [] es w = (es, w)"
| "read_lines pth opts n (line # ls) es w =
     (if trim_space line = [] then read_lines pth opts (Suc n) ls es w
      else (case parse_line (ulower w) line of
          None \<Rightarrow> read_lines pth opts (Suc n) ls es
            (log_append (LogError ''unparseable audit log line'' [pth, itoa (int n)]) w)
        | Some e \<Rightarrow> read_lines pth opts (Suc n) ls
            (if entry_matches (ulower w) e (op_search opts) (op_action opts) then es @ [e] else es) w))"

text \<open>The loop over the decoder, for objects without newlines.\<close>

function read_stream ::
  "string \<Rightarrow> read_options \<Rightarrow> string \<Rightarrow> audit_entry list \<Rightarrow> ('a) proc_scheme
    \<Rightarrow> audit_entry list \<times> ('a) proc_scheme" where
  "read_stream pth opts s es w =
     (if skip_ws s = [] then (es, w)
      else (case json_read_value s of
          Val v r \<Rightarrow>
            (case dec_audit_line v no_line of
               None \<Rightarrow> (es, log_append (LogError ''unparseable newline-less audit log'' [pth]) w)
             | Some l \<Rightarrow>
                 (case entry_from_line (ulower w) l of
                    None \<Rightarrow> read_stream pth opts r es (log_append (LogError ''unparseable audit log entry'' [pth]) w)
                  | Some e \<Rightarrow> read_stream pth opts r
                      (if entry_matches (ulower w) e (op_search opts) (op_action opts) then es @ [e] else es) w))
        | _ \<Rightarrow> (es, log_append (LogError ''unparseable newline-less audit log'' [pth]) w)))"
  by pat_completeness auto
termination
  by (relation "measure (\<lambda>(pth, opts, s, es, w). length s)") (auto dest: json_read_value_length)

declare read_stream.simps [simp del]

definition logs_read ::
  "string \<Rightarrow> read_options \<Rightarrow> ('a) proc_scheme \<Rightarrow> (os_error + log_page) \<times> ('a) proc_scheme" where
  "logs_read pth opts w =
     (case os_open pth w of
        (Inl e, w1) \<Rightarrow> (Inl e, w1)
      | (Inr _, w1) \<Rightarrow>
          (case tail_window max_tail_bytes pth w1 of
             (Inl e, w2) \<Rightarrow> (Inl e, w2)
           | (Inr data, w2) \<Rightarrow>
               (let (es, w3) = (if nl \<notin> set data \<and> trim_space data \<noteq> []
                                then read_stream pth opts data [] w2
                                else read_lines pth opts 1 (read_lines_of data) [] w2)
                in (Inr (paginate (rev es) (op_page opts) (op_page_size opts)), w3))))"

subsection \<open>Lemmas: lines and window\<close>

lemma concat_read_lines_of: "concat (read_lines_of s) = s"
proof -
  have "concat (map (\<lambda>l. l @ [nl]) (butlast ls) @ [last ls]) = join [nl] ls" if "ls \<noteq> []" for ls
    using that
  proof (induction ls)
    case (Cons l ls)
    then show ?case by (cases ls) auto
  qed simp
  then show ?thesis by (simp add: read_lines_of_def join_split_on)
qed

text \<open>The bytes of a file of content \<open>c\<close> that are read.\<close>

definition log_window :: "nat \<Rightarrow> string \<Rightarrow> string" where
  "log_window m c = (if length c \<le> m then c else after_newline (drop (length c - m) c))"

lemma after_newline_suffix: "\<exists>p. s = p @ after_newline s"
proof (cases "nl \<in> set s")
  case True
  then obtain x xs where "dropWhile (\<lambda>c. c \<noteq> nl) s = x # xs"
    by (cases "dropWhile (\<lambda>c. c \<noteq> nl) s") (auto simp: dropWhile_eq_Nil_conv)
  then have "s = (takeWhile (\<lambda>c. c \<noteq> nl) s @ [x]) @ after_newline s"
    using True by (metis after_newline_def append.assoc append_Cons append_Nil list.sel(3) takeWhile_dropWhile_id)
  then show ?thesis by blast
qed (simp add: after_newline_def)

text \<open>It is a suffix of at most \<open>m\<close> bytes, and no line that starts in the window after its first is lost.\<close>

lemma log_window_suffix: "\<exists>p. c = p @ log_window m c" "length (log_window m c) \<le> m"
proof -
  obtain q where q: "drop (length c - m) c = q @ after_newline (drop (length c - m) c)"
    using after_newline_suffix by blast
  have "c = (take (length c - m) c @ q) @ after_newline (drop (length c - m) c)"
    using q by (metis append.assoc append_take_drop_id)
  then show "\<exists>p. c = p @ log_window m c" unfolding log_window_def by (metis append_Nil)
  have "length (after_newline (drop (length c - m) c)) \<le> length (drop (length c - m) c)"
    using q by (metis le_add2 length_append)
  then show "length (log_window m c) \<le> m" by (auto simp: log_window_def)
qed

lemma log_window_lines:
  assumes "c = a @ nl # b" "length b < m"
  shows "\<exists>p. log_window m c = p @ b"
proof (cases "length c \<le> m")
  case True
  with assms show ?thesis by (auto simp: log_window_def)
next
  case False
  let ?k = "length c - m"
  have "?k \<le> length a" using assms by simp
  then have d: "drop ?k c = drop ?k a @ nl # b" using assms by simp
  show ?thesis
  proof (cases "nl \<in> set (drop ?k a)")
    case True
    then obtain u v where "drop ?k a = u @ nl # v" "nl \<notin> set u" by (metis split_list_first)
    then show ?thesis using False d by (auto simp: log_window_def after_newline_def dropWhile_append)
  next
    case F2: False
    then show ?thesis using False d
      by (auto simp: log_window_def after_newline_def dropWhile_append dropWhile_eq_Nil_conv)
  qed
qed

lemma file_stat_pair: "file_stat f w = (r, w') \<Longrightarrow> w' = tock w"
  by (auto simp: file_stat_def)

lemma file_read_pair: "file_read f w = (r, w') \<Longrightarrow> w' = tock w"
  by (auto simp: file_read_def)

lemma os_open_tock: "os_open f w = (r, w') \<Longrightarrow> w' = tock w"
  by (auto simp: os_open_def Let_def)

lemma tail_window_spec:
  assumes "tail_window m f w = (r, w')" "node_at w (resolve (cwd w) f) = Some (Reg c md)"
  shows "w' = tock w \<or> w' = tock (tock w)" "r = Inr data \<Longrightarrow> data = log_window m c"
proof -
  have n: "node_at (tock w) (resolve (cwd (tock w)) f) = Some (Reg c md)" using assms(2) by simp
  show "w' = tock w \<or> w' = tock (tock w)"
    using assms(1) by (auto simp: tail_window_def dest!: file_stat_pair file_read_pair
        split: prod.splits sum.splits if_splits)
  show "r = Inr data \<Longrightarrow> data = log_window m c"
    using assms n by (auto simp: tail_window_def file_stat_def file_read_def log_window_def
        split: prod.splits sum.splits if_splits option.splits)
qed

subsection \<open>Lemmas: the loop over the lines\<close>

definition entries_of :: "(string \<Rightarrow> string) \<Rightarrow> string list \<Rightarrow> audit_entry list" where
  "entries_of L ls = List.map_filter (\<lambda>l. if trim_space l = [] then None else parse_line L l) ls"

definition rejected_lines :: "(string \<Rightarrow> string) \<Rightarrow> string list \<Rightarrow> nat list" where
  "rejected_lines L ls =
     filter (\<lambda>i. trim_space (ls ! i) \<noteq> [] \<and> parse_line L (ls ! i) = None) [0 ..< length ls]"

definition wanted :: "(string \<Rightarrow> string) \<Rightarrow> read_options \<Rightarrow> audit_entry \<Rightarrow> bool" where
  "wanted L opts e = entry_matches L e (op_search opts) (op_action opts)"

lemma entries_of_simps [simp]:
  "entries_of L [] = []"
  "entries_of L (l # ls) = (if trim_space l = [] then entries_of L ls
     else case parse_line L l of None \<Rightarrow> entries_of L ls | Some e \<Rightarrow> e # entries_of L ls)"
  by (simp_all add: entries_of_def List.map_filter_def split: option.split)

lemma rejected_lines_Cons:
  "rejected_lines L (l # ls) =
     (if trim_space l \<noteq> [] \<and> parse_line L l = None then [0] else []) @ map Suc (rejected_lines L ls)"
proof -
  have "[0 ..< length (l # ls)] = 0 # map Suc [0 ..< length ls]"
    by (simp add: map_Suc_upt upt_conv_Cons del: upt_Suc)
  then show ?thesis by (simp add: rejected_lines_def filter_map comp_def del: upt_Suc)
qed

definition line_error :: "string \<Rightarrow> nat \<Rightarrow> log_line" where
  "line_error pth n = LogError ''unparseable audit log line'' [pth, itoa (int n)]"

lemma log_append_more: "log_append l w = w\<lparr>slog := slog w @ [l]\<rparr>"
  by (simp add: log_append_def)

lemma read_lines_spec:
  "read_lines pth opts n ls es w =
     (es @ filter (wanted (ulower w) opts) (entries_of (ulower w) ls),
      w\<lparr>slog := slog w @ map (\<lambda>i. line_error pth (n + i)) (rejected_lines (ulower w) ls)\<rparr>)"
proof (induction ls arbitrary: n es w)
  case Nil
  then show ?case by (simp add: rejected_lines_def)
next
  case (Cons l ls)
  show ?case
    by (auto simp: Cons rejected_lines_Cons wanted_def comp_def log_append_more simp flip: line_error_def
        split: option.splits)
qed


definition demo_line :: string where
  "demo_line = json_text ''{~transaction~:{~id~:~a~}}''"

definition demo_log :: string where
  "demo_log = demo_line @ [nl] @ ''?'' @ [nl]"

definition log_world :: proc where
  "log_world = \<lparr>cwd = [], tree = [[] \<mapsto> [(''log'', Reg demo_log 420)]], tick = 0, fault = (\<lambda>_. None),
     clock = (\<lambda>_. zero_time), tmp_num = (\<lambda>n. n), create_mode = 420, env = (\<lambda>_. []), ulower = (\<lambda>s. s), slog = []\<rparr>"

definition all_entries :: read_options where
  "all_entries = \<lparr>op_search = [], op_action = [], op_page = 1, op_page_size = 0\<rparr>"


subsection \<open>Lemmas: pages\<close>

lemma wrap64_id: "- (2 ^ 63) \<le> i \<Longrightarrow> i < 2 ^ 63 \<Longrightarrow> wrap64 i = i"
  by (simp add: wrap64_def)

lemma wrap64_over: "2 ^ 63 \<le> i \<Longrightarrow> i < 2 ^ 64 \<Longrightarrow> wrap64 i < 0"
proof -
  assume "2 ^ 63 \<le> i" "i < 2 ^ 64"
  have "(i + 2 ^ 63) mod 2 ^ 64 = ((i - 2 ^ 63) + 2 ^ 64) mod 2 ^ 64" by (simp add: add.commute)
  also have "\<dots> = (i - 2 ^ 63) mod 2 ^ 64" by (rule mod_add_self2)
  also have "\<dots> = i - 2 ^ 63"
    using \<open>2 ^ 63 \<le> i\<close> \<open>i < 2 ^ 64\<close> by (intro mod_pos_pos_trivial) simp_all
  finally show ?thesis using \<open>i < 2 ^ 64\<close> by (simp add: wrap64_def)
qed

text \<open>The slice always lies in the list, whatever page and page size are asked for.\<close>

lemma page_bounds_spec:
  assumes c: "0 \<le> count" "count < 2 ^ 63" and s: "psz < 2 ^ 63"
    and b: "page_bounds count page psz = (p, sz, pages, start, stop)"
  shows "1 \<le> p" "sz = real_size psz" "start = (p - 1) * sz" "stop = min count (start + sz)"
    "0 \<le> start" "start \<le> stop" "stop \<le> count"
    "count + sz \<le> 2 ^ 63 \<Longrightarrow> 0 < count \<Longrightarrow> pages = (count + sz - 1) div sz \<and> p = max 1 (min pages page)"
    "count = 0 \<Longrightarrow> pages = 0"
proof -
  define z where "z = real_size psz"
  have z: "1 \<le> z" "z < 2 ^ 63" using s by (auto simp: z_def real_size_def default_page_size_def)
  define n where "n = (if count > 0 then wrap64 (count + z - 1) sdiv z else 0)"
  define q where "q = max 1 (min n page)"
  have q: "clamp_page page n = q" by (auto simp: clamp_page_def Let_def q_def)
  have bb: "p = q \<and> sz = z \<and> pages = n
      \<and> start = (if wrap64 ((q - 1) * z) > count then count else wrap64 ((q - 1) * z))
      \<and> stop = (if wrap64 (wrap64 ((q - 1) * z) + z) > count then count else wrap64 (wrap64 ((q - 1) * z) + z))"
    using b unfolding page_bounds_def Let_def z_def [symmetric] n_def [symmetric] q by blast
  have nn: "n = (count + z - 1) div z" if "0 < count" "count + z \<le> 2 ^ 63"
    using that z c by (simp add: n_def wrap64_id signed_divide_int_def sgn_if)
  have big: "n \<le> 0" if "\<not> (0 < count \<and> count + z \<le> 2 ^ 63)"
  proof (cases "0 < count")
    case True
    then have "wrap64 (count + z - 1) < 0" using that z c by (intro wrap64_over) simp_all
    then show ?thesis using True z by (simp add: n_def signed_divide_int_def sgn_if pos_imp_zdiv_nonneg_iff)
  qed (use that in \<open>simp add: n_def\<close>)
  have mul: "0 \<le> (q - 1) * z" "(q - 1) * z \<le> count" "(q - 1) * z + z < 2 ^ 63" 
  proof -
    show "0 \<le> (q - 1) * z" using z by (simp add: q_def)
    have "(q - 1) * z \<le> count \<and> (q - 1) * z + z < 2 ^ 63"
    proof (cases "0 < count \<and> count + z \<le> 2 ^ 63 \<and> 1 \<le> n")
      case True
      then have "(q - 1) * z \<le> (n - 1) * z" using z by (intro mult_right_mono) (auto simp: q_def)
      also have "\<dots> = n * z - z" by (simp add: algebra_simps)
      also have "n * z \<le> count + z - 1"
      proof -
        have n: "n = (count + z - 1) div z" using nn True by simp
        show ?thesis unfolding n using z pos_mod_sign [of z "count + z - 1"] div_mult_mod_eq [of "count + z - 1" z] by linarith
      qed
      finally show ?thesis using True by simp
    next
      case False
      then have "q = 1" using big by (auto simp: q_def)
      with z c show ?thesis by simp
    qed
    then show "(q - 1) * z \<le> count" "(q - 1) * z + z < 2 ^ 63" by simp_all
  qed
  then have st: "start = (q - 1) * z" "stop = min count ((q - 1) * z + z)"
    using bb c z by (auto simp: wrap64_id min_def)
  from bb show "sz = real_size psz" by (simp add: z_def)
  show "1 \<le> p" using bb by (simp add: q_def)
  show "start = (p - 1) * sz" "stop = min count (start + sz)" using st bb by simp_all
  show "0 \<le> start" "start \<le> stop" "stop \<le> count" using st mul z by (auto simp: min_def)
  show "count + sz \<le> 2 ^ 63 \<Longrightarrow> 0 < count \<Longrightarrow> pages = (count + sz - 1) div sz \<and> p = max 1 (min pages page)"
    using nn bb by (simp add: q_def)
  show "count = 0 \<Longrightarrow> pages = 0" using bb by (simp add: n_def)
qed

lemma concat_slices: "concat (map (\<lambda>i. take k (drop (i * k) xs)) [0 ..< n]) = take (n * k) xs"
  by (induction n) (simp_all add: add.commute [of k] take_add)

lemma paginate_slice:
  assumes "int (length es) < 2 ^ 62" "1 \<le> psz" "psz \<le> 2 ^ 62"
    and "page_bounds (int (length es)) page psz = (q, z, m, a, b)"
  shows "pg_entries (paginate es page psz) = take (nat psz) (drop (nat ((q - 1) * psz)) es)"
    "pg_pages (paginate es page psz) = m" "1 \<le> q" "es = [] \<Longrightarrow> m = 0"
    "es \<noteq> [] \<Longrightarrow> m = (int (length es) + psz - 1) div psz" "es \<noteq> [] \<Longrightarrow> q = max 1 (min m page)"
proof -
  have sz: "real_size psz = psz" using assms(2) by (simp add: real_size_def)
  have lim: "psz < 2 ^ 63" "int (length es) < 2 ^ 63" "int (length es) + psz \<le> 2 ^ 63" using assms(1,3) by simp_all
  note sp = page_bounds_spec [OF of_nat_0_le_iff lim(2,1) assms(4), unfolded sz]
  have "take (nat (b - a)) (drop (nat a) es) = take (nat psz) (drop (nat a) es)"
  proof (cases "a + psz \<le> int (length es)")
    case True
    then have "b - a = psz" using sp(2,4) by (simp add: min_def)
    then show ?thesis by (rule arg_cong)
  next
    case False
    then have "b = int (length es)" using sp(2,4) by (simp add: min_def)
    then have "length (drop (nat a) es) \<le> nat (b - a)" "length (drop (nat a) es) \<le> nat psz"
      using sp(5) False by (simp_all add: nat_diff_distrib)
    then show ?thesis by (simp only: take_all)
  qed
  then show "pg_entries (paginate es page psz) = take (nat psz) (drop (nat ((q - 1) * psz)) es)"
    using sp(2,3) by (simp add: paginate_def assms(4))
  show "pg_pages (paginate es page psz) = m" by (simp add: paginate_def assms(4))
  show "1 \<le> q" by (rule sp(1))
  show "es = [] \<Longrightarrow> m = 0" using sp(9) by simp
  show "m = (int (length es) + psz - 1) div psz" "q = max 1 (min m page)" if "es \<noteq> []"
    using sp(8) lim(3) sp(2) that by simp_all
qed

lemma pages_concat:
  assumes "int (length es) < 2 ^ 62" "1 \<le> psz" "psz \<le> 2 ^ 62"
  shows "concat (map (\<lambda>i. pg_entries (paginate es (int i) psz)) [1 ..< Suc (nat (pg_pages (paginate es 1 psz)))]) = es"
proof -
  let ?n = "int (length es)"
  note ps = paginate_slice [OF assms]
  obtain q1 z1 m1 a1 b1 where pb1: "page_bounds ?n 1 psz = (q1, z1, m1, a1, b1)" by (metis prod_cases5)
  show ?thesis
  proof (cases "es = []")
    case True
    then have "pg_pages (paginate es 1 psz) = 0" using ps(2,4) [OF pb1] by simp
    then show ?thesis using True by simp
  next
    case False
    define m where "m = nat ((?n + psz - 1) div psz)"
    have m: "int m = (?n + psz - 1) div psz" using assms(2) False by (simp add: m_def pos_imp_zdiv_nonneg_iff)
    have pages: "nat (pg_pages (paginate es 1 psz)) = m"
      using ps(2,5) [OF pb1] False by (simp add: m_def)
    have en: "pg_entries (paginate es (int (Suc i)) psz) = take (nat psz) (drop (i * nat psz) es)" if "i < m" for i
    proof -
      obtain q z m2 a b where pb: "page_bounds ?n (int (Suc i)) psz = (q, z, m2, a, b)" by (metis prod_cases5)
      have "q - 1 = int i" using ps(5,6) [OF pb False] that m by simp
      then have "nat ((q - 1) * psz) = i * nat psz" using assms(2) by (simp add: nat_mult_distrib)
      then show ?thesis by (simp only: ps(1) [OF pb])
    qed
    have "[1 ..< Suc m] = map Suc [0 ..< m]" by (simp add: map_Suc_upt)
    moreover have "map (\<lambda>i. pg_entries (paginate es (int (Suc i)) psz)) [0 ..< m]
        = map (\<lambda>i. take (nat psz) (drop (i * nat psz) es)) [0 ..< m]"
      by (rule map_cong [OF refl], rule en) simp
    ultimately have "concat (map (\<lambda>i. pg_entries (paginate es (int i) psz)) [1 ..< Suc m])
        = concat (map (\<lambda>i. take (nat psz) (drop (i * nat psz) es)) [0 ..< m])"
      by (simp only: map_map comp_def)
    also have "\<dots> = take (m * nat psz) es" by (rule concat_slices)
    also have "\<dots> = es"
    proof -
      have "?n \<le> int m * psz"
        unfolding m using assms(2) div_mult_mod_eq [of "?n + psz - 1" psz] pos_mod_bound [of psz "?n + psz - 1"]
        by linarith
      also have "\<dots> = int (m * nat psz)" using assms(2) by simp
      finally have "length es \<le> m * nat psz" by (simp only: of_nat_le_iff)
      then show ?thesis by simp
    qed
    finally show ?thesis by (simp add: pages)
  qed
qed

text \<open>C34. Pagination never slices out of range and loses nothing: for every page and every page size a
  64-bit integer can hold, the slice lies in the list; and the pages from 1 to the number of pages are,
  one after the other, the whole list, each with at most the page size of entries.\<close>

theorem pages_partition:
  assumes "int (length es) < 2 ^ 62" "1 \<le> psz" "psz \<le> 2 ^ 62"
    and "page_bounds (int (length es)) page' psz' = (p, sz, pages, start, stop)" "psz' < 2 ^ 63"
  shows "0 \<le> start \<and> start \<le> stop \<and> stop \<le> int (length es)
    \<and> concat (map (\<lambda>i. pg_entries (paginate es (int i) psz)) [1 ..< Suc (nat (pg_pages (paginate es 1 psz)))]) = es
    \<and> length (pg_entries (paginate es page' psz)) \<le> nat psz"
proof -
  let ?n = "int (length es)"
  note ps = paginate_slice [OF assms(1-3)]
  obtain q z m a b where pb: "page_bounds ?n page' psz = (q, z, m, a, b)" by (metis prod_cases5)
  have "length (pg_entries (paginate es page' psz)) \<le> nat psz" by (simp add: ps(1) [OF pb])
  with pages_concat [OF assms(1-3)] page_bounds_spec(5-7) [OF _ _ assms(5,4)] assms(1) show ?thesis by simp
qed

lemma pages_partition_witness:
  "concat (map (\<lambda>i. pg_entries (paginate [undefined, undefined, undefined] (int i) 2)) [1, 2])
     = [undefined, undefined, undefined :: audit_entry]"
proof -
  have "page_bounds 3 (- 4) 0 = (1, 50, 1, 0, 3)" by code_simp
  moreover have "pg_pages (paginate [undefined, undefined, undefined] 1 2) = 2" 
    by (simp add: paginate_def) code_simp
  ultimately show ?thesis
    using pages_partition [of "[undefined, undefined, undefined]" 2 "- 4" 0] by (simp add: numeral_2_eq_2)
qed

subsection \<open>Lemmas: timestamps\<close>

text \<open>The timestamps Coraza writes.\<close>

definition format_apache :: "gotime \<Rightarrow> string" where
  "format_apache t =
     (let l = secs t + offs t;
          (y, mo, d) = civil_of_days (l div 86400);
          (h, mi, s) = clock_of (l mod 86400);
          m = \<bar>offs t\<bar> div 60
      in pad_int 2 d @ ''/'' @ short_months ! nat (mo - 1) @ ''/'' @ pad_int 4 y @ '':'' @
         pad_int 2 h @ '':'' @ pad_int 2 mi @ '':'' @ pad_int 2 s @ '' '' @
         (if offs t < 0 then ''-'' else ''+'') @ pad_int 2 (m div 60) @ pad_int 2 (m mod 60))"

lemma get_month_name: "1 \<le> mo \<Longrightarrow> mo \<le> 12 \<Longrightarrow> get_month (short_months ! nat (mo - 1) @ s) = Some (mo, s)"
proof -
  assume mo: "1 \<le> mo" "mo \<le> 12"
  define i where "i = nat (mo - 1)"
  have i: "i < 12" "mo = int i + 1" using mo by (auto simp: i_def)
  have "list_all (\<lambda>i. length (short_months ! i) = 3
      \<and> List.find (\<lambda>j. map lower_byte (short_months ! i) = map lower_byte (short_months ! j)) [0 ..< 12] = Some i) [0 ..< 12]"
    by code_simp
  then have "length (short_months ! i) = 3"
    "List.find (\<lambda>j. map lower_byte (short_months ! i) = map lower_byte (short_months ! j)) [0 ..< 12] = Some i"
    using i(1) by (auto simp: list_all_iff)
  then show ?thesis by (simp add: get_month_def i(2))
qed

lemma get_num_zone_format:
  assumes "z mod 60 = 0" "\<bar>z\<bar> < 90000"
  shows "get_num_zone ((if z < 0 then ''-'' else ''+'') @ pad_int 2 (\<bar>z\<bar> div 60 div 60) @ pad_int 2 (\<bar>z\<bar> div 60 mod 60)) = Some z"
proof -
  define m where "m = \<bar>z\<bar> div 60"
  have z: "\<bar>z\<bar> = 60 * m" using assms(1) by (auto simp: m_def abs_if zmod_zminus1_eq_if)
  have m: "0 \<le> m div 60" "m div 60 < 100" "m div 60 \<le> 24" "0 \<le> m mod 60" "m mod 60 < 100" "m mod 60 \<le> 60"
    using assms z by (auto intro: order_less_imp_le)
  have "length (pad_int 2 (m div 60)) = 2" "length (pad_int 2 (m mod 60)) = 2" using pad2 m by auto
  then obtain a b c d where p: "pad_int 2 (m div 60) = [a, b]" "pad_int 2 (m mod 60) = [c, d]"
    by (auto simp: numeral_2_eq_2 length_Suc_conv)
  have g: "getnum True [a, b] = Some (m div 60, [])" "getnum True [c, d] = Some (m mod 60, [])"
    using getnum_pad2 [of "m div 60" True "[]"] getnum_pad2 [of "m mod 60" True "[]"] m p by auto
  have "m div 60 * 60 + m mod 60 = m" by simp
  with m z have "get_num_zone ((if z < 0 then ''-'' else ''+'') @ [a, b] @ [c, d]) = Some z"
    by (auto simp: get_num_zone_def g numeral_eq_Suc abs_if split: if_splits)
  then show ?thesis by (simp add: p flip: m_def)
qed

text \<open>C35. The timestamps of the audit log keep their instant: the text Coraza writes for an instant
  of the years 0 to 9999, in any whole-minute zone of at most 25 hours, is shown as the RFC 3339 text of
  that instant and zone, which the templates parse back to the same second.\<close>

theorem timestamp_roundtrip:
  assumes "0 \<le> year_of t" "year_of t < 10000" "offs t mod 60 = 0" "\<bar>offs t\<bar> < 90000"
  shows "normalize_timestamp (format_apache t) unix = format_rfc3339 t
    \<and> parse_rfc3339 (normalize_timestamp (format_apache t) unix) = Some (t\<lparr>nsec := 0\<rparr>)"
proof -
  define l where "l = secs t + offs t"
  obtain y mo d where c: "civil_of_days (l div 86400) = (y, mo, d)" by (metis prod_cases3)
  obtain h mi s where k: "clock_of (l mod 86400) = (h, mi, s)" by (metis prod_cases3)
  have v: "valid_date y mo d" "days_of_civil y mo d = l div 86400"
    using civil_of_days_spec [OF c] by auto
  note b = valid_date_bounds [OF v(1)]
  note clk = clock_of_spec [OF k, simplified]
  have y: "0 \<le> y" "y < 10000" using assms c by (auto simp: year_of_def l_def)
  have secs: "l div 86400 * 86400 + h * 3600 + mi * 60 + s = l"
    using clk(1) div_mult_mod_eq [of l 86400] by linarith
  define zone where
    "zone = (if offs t < 0 then ''-'' else ''+'') @ pad_int 2 (\<bar>offs t\<bar> div 60 div 60) @ pad_int 2 (\<bar>offs t\<bar> div 60 mod 60)"
  have gz: "get_num_zone zone = Some (offs t)" unfolding zone_def by (rule get_num_zone_format [OF assms(3,4)])
  have sp: "get_fraction (CHR '' '' # r) = (0, CHR '' '' # r)" for r by (simp add: get_fraction_def)
  have sk: "skip_space (CHR '' '' # zone) = Some zone" by (simp add: skip_space_def zone_def)
  have f: "format_apache t = pad_int 2 d @ CHR ''/'' # short_months ! nat (mo - 1) @ CHR ''/'' # pad_int 4 y @ CHR '':'' #
         pad_int 2 h @ CHR '':'' # pad_int 2 mi @ CHR '':'' # pad_int 2 s @ CHR '' '' # zone"
    by (simp add: format_apache_def zone_def Let_def c k flip: l_def)
  have n: "getnum g (pad_int 2 d @ r) = Some (d, r)" "getnum g (pad_int 2 h @ r) = Some (h, r)"
    "getnum g (pad_int 2 mi @ r) = Some (mi, r)" "getnum g (pad_int 2 s @ r) = Some (s, r)"
    "get_year (pad_int 4 y @ r) = Some (y, r)" "get_month (short_months ! nat (mo - 1) @ r) = Some (mo, r)"
    "0 \<le> h" "h \<le> 23" "0 \<le> mi" "mi \<le> 59" "0 \<le> s" "s \<le> 59"
    "valid_date y mo d" "days_of_civil y mo d = l div 86400" for g r
    using b clk y v by (simp_all add: get_year_pad4 getnum_pad2 get_month_name)
  have "parse_apache (format_apache t) =
      Some \<lparr>secs = l div 86400 * 86400 + h * 3600 + mi * 60 + s - offs t, nsec = 0, offs = offs t\<rparr>"
    by (simp add: f parse_apache_def n skip_def in_range_def sp sk gz del: One_nat_def)
  then have p: "parse_apache (format_apache t) = Some (t\<lparr>nsec := 0\<rparr>)" by (simp add: secs) (simp add: l_def)
  have "format_apache t \<noteq> []" by (simp add: f)
  moreover have "format_rfc3339 (t\<lparr>nsec := 0\<rparr>) = format_rfc3339 t" by (simp add: format_rfc3339_def)
  ultimately have "normalize_timestamp (format_apache t) unix = format_rfc3339 t"
    using p by (simp add: normalize_timestamp_def)
  with parse_format_rfc3339 [OF assms] show ?thesis by simp
qed

lemma timestamp_roundtrip_witness:
  "normalize_timestamp ''01/Jan/0001:02:00:00 +0200'' 0 = ''0001-01-01T02:00:00+02:00''"
proof -
  have "year_of \<lparr>secs = 0, nsec = 0, offs = 7200\<rparr> = 1" by code_simp
  moreover have "format_apache \<lparr>secs = 0, nsec = 0, offs = 7200\<rparr> = ''01/Jan/0001:02:00:00 +0200''" by code_simp
  moreover have "format_rfc3339 \<lparr>secs = 0, nsec = 0, offs = 7200\<rparr> = ''0001-01-01T02:00:00+02:00''" by code_simp
  ultimately show ?thesis using timestamp_roundtrip [of "\<lparr>secs = 0, nsec = 0, offs = 7200\<rparr>" 0] by simp
qed

end
