(* ===== verification/Http.thy ===== *)
theory Http
  imports Overlay AuditReader Files Caddy
begin

text \<open>
  The part of \<open>net/http\<close>, \<open>net/url\<close> and \<open>encoding/json\<close> the handlers use: requests, the response
  writer, query strings, path cleaning and the routing of \<open>http.ServeMux\<close> for the patterns of the
  program. A handler maps the request, the response written so far and the state to the response and
  the state. Rendered pages, JSON lists and served assets stay symbolic parts of the body.
  Not modelled: the wire format (\<open>h_form\<close> holds the form values of the body, \<open>h_cookies\<close> the parsed
  cookies), redirect notes and error texts beyond the error they render, and concurrent requests.
\<close>

subsection \<open>Query strings\<close>

definition hex_digit :: "nat \<Rightarrow> char" where
  "hex_digit n = char_of (if n < 10 then 48 + n else 55 + n)"

definition unreserved :: "char \<Rightarrow> bool" where
  "unreserved c \<longleftrightarrow> is_lower c \<or> is_upper c \<or> is_digit c \<or> c \<in> {CHR ''-'', CHR ''_'', CHR ''.'', CHR ''~''}"

definition query_escape :: "string \<Rightarrow> string" where
  "query_escape s = concat (map (\<lambda>c.
     if unreserved c then [c]
     else if c = CHR '' '' then ''+''
     else [CHR ''%'', hex_digit (of_char c div 16), hex_digit (of_char c mod 16)]) s)"

text \<open>\<open>url.QueryUnescape\<close> (\<open>plus\<close>) and \<open>url.PathUnescape\<close>; \<open>None\<close> is an error.\<close>

fun unescape :: "bool \<Rightarrow> string \<Rightarrow> string option" where
  "unescape pl [] = Some []"
| "unescape pl (c # cs) =
     (if c = CHR ''%''
      then (case cs of a # b # r \<Rightarrow>
               if is_hex a \<and> is_hex b
               then map_option (Cons (char_of (16 * nibble a + nibble b))) (unescape pl r)
               else None
            | _ \<Rightarrow> None)
      else map_option (Cons (if pl \<and> c = CHR ''+'' then CHR '' '' else c)) (unescape pl cs))"

type_synonym url_values = "(string \<times> string) list"

text \<open>\<open>url.ParseQuery\<close>, without the malformed pairs.\<close>

definition parse_pair :: "string \<Rightarrow> (string \<times> string) option" where
  "parse_pair p =
     (if CHR '';'' \<in> set p \<or> p = [] then None
      else (let (k, v, _) = cut CHR ''='' p
            in case (unescape True k, unescape True v) of (Some k', Some v') \<Rightarrow> Some (k', v') | _ \<Rightarrow> None))"

definition parse_query :: "string \<Rightarrow> url_values" where
  "parse_query q = List.map_filter parse_pair (split_on CHR ''&'' q)"

text \<open>\<open>Values.Get\<close>, and \<open>Values.Encode\<close> of values with one value per key.\<close>

definition get_value :: "url_values \<Rightarrow> string \<Rightarrow> string" where
  "get_value vs k = (case map_of vs k of Some v \<Rightarrow> v | None \<Rightarrow> [])"

definition encode_values :: "url_values \<Rightarrow> string" where
  "encode_values vs =
     join ''&'' (map (\<lambda>kv. query_escape (fst kv) @ ''='' @ query_escape (snd kv)) (sort_key fst vs))"

subsection \<open>Requests and responses\<close>

record hreq =
  h_method :: string
  h_path :: string
  h_query :: string
  h_header :: "string \<Rightarrow> string"
  h_cookies :: url_values
  h_form :: url_values
  h_body :: string
  h_remote :: string

text \<open>\<open>r.URL.Path\<close>; \<open>h_path\<close> is the escaped path.\<close>

definition url_path :: "hreq \<Rightarrow> string" where
  "url_path r = (case unescape False (h_path r) of Some p \<Rightarrow> p | None \<Rightarrow> h_path r)"

definition query_of :: "hreq \<Rightarrow> string \<Rightarrow> string" where
  "query_of r k = get_value (parse_query (h_query r)) k"

text \<open>\<open>r.FormValue\<close>: the body's values (of a method that has them) before those of the query.\<close>

definition form_value :: "hreq \<Rightarrow> string \<Rightarrow> string" where
  "form_value r k =
     get_value ((if h_method r \<in> {''POST'', ''PUT'', ''PATCH''} then h_form r else []) @ parse_query (h_query r)) k"

definition cookie_of :: "hreq \<Rightarrow> string \<Rightarrow> string option" where
  "cookie_of r name = map_of (h_cookies r) name"

datatype same_site = SameSiteStrict | SameSiteLax

record cookie =
  ck_name :: string
  ck_value :: string
  ck_path :: string
  ck_http_only :: bool
  ck_secure :: bool
  ck_same_site :: same_site
  ck_max_age :: int

text \<open>The parts of a body; \<open>'p\<close> is the data of a rendered page.\<close>

datatype 'p chunk =
    Bytes string
  | ErrorText gerr
  | RedirectNote string
  | Rendered string 'p
  | Snapshots "backup_info list"
  | Asset string

text \<open>The response written so far; \<open>hs_status\<close> is \<open>None\<close> until the header is written.\<close>

record 'p hres =
  hs_status :: "int option"
  hs_headers :: url_values
  hs_cookies :: "cookie list"
  hs_chunks :: "'p chunk list"

definition no_response :: "'p hres" where
  "no_response = \<lparr>hs_status = None, hs_headers = [], hs_cookies = [], hs_chunks = []\<rparr>"

type_synonym ('p, 's) handler = "hreq \<Rightarrow> 'p hres \<Rightarrow> 's \<Rightarrow> 'p hres \<times> 's"

text \<open>\<open>w.Header().Set\<close> and \<open>http.SetCookie\<close>: without effect once the header is written.\<close>

definition set_header :: "string \<Rightarrow> string \<Rightarrow> 'p hres \<Rightarrow> 'p hres" where
  "set_header k v r =
     (if hs_status r = None then r\<lparr>hs_headers := filter (\<lambda>kv. fst kv \<noteq> k) (hs_headers r) @ [(k, v)]\<rparr> else r)"

definition set_cookie :: "cookie \<Rightarrow> 'p hres \<Rightarrow> 'p hres" where
  "set_cookie c r = (if hs_status r = None then r\<lparr>hs_cookies := hs_cookies r @ [c]\<rparr> else r)"

definition write_header :: "int \<Rightarrow> 'p hres \<Rightarrow> 'p hres" where
  "write_header code r = (if hs_status r = None then r\<lparr>hs_status := Some code\<rparr> else r)"

definition write_chunk :: "'p chunk \<Rightarrow> 'p hres \<Rightarrow> 'p hres" where
  "write_chunk c r = (write_header 200 r)\<lparr>hs_chunks := hs_chunks r @ [c]\<rparr>"

text \<open>The status the client sees.\<close>

definition final_status :: "'p hres \<Rightarrow> int" where
  "final_status r = (case hs_status r of Some c \<Rightarrow> c | None \<Rightarrow> 200)"

definition http_error_chunk :: "'p chunk \<Rightarrow> int \<Rightarrow> 'p hres \<Rightarrow> 'p hres" where
  "http_error_chunk c code r =
     write_chunk c (write_header code (set_header ''X-Content-Type-Options'' ''nosniff''
       (set_header ''Content-Type'' ''text/plain; charset=utf-8'' r)))"

definition http_error :: "string \<Rightarrow> int \<Rightarrow> 'p hres \<Rightarrow> 'p hres" where
  "http_error msg code r = http_error_chunk (Bytes (msg @ [nl])) code r"

definition http_redirect :: "hreq \<Rightarrow> string \<Rightarrow> int \<Rightarrow> 'p hres \<Rightarrow> 'p hres" where
  "http_redirect rq url code r =
     (let r1 = set_header ''Location'' url r;
          r2 = (if h_method rq = ''GET'' \<or> h_method rq = ''HEAD''
                then set_header ''Content-Type'' ''text/html; charset=utf-8'' r1 else r1);
          r3 = write_header code r2
      in if h_method rq = ''GET'' then write_chunk (RedirectNote url) r3 else r3)"

subsection \<open>Routing\<close>

datatype seg = Lit string | Wild | Multi

text \<open>A pattern: a method (empty for any) and segments; \<open>Multi\<close> is a trailing slash.\<close>

type_synonym pattern = "string \<times> seg list"

fun match_segs :: "seg list \<Rightarrow> string list \<Rightarrow> string list option" where
  "match_segs [] [] = Some []"
| "match_segs [Multi] (x # xs) = Some []"
| "match_segs (Lit l # ps) (x # xs) = (if x = l then match_segs ps xs else None)"
| "match_segs (Wild # ps) (x # xs) = (if x \<noteq> [] then map_option (Cons x) (match_segs ps xs) else None)"
| "match_segs _ _ = None"

definition segments :: "string \<Rightarrow> string list" where
  "segments p = map (\<lambda>s. case unescape False s of Some t \<Rightarrow> t | None \<Rightarrow> s) (tl (split_on CHR ''/'' p))"

definition method_ok :: "string \<Rightarrow> string \<Rightarrow> bool" where
  "method_ok pat m \<longleftrightarrow> pat = [] \<or> pat = m \<or> pat = ''GET'' \<and> m = ''HEAD''"

text \<open>
  The first pattern that matches; the tables list a more specific pattern before a more general one,
  which is the precedence of \<open>ServeMux\<close>.
\<close>

fun find_route :: "(pattern \<times> 'h) list \<Rightarrow> string \<Rightarrow> string list \<Rightarrow> (pattern \<times> 'h \<times> string list) option" where
  "find_route [] m segs = None"
| "find_route (((pm, ps), h) # rest) m segs =
     (case match_segs ps segs of
        Some args \<Rightarrow> if method_ok pm m then Some ((pm, ps), h, args) else find_route rest m segs
      | None \<Rightarrow> find_route rest m segs)"

definition clean_path :: "string \<Rightarrow> string" where
  "clean_path p =
     (let p1 = (if p = [] then ''/'' else if has_prefix ''/'' p then p else CHR ''/'' # p);
          np = filepath_clean p1
      in if has_suffix ''/'' p1 \<and> np \<noteq> ''/'' then np @ ''/'' else np)"

definition exact_match :: "seg list \<Rightarrow> string \<Rightarrow> bool" where
  "exact_match ps p \<longleftrightarrow> (if last ps \<noteq> Multi then True
     else has_suffix ''/'' p \<and> length ps = length (filter (\<lambda>c. c = CHR ''/'') p))"

definition allowed_methods :: "(pattern \<times> 'h) list \<Rightarrow> string list \<Rightarrow> string list" where
  "allowed_methods table segs =
     sorted_list_of_set (set (concat (map (\<lambda>((pm, ps), h).
       if match_segs ps segs \<noteq> None then (if pm = ''GET'' then [''GET'', ''HEAD''] else [pm]) else []) table)))"

datatype 'h route =
    Redirect string
  | Found 'h "string list"
  | NotAllowed "string list"
  | NotFound

definition with_query :: "string \<Rightarrow> hreq \<Rightarrow> string" where
  "with_query p rq = (if h_query rq = [] then p else p @ ''?'' @ h_query rq)"

definition mux_route :: "(pattern \<times> 'h) list \<Rightarrow> hreq \<Rightarrow> 'h route" where
  "mux_route table rq =
     (let m = h_method rq;
          p = (if m = ''CONNECT'' then h_path rq else clean_path (h_path rq));
          n = find_route table m (segments p);
          exact = (case n of None \<Rightarrow> False | Some ((_, ps), _) \<Rightarrow> exact_match ps p)
      in if \<not> exact \<and> \<not> has_suffix ''/'' p
            \<and> (case find_route table m (segments (p @ ''/'')) of
                 None \<Rightarrow> False | Some ((_, ps), _) \<Rightarrow> exact_match ps (p @ ''/''))
         then Redirect (with_query (clean_path (url_path rq) @ ''/'') rq)
         else if m \<noteq> ''CONNECT'' \<and> p \<noteq> h_path rq then Redirect (with_query p rq)
         else (case n of
             Some (_, h, args) \<Rightarrow> Found h args
           | None \<Rightarrow> (let ms = allowed_methods table (segments p)
                      in if ms = [] then NotFound else NotAllowed ms)))"

text \<open>\<open>ServeMux.ServeHTTP\<close>: the handlers take the values of the wildcards.\<close>

definition serve_mux :: "(pattern \<times> (string list \<Rightarrow> ('p, 's) handler)) list \<Rightarrow> ('p, 's) handler" where
  "serve_mux table rq r w =
     (case mux_route table rq of
        Redirect url \<Rightarrow> (http_redirect rq url 307 r, w)
      | Found h args \<Rightarrow> h args rq r w
      | NotAllowed ms \<Rightarrow>
          (http_error ''Method Not Allowed'' 405 (set_header ''Allow'' (join '', '' ms) r), w)
      | NotFound \<Rightarrow> (http_error ''404 page not found'' 404 r, w))"

subsection \<open>Limited JSON bodies\<close>

definition max_body_bytes :: nat where "max_body_bytes = 1024 * 1024"

text \<open>
  \<open>json.NewDecoder(http.MaxBytesReader(...)).Decode\<close>: the value, or the status of the error. A body over
  the limit is only an error if the value does not end within it.
\<close>

definition decode_limited :: "'a decoder \<Rightarrow> 'a \<Rightarrow> string \<Rightarrow> int + 'a" where
  "decode_limited dec zero body =
     (let over = length body > max_body_bytes;
          s = (if over then take max_body_bytes body else body)
      in case json_read_value s of
           Bad \<Rightarrow> Inl 400
         | More \<Rightarrow> Inl (if over then 413 else 400)
         | Val v r \<Rightarrow>
             if over \<and> r = [] \<and> (case v of JNum _ \<Rightarrow> True | _ \<Rightarrow> False) then Inl 413
             else (case dec v zero of None \<Rightarrow> Inl 400 | Some a \<Rightarrow> Inr a))"

end
