(* ===== verification/RateLimit.thy ===== *)
theory RateLimit
  imports FileSys Complex_Main
begin

text \<open>
  Package \<open>internal/ratelimit\<close>: the token bucket, the limiter with one bucket per client, and the
  client key. The Go code computes in \<open>float64\<close>; the model computes in rationals and rounds after
  every operation with a function \<open>rd\<close>, the parameter that stands for IEEE rounding. The bounds
  hold for every monotone \<open>rd\<close> that is exact on small integers, as round-to-nearest is; where a lemma
  needs exact arithmetic it says so (\<open>exact\<close>). A mutex makes each \<open>Allow\<close> one step.
\<close>

subsection \<open>Durations\<close>

text \<open>Nanoseconds, as in \<open>time.Duration\<close>; \<open>Time.Sub\<close> saturates at 64 bits.\<close>

definition ns_of :: "gotime \<Rightarrow> int" where
  "ns_of t = secs t * 1000000000 + nsec t"

definition sub_time :: "gotime \<Rightarrow> gotime \<Rightarrow> int" where
  "sub_time t u = max (- (2 ^ 63)) (min (2 ^ 63 - 1) (ns_of t - ns_of u))"

definition nanos_second :: int where "nanos_second = 1000000000"
definition nanos_minute :: int where "nanos_minute = 60000000000"

text \<open>\<open>Duration.Minutes\<close> of a positive duration.\<close>

definition minutes :: "(rat \<Rightarrow> rat) \<Rightarrow> int \<Rightarrow> rat" where
  "minutes rd d =
     rd (rd (of_int (d div nanos_minute)) + rd (rd (of_int (d mod nanos_minute)) / of_int nanos_minute))"

subsection \<open>Bucket\<close>

record bucket =
  b_per_minute :: rat
  b_capacity :: rat
  b_tokens :: rat
  b_last :: gotime

definition new_bucket :: "rat \<Rightarrow> int \<Rightarrow> gotime \<Rightarrow> bucket" where
  "new_bucket per_minute burst now =
     \<lparr>b_per_minute = per_minute, b_capacity = of_int burst, b_tokens = of_int burst, b_last = now\<rparr>"

definition allow_at :: "(rat \<Rightarrow> rat) \<Rightarrow> gotime \<Rightarrow> bucket \<Rightarrow> (bool \<times> int) \<times> bucket" where
  "allow_at rd now b =
     (let elapsed = sub_time now (b_last b);
          b1 = (if elapsed > 0
                then (let t = rd (b_tokens b + rd (minutes rd elapsed * b_per_minute b))
                      in b\<lparr>b_tokens := (if t > b_capacity b then b_capacity b else t), b_last := now\<rparr>)
                else b)
      in if b_tokens b1 \<ge> 1 then ((True, 0), b1\<lparr>b_tokens := rd (b_tokens b1 - 1)\<rparr>)
         else if b_per_minute b1 \<le> 0 then ((False, 3600 * nanos_second), b1)
         else (let need = rd (1 - b_tokens b1);
                   seconds = rd (need / rd (b_per_minute b1 / 60));
                   retry = \<lceil>rd (seconds - rd (1 / 1000000000))\<rceil>
               in ((False, (if retry < 1 then 1 else retry) * nanos_second), b1)))"

definition bucket_allow ::
  "(rat \<Rightarrow> rat) \<Rightarrow> bucket \<Rightarrow> ('a) fsys_scheme \<Rightarrow> (bool \<times> int) \<times> bucket \<times> ('a) fsys_scheme" where
  "bucket_allow rd b w =
     (let (now, w1) = time_now w; (r, b1) = allow_at rd now b in (r, b1, w1))"

subsection \<open>Clients\<close>

record client_entry =
  ce_bucket :: bucket
  ce_last_seen :: gotime

record limiter =
  cl_per_minute :: rat
  cl_burst :: int
  cl_clients :: "string \<Rightarrow> client_entry option"
  cl_last_prune :: gotime

definition new_client :: "rat \<Rightarrow> int \<Rightarrow> limiter" where
  "new_client per_minute burst =
     \<lparr>cl_per_minute = per_minute, cl_burst = burst, cl_clients = (\<lambda>_. None), cl_last_prune = zero_time\<rparr>"

definition client_idle_timeout :: int where "client_idle_timeout = 30 * nanos_minute"

definition prune_clients :: "gotime \<Rightarrow> limiter \<Rightarrow> limiter" where
  "prune_clients now c =
     (if sub_time now (cl_last_prune c) > client_idle_timeout
      then c\<lparr>cl_clients := (\<lambda>k. case cl_clients c k of
               None \<Rightarrow> None
             | Some e \<Rightarrow> if sub_time now (ce_last_seen e) > client_idle_timeout then None else Some e),
             cl_last_prune := now\<rparr>
      else c)"

definition client_allow ::
  "(rat \<Rightarrow> rat) \<Rightarrow> string \<Rightarrow> limiter \<Rightarrow> ('a) fsys_scheme \<Rightarrow> (bool \<times> int) \<times> limiter \<times> ('a) fsys_scheme" where
  "client_allow rd key c w =
     (let (now, w1) = time_now w;
          c1 = prune_clients now c;
          (b, w2) = (case cl_clients c1 key of
              Some e \<Rightarrow> (ce_bucket e, w1)
            | None \<Rightarrow> (let (t, w2) = time_now w1 in (new_bucket (cl_per_minute c1) (cl_burst c1) t, w2)));
          (r, b', w3) = bucket_allow rd b w2
      in (r, c1\<lparr>cl_clients := (cl_clients c1)(key \<mapsto> \<lparr>ce_bucket = b', ce_last_seen = now\<rparr>)\<rparr>, w3))"

text \<open>The rates of the three process-wide limiters.\<close>

definition login_per_client_per_minute :: rat where "login_per_client_per_minute = 5"
definition login_per_client_burst :: int where "login_per_client_burst = 5"
definition login_global_per_minute :: rat where "login_global_per_minute = 60"
definition login_global_burst :: int where "login_global_burst = 60"
definition api_per_minute :: rat where "api_per_minute = 120"
definition api_burst :: int where "api_burst = 30"

lemmas rate_defs = login_per_client_per_minute_def login_per_client_burst_def login_global_per_minute_def
  login_global_burst_def api_per_minute_def api_burst_def

subsection \<open>Client key\<close>

text \<open>\<open>net.SplitHostPort\<close>; \<open>None\<close> is an error.\<close>

definition split_host_port :: "string \<Rightarrow> (string \<times> string) option" where
  "split_host_port s =
     (if CHR '':'' \<notin> set s then None
      else
        (let port = rev (takeWhile (\<lambda>c. c \<noteq> CHR '':'') (rev s));
             front = take (length s - length port - 1) s
         in if hd s = CHR ''['' then
              (let host = takeWhile (\<lambda>c. c \<noteq> CHR '']'') (tl s) in
               if CHR '']'' \<notin> set s then None
               else if length host + 2 \<noteq> length front then None
               else if CHR ''['' \<in> set (tl s) \<or> CHR '']'' \<in> set (drop (length host + 2) s) then None
               else Some (host, port))
            else if CHR '':'' \<in> set front then None
            else if CHR ''['' \<in> set s \<or> CHR '']'' \<in> set s then None
            else Some (front, port)))"

definition client_ip :: "string \<Rightarrow> string" where
  "client_ip remote_addr =
     (case split_host_port remote_addr of None \<Rightarrow> remote_addr | Some (host, _) \<Rightarrow> host)"

subsection \<open>Lemmas\<close>

text \<open>What the bounds need of rounding: it keeps order and small integers.\<close>

definition rounding_ok :: "(rat \<Rightarrow> rat) \<Rightarrow> bool" where
  "rounding_ok rd \<longleftrightarrow> mono rd \<and> (\<forall>n. \<bar>n\<bar> \<le> 2 ^ 53 \<longrightarrow> rd (of_int n) = of_int n)"

definition exact :: "rat \<Rightarrow> rat" where
  "exact x = x"

lemma rounding_ok_exact: "rounding_ok exact"
  by (simp add: rounding_ok_def mono_def exact_def)

lemma rounding_ok_0 [simp]: "rounding_ok rd \<Longrightarrow> rd 0 = 0"
  unfolding rounding_ok_def by (metis abs_zero of_int_0 zero_le_numeral zero_le_power)

lemma rd_nonneg: "rounding_ok rd \<Longrightarrow> 0 \<le> x \<Longrightarrow> 0 \<le> rd x"
  using monoD [of rd 0 x] rounding_ok_0 [of rd] by (simp add: rounding_ok_def)

lemma minutes_nonneg:
  assumes r: "rounding_ok rd" and d: "0 \<le> d"
  shows "0 \<le> minutes rd d"
proof -
  have "0 \<le> d div nanos_minute" "0 \<le> d mod nanos_minute"
    using d by (simp_all add: nanos_minute_def pos_imp_zdiv_nonneg_iff)
  then have "0 \<le> rd (of_int (d div nanos_minute))" "0 \<le> rd (of_int (d mod nanos_minute))"
    by (simp_all add: rd_nonneg [OF r])
  then have "0 \<le> rd (rd (of_int (d mod nanos_minute)) / of_int nanos_minute)"
    by (intro rd_nonneg [OF r]) (simp add: nanos_minute_def)
  with \<open>0 \<le> rd (of_int (d div nanos_minute))\<close> show ?thesis
    unfolding minutes_def by (intro rd_nonneg [OF r, of "_ + _"] add_nonneg_nonneg)
qed

lemma minutes_exact: "minutes exact d = of_int d / of_int nanos_minute"
proof -
  have "(of_int d :: rat) = of_int (d div nanos_minute * nanos_minute + d mod nanos_minute)" by simp
  also have "\<dots> = of_int (d div nanos_minute) * of_int nanos_minute + of_int (d mod nanos_minute)"
    by (simp only: of_int_add of_int_mult)
  finally show ?thesis by (simp add: minutes_def nanos_minute_def exact_def field_simps)
qed

definition bucket_ok :: "bucket \<Rightarrow> bool" where
  "bucket_ok b \<longleftrightarrow> 0 \<le> b_tokens b \<and> b_tokens b \<le> b_capacity b \<and> 0 < b_per_minute b
     \<and> (\<exists>k. 1 \<le> k \<and> k \<le> 2 ^ 53 \<and> b_capacity b = of_int k)"

text \<open>The refill step of \<open>allow_at\<close>.\<close>

definition refilled :: "(rat \<Rightarrow> rat) \<Rightarrow> gotime \<Rightarrow> bucket \<Rightarrow> bucket" where
  "refilled rd now b =
     (let elapsed = sub_time now (b_last b) in
      if elapsed > 0
      then (let t = rd (b_tokens b + rd (minutes rd elapsed * b_per_minute b))
            in b\<lparr>b_tokens := (if t > b_capacity b then b_capacity b else t), b_last := now\<rparr>)
      else b)"

lemma allow_at_refilled:
  "allow_at rd now b =
     (let b1 = refilled rd now b in
      if b_tokens b1 \<ge> 1 then ((True, 0), b1\<lparr>b_tokens := rd (b_tokens b1 - 1)\<rparr>)
      else if b_per_minute b1 \<le> 0 then ((False, 3600 * nanos_second), b1)
      else (let retry = \<lceil>rd (rd (rd (1 - b_tokens b1) / rd (b_per_minute b1 / 60)) - rd (1 / 1000000000))\<rceil>
            in ((False, (if retry < 1 then 1 else retry) * nanos_second), b1)))"
  by (simp add: allow_at_def refilled_def Let_def)

lemma refilled_fields [simp]:
  "b_per_minute (refilled rd now b) = b_per_minute b" "b_capacity (refilled rd now b) = b_capacity b"
  by (simp_all add: refilled_def Let_def)

lemma refilled_ok: "rounding_ok rd \<Longrightarrow> bucket_ok b \<Longrightarrow> bucket_ok (refilled rd now b)"
proof -
  assume r: "rounding_ok rd" and b: "bucket_ok b"
  have "0 \<le> rd (b_tokens b + rd (minutes rd d * b_per_minute b))" if "0 \<le> d" for d
    using b minutes_nonneg [OF r that] by (intro rd_nonneg [OF r] add_nonneg_nonneg mult_nonneg_nonneg) (auto simp: bucket_ok_def)
  with b show ?thesis by (auto simp: bucket_ok_def refilled_def Let_def)
qed

lemma allow_at_ok:
  assumes r: "rounding_ok rd" and b: "bucket_ok b" and a: "allow_at rd now b = ((granted, retry), b')"
  shows "bucket_ok b'" "b_per_minute b' = b_per_minute b" "b_capacity b' = b_capacity b"
    "granted \<Longrightarrow> retry = 0 \<and> 1 \<le> b_tokens (refilled rd now b)"
    "\<not> granted \<Longrightarrow> nanos_second \<le> retry \<and> b_tokens b' < 1"
proof -
  let ?b1 = "refilled rd now b"
  have ok1: "bucket_ok ?b1" by (rule refilled_ok [OF r b])
  then obtain k where k: "1 \<le> k" "k \<le> 2 ^ 53" "b_capacity ?b1 = of_int k" by (auto simp: bucket_ok_def)
  have "bucket_ok (?b1\<lparr>b_tokens := rd (b_tokens ?b1 - 1)\<rparr>)" if "1 \<le> b_tokens ?b1"
  proof -
    have "rd (b_tokens ?b1 - 1) \<le> rd (of_int (k - 1))"
      using r ok1 k by (intro monoD [of rd]) (auto simp: rounding_ok_def bucket_ok_def)
    also have "\<dots> = of_int (k - 1)" using r k unfolding rounding_ok_def by (elim conjE allE [of _ "k - 1"]) simp
    finally have "rd (b_tokens ?b1 - 1) \<le> b_capacity ?b1" using k by simp
    with ok1 rd_nonneg [OF r, of "b_tokens ?b1 - 1"] that show ?thesis by (simp add: bucket_ok_def)
  qed
  with a ok1 show "bucket_ok b'" by (auto simp: allow_at_refilled Let_def split: if_splits)
  show "b_per_minute b' = b_per_minute b" "b_capacity b' = b_capacity b"
    "granted \<Longrightarrow> retry = 0 \<and> 1 \<le> b_tokens (refilled rd now b)"
    using a by (auto simp: allow_at_refilled Let_def split: if_splits)
  show "\<not> granted \<Longrightarrow> nanos_second \<le> retry \<and> b_tokens b' < 1"
    using a by (auto simp: allow_at_refilled Let_def nanos_second_def split: if_splits)
qed

subsection \<open>Lemmas: exact arithmetic\<close>

lemma sub_time_pos: "0 < sub_time t u \<Longrightarrow> sub_time t u \<le> ns_of t - ns_of u"
  by (auto simp: sub_time_def)

text \<open>The tokens gained by a refill are at most the rate times the time passed.\<close>

lemma refilled_gain:
  assumes "bucket_ok b"
  shows "b_tokens (refilled exact now b) \<le>
      b_tokens b + b_per_minute b * of_int (ns_of (b_last (refilled exact now b)) - ns_of (b_last b)) / of_int nanos_minute"
    and "ns_of (b_last b) \<le> ns_of (b_last (refilled exact now b))"
    and "b_last (refilled exact now b) \<in> {b_last b, now}"
proof -
  let ?e = "sub_time now (b_last b)"
  have "minutes exact ?e * b_per_minute b \<le> b_per_minute b * of_int (ns_of now - ns_of (b_last b)) / of_int nanos_minute" if "0 < ?e"
  proof -
    have "(of_int ?e :: rat) \<le> of_int (ns_of now - ns_of (b_last b))"
      using sub_time_pos [OF that] by (simp only: of_int_le_iff)
    then have "of_int ?e * b_per_minute b \<le> of_int (ns_of now - ns_of (b_last b)) * b_per_minute b"
      using assms by (intro mult_right_mono) (auto simp: bucket_ok_def)
    then show ?thesis by (simp add: minutes_exact nanos_minute_def field_simps)
  qed
  then show "b_tokens (refilled exact now b) \<le>
      b_tokens b + b_per_minute b * of_int (ns_of (b_last (refilled exact now b)) - ns_of (b_last b)) / of_int nanos_minute"
    by (auto simp: refilled_def Let_def exact_def)
  show "ns_of (b_last b) \<le> ns_of (b_last (refilled exact now b))"
    using sub_time_pos [of now "b_last b"] by (auto simp: refilled_def Let_def)
  show "b_last (refilled exact now b) \<in> {b_last b, now}" by (simp add: refilled_def Let_def)
qed

text \<open>A run of calls at the given readings of the clock, and the number of grants.\<close>

fun run_bucket :: "(rat \<Rightarrow> rat) \<Rightarrow> gotime list \<Rightarrow> bucket \<Rightarrow> nat \<times> bucket" where
  "run_bucket rd [] b = (0, b)"
| "run_bucket rd (t # ts) b =
     (let ((granted, retry), b1) = allow_at rd t b; (n, b2) = run_bucket rd ts b1
      in ((if granted then Suc n else n), b2))"

lemma run_bucket_bound:
  assumes "bucket_ok b" "run_bucket exact ts b = (n, b')"
  shows "of_nat n + b_tokens b' \<le>
      b_tokens b + b_per_minute b * of_int (ns_of (b_last b') - ns_of (b_last b)) / of_int nanos_minute
    \<and> b_last b' \<in> insert (b_last b) (set ts) \<and> bucket_ok b'"
  using assms
proof (induction ts arbitrary: b n)
  case (Cons t ts)
  obtain granted retry b1 where a: "allow_at exact t b = ((granted, retry), b1)" by (metis surj_pair)
  obtain m where m: "run_bucket exact ts b1 = (m, b')" "n = (if granted then Suc m else m)"
    using Cons.prems(2) a by (cases "run_bucket exact ts b1") (auto simp: Let_def)
  note ok = allow_at_ok [OF rounding_ok_exact Cons.prems(1) a]
  note IH = Cons.IH [OF ok(1) m(1)]
  note g = refilled_gain [OF Cons.prems(1), of t]
  have l1: "b_last b1 = b_last (refilled exact t b)"
    and t1: "b_tokens b1 = b_tokens (refilled exact t b) - (if granted then 1 else 0)"
    using a by (auto simp: allow_at_refilled Let_def exact_def split: if_splits)
  have "b_per_minute b * of_int (ns_of (b_last b') - ns_of (b_last b)) / of_int nanos_minute =
      b_per_minute b * of_int (ns_of (b_last b') - ns_of (b_last b1)) / of_int nanos_minute +
      b_per_minute b * of_int (ns_of (b_last b1) - ns_of (b_last b)) / of_int nanos_minute"
    by (simp add: nanos_minute_def field_simps)
  moreover have "of_nat n + b_tokens b' \<le> b_tokens b1 + (if granted then 1 else 0) +
      b_per_minute b * of_int (ns_of (b_last b') - ns_of (b_last b1)) / of_int nanos_minute"
    using IH ok(2) m(2) by auto
  ultimately have "of_nat n + b_tokens b' \<le>
      b_tokens b + b_per_minute b * of_int (ns_of (b_last b') - ns_of (b_last b)) / of_int nanos_minute"
    using g(1) l1 t1 by (cases granted) auto
  with IH g(3) l1 show ?case by auto
qed simp

subsection \<open>Properties\<close>

definition login_bucket :: bucket where
  "login_bucket = new_bucket login_per_client_per_minute login_per_client_burst zero_time"

lemma login_bucket_ok: "bucket_ok login_bucket"
  by (auto simp: bucket_ok_def login_bucket_def new_bucket_def rate_defs intro!: exI [of _ 5])

text \<open>C29. A bucket keeps its bounds under any rounding that keeps order and small integers: after
  every call, grant or denial, whatever the clock reads, the balance is between 0 and the capacity;
  a grant needed a whole token, and a denial comes with a retry time of at least one second.\<close>

theorem bucket_bounds:
  assumes "rounding_ok rd" "bucket_ok b" "allow_at rd now b = ((granted, retry), b')"
  shows "0 \<le> b_tokens b' \<and> b_tokens b' \<le> b_capacity b \<and> bucket_ok b'
    \<and> (granted \<longrightarrow> retry = 0 \<and> 1 \<le> b_tokens (refilled rd now b))
    \<and> (\<not> granted \<longrightarrow> nanos_second \<le> retry)"
  using allow_at_ok [OF assms] by (auto simp: bucket_ok_def)

lemma bucket_bounds_witness:
  "b_tokens (snd (allow_at exact zero_time login_bucket)) \<le> 5"
proof -
  have "b_capacity login_bucket = 5" by (simp add: login_bucket_def new_bucket_def rate_defs)
  moreover obtain g r b' where "allow_at exact zero_time login_bucket = ((g, r), b')" by (metis surj_pair)
  ultimately show ?thesis using bucket_bounds [OF rounding_ok_exact login_bucket_ok] by auto
qed




definition empty_bucket :: bucket where
  "empty_bucket = login_bucket\<lparr>b_tokens := 0\<rparr>"


text \<open>One call of \<open>ClientLimiter.Allow\<close>, taken apart.\<close>

lemma client_allow_run:
  assumes "client_allow rd key c w = (r, c', w')"
  defines "c1 \<equiv> prune_clients (clock w (tick w)) c"
  shows "case cl_clients c1 key of
      Some e \<Rightarrow> fst (allow_at rd (clock w (tick w + 1)) (ce_bucket e)) = r
    | None \<Rightarrow> fst (allow_at rd (clock w (tick w + 2))
        (new_bucket (cl_per_minute c) (cl_burst c) (clock w (tick w + 1)))) = r"
    and "k \<noteq> key \<Longrightarrow> cl_clients c' k = cl_clients c1 k"
    and "\<exists>b. cl_clients c' key = Some \<lparr>ce_bucket = b, ce_last_seen = clock w (tick w)\<rparr>"
proof -
  have p: "cl_per_minute c1 = cl_per_minute c" "cl_burst c1 = cl_burst c"
    by (simp_all add: c1_def prune_clients_def)
  show "case cl_clients c1 key of
      Some e \<Rightarrow> fst (allow_at rd (clock w (tick w + 1)) (ce_bucket e)) = r
    | None \<Rightarrow> fst (allow_at rd (clock w (tick w + 2))
        (new_bucket (cl_per_minute c) (cl_burst c) (clock w (tick w + 1)))) = r"
    "k \<noteq> key \<Longrightarrow> cl_clients c' k = cl_clients c1 k"
    "\<exists>b. cl_clients c' key = Some \<lparr>ce_bucket = b, ce_last_seen = clock w (tick w)\<rparr>"
    using assms(1) p
    by (auto simp: client_allow_def bucket_allow_def time_now_def Let_def simp flip: c1_def
        split: option.splits prod.splits)
qed

text \<open>C31. Clients are isolated and only idle ones are forgotten: a call for one key leaves the entry of
  every other key as it is, or removes it when it has been idle for more than 30 minutes; the answer
  depends on the key's own bucket alone, which is a full one if there was none or it was removed.\<close>

theorem clients_isolated:
  assumes "client_allow rd key c w = (r, c', w')"
  shows "(k \<noteq> key \<longrightarrow> cl_clients c' k = cl_clients c k
      \<or> (\<exists>e. cl_clients c k = Some e \<and> cl_clients c' k = None
            \<and> client_idle_timeout < sub_time (clock w (tick w)) (ce_last_seen e)))
    \<and> ((\<exists>e. cl_clients c key = Some e \<and> r = fst (allow_at rd (clock w (tick w + 1)) (ce_bucket e)))
      \<or> r = fst (allow_at rd (clock w (tick w + 2)) (new_bucket (cl_per_minute c) (cl_burst c) (clock w (tick w + 1)))))"
proof -
  let ?c1 = "prune_clients (clock w (tick w)) c"
  have pr: "cl_clients ?c1 k = cl_clients c k \<or> (\<exists>e. cl_clients c k = Some e \<and> cl_clients ?c1 k = None
      \<and> client_idle_timeout < sub_time (clock w (tick w)) (ce_last_seen e))" for k
    by (auto simp: prune_clients_def split: option.splits)
  note run = client_allow_run [OF assms]
  show ?thesis
  proof
    show "k \<noteq> key \<longrightarrow> cl_clients c' k = cl_clients c k
      \<or> (\<exists>e. cl_clients c k = Some e \<and> cl_clients c' k = None
            \<and> client_idle_timeout < sub_time (clock w (tick w)) (ce_last_seen e))"
      using run(2) pr [of k] by auto
    show "(\<exists>e. cl_clients c key = Some e \<and> r = fst (allow_at rd (clock w (tick w + 1)) (ce_bucket e)))
      \<or> r = fst (allow_at rd (clock w (tick w + 2)) (new_bucket (cl_per_minute c) (cl_burst c) (clock w (tick w + 1))))"
      using run(1) pr [of key] by (cases "cl_clients ?c1 key"; cases "cl_clients c key") auto
  qed
qed

text \<open>C32. Forgetting idle clients cannot be observed: for a limiter that fills a bucket within 29
  minutes (both limiters of the program do), when the entry of a client is pruned, in exact
  arithmetic and with a clock that does not go back, the answer is the one the forgotten bucket would
  have given at that moment.\<close>

theorem pruning_unobservable:
  assumes "cl_clients c key = Some e" "cl_clients (prune_clients (clock w (tick w)) c) key = None"
    and "bucket_ok (ce_bucket e)" "b_per_minute (ce_bucket e) = cl_per_minute c" "b_capacity (ce_bucket e) = of_int (cl_burst c)"
    and "of_int (cl_burst c) \<le> 29 * cl_per_minute c"
    and "ns_of (b_last (ce_bucket e)) \<le> ns_of (ce_last_seen e) + nanos_minute"
    and "ns_of (clock w (tick w)) \<le> ns_of (clock w (tick w + 1))" "ns_of (clock w (tick w + 1)) \<le> ns_of (clock w (tick w + 2))"
  shows "fst (client_allow exact key c w) = fst (allow_at exact (clock w (tick w + 2)) (ce_bucket e))"
proof -
  let ?t = "clock w (tick w + 2)" and ?b = "ce_bucket e"
  let ?n = "new_bucket (cl_per_minute c) (cl_burst c) (clock w (tick w + 1))"
  obtain r c' w' where a: "client_allow exact key c w = (r, c', w')" by (metis surj_pair)
  have r: "r = fst (allow_at exact ?t ?n)" using client_allow_run(1) [OF a] assms(2) by simp
  have idle: "client_idle_timeout < sub_time (clock w (tick w)) (ce_last_seen e)"
    using assms(1,2) by (auto simp: prune_clients_def split: if_splits)
  then have "client_idle_timeout < ns_of (clock w (tick w)) - ns_of (ce_last_seen e)"
    using sub_time_pos [of "clock w (tick w)" "ce_last_seen e"] by (simp add: client_idle_timeout_def nanos_minute_def)
  then have el: "29 * nanos_minute < ns_of ?t - ns_of (b_last ?b)"
    using assms(7-9) by (simp add: client_idle_timeout_def nanos_minute_def)
  then have se: "29 * nanos_minute \<le> sub_time ?t (b_last ?b)" by (simp add: sub_time_def nanos_minute_def)
  have full: "b_tokens (refilled exact ?t ?b) = b_capacity ?b"
  proof -
    have "(of_int (29 * nanos_minute) :: rat) \<le> of_int (sub_time ?t (b_last ?b))" using se by (simp only: of_int_le_iff)
    then have "29 \<le> minutes exact (sub_time ?t (b_last ?b))" by (simp add: minutes_exact nanos_minute_def)
    then have "29 * cl_per_minute c \<le> minutes exact (sub_time ?t (b_last ?b)) * cl_per_minute c"
      using assms(3,4) by (intro mult_right_mono) (auto simp: bucket_ok_def)
    then have "b_capacity ?b \<le> b_tokens ?b + minutes exact (sub_time ?t (b_last ?b)) * b_per_minute ?b"
      using order_trans [OF assms(6)] assms(3-5) by (simp add: bucket_ok_def add_increasing)
    then show ?thesis using se by (auto simp: refilled_def Let_def exact_def nanos_minute_def)
  qed
  have "bucket_ok ?n" using assms(3-5) by (auto simp: bucket_ok_def new_bucket_def)
  note n_ok = this
  have "0 \<le> minutes exact d * cl_per_minute c" if "0 \<le> d" for d
    using minutes_nonneg [OF rounding_ok_exact that] assms(3,4) by (auto simp: bucket_ok_def)
  then have "0 \<le> minutes exact (sub_time ?t (clock w (tick w + 1))) * cl_per_minute c"
    if "0 < sub_time ?t (clock w (tick w + 1))" using that by simp
  then have "b_capacity ?n \<le> b_tokens (refilled exact ?t ?n)"
    by (auto simp: refilled_def Let_def exact_def new_bucket_def)
  moreover have "b_tokens (refilled exact ?t ?n) \<le> b_capacity ?n"
    using refilled_ok [OF rounding_ok_exact n_ok, of ?t] by (simp add: bucket_ok_def)
  ultimately have fulln: "b_tokens (refilled exact ?t ?n) = b_capacity ?b"
    using assms(5) by (simp add: new_bucket_def)
  have "1 \<le> b_capacity ?b" using assms(3) by (auto simp: bucket_ok_def)
  then have one: "1 \<le> b_tokens (refilled exact ?t ?b)" "1 \<le> b_tokens (refilled exact ?t ?n)"
    by (simp_all only: full fulln)
  have "fst (allow_at exact ?t b) = (True, 0)" if "1 \<le> b_tokens (refilled exact ?t b)" for b
    using that by (simp add: allow_at_refilled Let_def)
  with one have "fst (allow_at exact ?t ?n) = fst (allow_at exact ?t ?b)" by simp
  with a r show ?thesis by simp
qed

definition idle_limiter :: limiter where
  "idle_limiter = \<lparr>cl_per_minute = 5, cl_burst = 5,
     cl_clients = [''k'' \<mapsto> \<lparr>ce_bucket = empty_bucket, ce_last_seen = zero_time\<rparr>], cl_last_prune = zero_time\<rparr>"

definition later_world :: fsys where
  "later_world = \<lparr>cwd = [], tree = (\<lambda>_. None), tick = 0, fault = (\<lambda>_. None),
     clock = (\<lambda>_. \<lparr>secs = 1801, nsec = 0, offs = 0\<rparr>), tmp_num = (\<lambda>n. n), create_mode = 420\<rparr>"

lemmas idle_defs = idle_limiter_def later_world_def empty_bucket_def login_bucket_def new_bucket_def rate_defs

lemma clients_isolated_witness:
  "fst (client_allow exact ''j'' idle_limiter later_world) =
     fst (allow_at exact \<lparr>secs = 1801, nsec = 0, offs = 0\<rparr> (new_bucket 5 5 \<lparr>secs = 1801, nsec = 0, offs = 0\<rparr>))"
proof -
  obtain r c' w' where a: "client_allow exact ''j'' idle_limiter later_world = (r, c', w')" by (metis surj_pair)
  from clients_isolated [OF a, of "''j''"] a show ?thesis by (simp add: idle_limiter_def later_world_def)
qed

lemma pruning_unobservable_witness:
  "fst (client_allow exact ''k'' idle_limiter later_world) =
     fst (allow_at exact \<lparr>secs = 1801, nsec = 0, offs = 0\<rparr> empty_bucket)"
proof -
  let ?e = "\<lparr>ce_bucket = empty_bucket, ce_last_seen = zero_time\<rparr>"
  have ok: "bucket_ok (ce_bucket ?e)" using login_bucket_ok by (auto simp: bucket_ok_def empty_bucket_def)
  have "fst (client_allow exact ''k'' idle_limiter later_world) =
      fst (allow_at exact (clock later_world (tick later_world + 2)) (ce_bucket ?e))"
    by (rule pruning_unobservable [OF _ _ ok])
      (simp_all add: idle_defs prune_clients_def client_idle_timeout_def sub_time_def ns_of_def zero_time_def
        nanos_minute_def)
  then show ?thesis by (simp add: later_world_def)
qed

end
