(* ===== verification/Auth.thy ===== *)
theory Auth
  imports Http RateLimit
begin

text \<open>
  The state of the server, package \<open>internal/auth\<close> (\<open>bearer.go\<close>, \<open>session.go\<close>) and the request logger
  of package \<open>internal/logs\<close> (\<open>request.go\<close>). The state extends the world by the three process-wide rate
  limiters and by three parameters for code outside the repository: \<open>sv_rd\<close>, the rounding of
  \<open>float64\<close>, \<open>sv_mac\<close>, HMAC-SHA256 in hex, and \<open>sv_assets\<close>, the names of the embedded files. The
  comparison of tokens is equality; its timing is not modelled.
\<close>

record server = world +
  sv_login_client :: limiter
  sv_login_global :: bucket
  sv_api_client :: limiter
  sv_rd :: "rat \<Rightarrow> rat"
  sv_mac :: "string \<Rightarrow> string \<Rightarrow> string"
  sv_assets :: "string \<Rightarrow> bool"

subsection \<open>Tokens\<close>

definition session_cookie_name :: string where "session_cookie_name = ''CADDY_UI_TOKEN''"
definition csrf_context :: string where "csrf_context = ''csrf''"
definition session_max_age_seconds :: int where "session_max_age_seconds = 43200"

definition token_from_env :: "('a) proc_scheme \<Rightarrow> string" where
  "token_from_env w = ui_token (env w)"

definition token_matches :: "('a) proc_scheme \<Rightarrow> string \<Rightarrow> bool" where
  "token_matches w provided \<longleftrightarrow>
     (let expected = token_from_env w in
      if expected = [] \<or> provided = [] then False else provided = expected)"

definition bearer_token :: "hreq \<Rightarrow> string" where
  "bearer_token rq =
     (let (p0, p1, two) = cut CHR '' '' (h_header rq ''Authorization'') in
      if \<not> two \<or> \<not> equal_fold ''bearer'' p0 then [] else p1)"

definition has_valid_session :: "('a) proc_scheme \<Rightarrow> hreq \<Rightarrow> bool" where
  "has_valid_session w rq \<longleftrightarrow>
     (case cookie_of rq session_cookie_name of Some v \<Rightarrow> token_matches w v | None \<Rightarrow> False)
     \<or> token_matches w (bearer_token rq)"

subsection \<open>The session cookie\<close>

text \<open>\<open>http.SetCookie\<close> drops the bytes a cookie value cannot have and quotes one with a space or comma.\<close>

definition cookie_byte :: "char \<Rightarrow> bool" where
  "cookie_byte c \<longleftrightarrow> CHR 0x20 \<le> c \<and> c < CHR 0x7F \<and> c \<noteq> quot \<and> c \<noteq> CHR '';'' \<and> c \<noteq> CHR 0x5C"

definition sanitize_cookie_value :: "string \<Rightarrow> string" where
  "sanitize_cookie_value v =
     (let s = filter cookie_byte v in
      if CHR '' '' \<in> set s \<or> CHR '','' \<in> set s then quot # s @ [quot] else s)"

definition set_session_cookie :: "string \<Rightarrow> 'p hres \<Rightarrow> 'p hres" where
  "set_session_cookie tok r =
     set_cookie \<lparr>ck_name = session_cookie_name, ck_value = sanitize_cookie_value tok, ck_path = ''/'',
       ck_http_only = True, ck_secure = True, ck_same_site = SameSiteStrict,
       ck_max_age = session_max_age_seconds\<rparr> r"

definition login :: "('a) proc_scheme \<Rightarrow> string \<Rightarrow> 'p hres \<Rightarrow> bool \<times> 'p hres" where
  "login w provided r =
     (if \<not> token_matches w provided then (False, r)
      else (True, set_session_cookie (token_from_env w) r))"

definition logout :: "'p hres \<Rightarrow> 'p hres" where
  "logout r =
     set_cookie \<lparr>ck_name = session_cookie_name, ck_value = [], ck_path = ''/'', ck_http_only = True,
       ck_secure = True, ck_same_site = SameSiteStrict, ck_max_age = - 1\<rparr> r"

subsection \<open>Middlewares\<close>

text \<open>\<open>auth.Middleware\<close>.\<close>

definition bearer_middleware :: "('p, ('a) proc_scheme) handler \<Rightarrow> ('p, ('a) proc_scheme) handler" where
  "bearer_middleware next_handler rq r w =
     (if \<not> token_matches w (bearer_token rq) then (write_header 401 r, w) else next_handler rq r w)"

text \<open>\<open>auth.Session\<close>.\<close>

definition session_middleware :: "('p, ('a) proc_scheme) handler \<Rightarrow> ('p, ('a) proc_scheme) handler" where
  "session_middleware next_handler rq r w =
     (if \<not> has_valid_session w rq then (http_redirect rq ''/login'' 302 r, w) else next_handler rq r w)"

definition csrf_value :: "('a) server_scheme \<Rightarrow> gerr + string" where
  "csrf_value w =
     (let secret = token_from_env w in
      if secret = []
      then Inl (Errorf ''CADDY_UI_TOKEN not configured: cannot derive CSRF token'' [] [] None)
      else Inr (sv_mac w secret csrf_context))"

text \<open>\<open>auth.CSRF\<close>.\<close>

definition csrf_middleware :: "('p, ('a) server_scheme) handler \<Rightarrow> ('p, ('a) server_scheme) handler" where
  "csrf_middleware next_handler rq r w =
     (if h_method rq = ''GET'' \<or> h_method rq = ''HEAD'' \<or> h_method rq = ''OPTIONS'' then next_handler rq r w
      else if token_matches w (bearer_token rq) then next_handler rq r w
      else (case csrf_value w of
          Inl _ \<Rightarrow> (write_header 403 r, w)
        | Inr expected \<Rightarrow>
            (let provided = form_value rq ''csrf'' in
             if provided = [] \<or> provided \<noteq> expected then (write_header 403 r, w)
             else next_handler rq r w)))"

text \<open>\<open>logs.RequestLogger\<close>: the recorder starts at 200 and keeps the status written.\<close>

definition request_logger :: "('p, ('a) proc_scheme) handler \<Rightarrow> ('p, ('a) proc_scheme) handler" where
  "request_logger next_handler rq r w =
     (let (r1, w1) = next_handler rq r w
      in (r1, log_request (h_method rq) (url_path rq) (h_remote rq) (final_status r1) w1))"

end
