(* ===== verification/Handlers.thy ===== *)
theory Handlers
  imports Auth Chain
begin

text \<open>
  The handlers that change configuration: the REST API (\<open>internal/ui/api.go\<close>) and the forms
  (\<open>internal/ui/forms.go\<close>). \<open>args\<close> are the path values, here the domain. A request is one step: the
  two calls of a form handler that read the overlay and run the chain are not interleaved with those
  of another request.
\<close>

subsection \<open>Request bodies of the API\<close>

record mode_request = mr_mode :: string
record exclusions_request = er_exclusions :: "exclusion list"
record rollback_request = rr_backup :: string

definition dec_mode_request :: "mode_request decoder" where
  "dec_mode_request = dec_struct
     [(''mode'', \<lambda>v a. map_option (\<lambda>x. a\<lparr>mr_mode := x\<rparr>) (dec_string v (mr_mode a)))]"

definition no_exclusion :: exclusion where
  "no_exclusion = \<lparr>ex_type = [], ex_value = [], ex_param = []\<rparr>"

definition dec_exclusion :: "exclusion decoder" where
  "dec_exclusion = dec_struct
     [(''type'', \<lambda>v a. map_option (\<lambda>x. a\<lparr>ex_type := x\<rparr>) (dec_string v (ex_type a))),
      (''value'', \<lambda>v a. map_option (\<lambda>x. a\<lparr>ex_value := x\<rparr>) (dec_string v (ex_value a))),
      (''param'', \<lambda>v a. map_option (\<lambda>x. a\<lparr>ex_param := x\<rparr>) (dec_string v (ex_param a)))]"

definition dec_exclusions_request :: "exclusions_request decoder" where
  "dec_exclusions_request = dec_struct
     [(''exclusions'', \<lambda>v a. map_option (\<lambda>x. a\<lparr>er_exclusions := x\<rparr>)
        (dec_slice no_exclusion dec_exclusion v (er_exclusions a)))]"

definition dec_ip_rules :: "ip_rules decoder" where
  "dec_ip_rules = dec_struct
     [(''allowlist'', \<lambda>v a. map_option (\<lambda>x. a\<lparr>allowlist := x\<rparr>) (dec_slice [] dec_string v (allowlist a))),
      (''denylist'', \<lambda>v a. map_option (\<lambda>x. a\<lparr>denylist := x\<rparr>) (dec_slice [] dec_string v (denylist a)))]"

definition dec_rollback_request :: "rollback_request decoder" where
  "dec_rollback_request = dec_struct
     [(''backup'', \<lambda>v a. map_option (\<lambda>x. a\<lparr>rr_backup := x\<rparr>) (dec_string v (rr_backup a)))]"

definition decode_json_body :: "'b decoder \<Rightarrow> 'b \<Rightarrow> hreq \<Rightarrow> 'p hres \<Rightarrow> 'p hres + 'b" where
  "decode_json_body dec zero rq r =
     (case decode_limited dec zero (h_body rq) of
        Inr a \<Rightarrow> Inr a
      | Inl code \<Rightarrow>
          Inl (if code = 413 then http_error ''Payload too large'' 413 r else http_error ''Invalid payload'' 400 r))"

definition ui_client_ip :: "hreq \<Rightarrow> string" where
  "ui_client_ip rq =
     (case split_host_port (h_remote rq) of None \<Rightarrow> h_remote rq | Some (host, _) \<Rightarrow> host)"

definition write_json :: "int \<Rightarrow> string \<Rightarrow> 'p hres \<Rightarrow> 'p hres" where
  "write_json status body r =
     write_chunk (Bytes body) (write_header status (set_header ''Content-Type'' ''application/json'' r))"

definition success_body :: string where
  "success_body = json_text ''{~status~:~success~}''"

definition path_domain :: "string list \<Rightarrow> string" where
  "path_domain args = (case args of [] \<Rightarrow> [] | d # _ \<Rightarrow> d)"

subsection \<open>The REST API\<close>

definition handle_set_mode :: "string list \<Rightarrow> ('p, ('a) world_scheme) handler" where
  "handle_set_mode args rq r w =
     (case decode_json_body dec_mode_request \<lparr>mr_mode = []\<rparr> rq r of
        Inl r1 \<Rightarrow> (r1, w)
      | Inr req \<Rightarrow>
          (case update_waf_mode (path_domain args) (mr_mode req) (ui_client_ip rq) w of
             (Inl e, w1) \<Rightarrow>
               (if errors_is e ErrInvalidDomain then http_error ''Invalid domain'' 400 r
                else if errors_is e ErrInvalidMode then http_error ''Invalid WAF mode'' 400 r
                else http_error ''Error applying the configuration'' 500 r, w1)
           | (Inr _, w1) \<Rightarrow> (write_json 200 success_body r, w1)))"

definition handle_set_exclusions :: "string list \<Rightarrow> ('p, ('a) world_scheme) handler" where
  "handle_set_exclusions args rq r w =
     (case decode_json_body dec_exclusions_request \<lparr>er_exclusions = []\<rparr> rq r of
        Inl r1 \<Rightarrow> (r1, w)
      | Inr req \<Rightarrow>
          (case validate_exclusions (er_exclusions req) of
             Some e \<Rightarrow> (http_error_chunk (ErrorText e) 400 r, w)
           | None \<Rightarrow>
               (case update_exclusions (path_domain args) (er_exclusions req) (ui_client_ip rq) w of
                  (Inl e, w1) \<Rightarrow>
                    (if errors_is e ErrInvalidDomain then http_error ''Invalid domain'' 400 r
                     else http_error ''Error applying the configuration'' 500 r, w1)
                | (Inr _, w1) \<Rightarrow> (write_json 200 success_body r, w1))))"

definition handle_set_ip_rules :: "string list \<Rightarrow> ('p, ('a) world_scheme) handler" where
  "handle_set_ip_rules args rq r w =
     (case decode_json_body dec_ip_rules no_ip_rules rq r of
        Inl r1 \<Rightarrow> (r1, w)
      | Inr req \<Rightarrow>
          (case validate_ip_rules req of
             Some e \<Rightarrow> (http_error_chunk (ErrorText e) 400 r, w)
           | None \<Rightarrow>
               (case update_ip_rules (path_domain args) req (ui_client_ip rq) w of
                  (Inl e, w1) \<Rightarrow>
                    (if errors_is e ErrInvalidDomain then http_error ''Invalid domain'' 400 r
                     else http_error ''Error applying the configuration'' 500 r, w1)
                | (Inr _, w1) \<Rightarrow> (write_json 200 success_body r, w1))))"

definition handle_list_backups :: "string list \<Rightarrow> ('p, ('a) proc_scheme) handler" where
  "handle_list_backups args rq r w =
     (case list_backups (path_domain args) w of
        (Inl _, w1) \<Rightarrow> (http_error ''Error listing backups'' 500 r, w1)
      | (Inr snapshots, w1) \<Rightarrow>
          (write_chunk (Snapshots snapshots) (set_header ''Content-Type'' ''application/json'' r), w1))"

definition handle_rollback :: "string list \<Rightarrow> ('p, ('a) world_scheme) handler" where
  "handle_rollback args rq r w =
     (case decode_json_body dec_rollback_request \<lparr>rr_backup = []\<rparr> rq r of
        Inl r1 \<Rightarrow> (r1, w)
      | Inr req \<Rightarrow>
          (case rollback (path_domain args) (rr_backup req) (ui_client_ip rq) w of
             (Inl e, w1) \<Rightarrow>
               (if errors_is e ErrInvalidDomain then http_error ''Invalid domain'' 400 r
                else if errors_is e ErrInvalidBackup then http_error ''Invalid configuration snapshot'' 400 r
                else http_error ''Error restoring the configuration'' 500 r, w1)
           | (Inr _, w1) \<Rightarrow> (write_json 200 success_body r, w1)))"

subsection \<open>The forms\<close>

definition form_context :: "hreq \<Rightarrow> url_values" where
  "form_context rq =
     filter (\<lambda>kv. snd kv \<noteq> []) (map (\<lambda>k. (k, form_value rq k)) [''tab'', ''domain'', ''search'', ''actionFilter''])"

definition redirect_after_form :: "string \<Rightarrow> hreq \<Rightarrow> 'p hres \<Rightarrow> 'p hres" where
  "redirect_after_form flash rq r =
     http_redirect rq (''/?'' @ encode_values (form_context rq @ [(''flash'', flash)])) 303 r"

definition after_form :: "gerr + unit \<Rightarrow> hreq \<Rightarrow> 'p hres \<Rightarrow> 'p hres" where
  "after_form res rq r =
     (case res of Inl _ \<Rightarrow> redirect_after_form ''error'' rq r | Inr _ \<Rightarrow> redirect_after_form ''success'' rq r)"

definition handle_login :: "('p, ('a) proc_scheme) handler" where
  "handle_login rq r w =
     (case login w (form_value rq ''token'') r of
        (True, r1) \<Rightarrow> (http_redirect rq ''/'' 303 r1, w)
      | (False, r1) \<Rightarrow>
          (http_redirect rq ''/login?flash=invalid_login'' 303 r1,
           log_append (Warn ''login rejected'' [h_remote rq]) w))"

definition handle_logout :: "('p, ('a) proc_scheme) handler" where
  "handle_logout rq r w = (http_redirect rq ''/login?flash=logged_out'' 303 (logout r), w)"

definition handle_form_set_mode :: "string list \<Rightarrow> ('p, ('a) world_scheme) handler" where
  "handle_form_set_mode args rq r w =
     (let (res, w1) = update_waf_mode (path_domain args) (form_value rq ''mode'') (h_remote rq) w
      in (after_form res rq r, w1))"

definition handle_form_add_exclusion :: "string list \<Rightarrow> ('p, ('a) world_scheme) handler" where
  "handle_form_add_exclusion args rq r w =
     (let exclusion = \<lparr>ex_type = exclude_by_id, ex_value = form_value rq ''ruleId'',
                       ex_param = form_value rq ''param''\<rparr>
      in case read_exclusions (path_domain args) w of
           (Inl _, w1) \<Rightarrow> (redirect_after_form ''error'' rq r, w1)
         | (Inr current, w1) \<Rightarrow>
             (let (res, w2) = update_exclusions (path_domain args) (current @ [exclusion]) (h_remote rq) w1
              in (after_form res rq r, w2)))"

definition handle_form_add_ip_rule :: "string list \<Rightarrow> ('p, ('a) world_scheme) handler" where
  "handle_form_add_ip_rule args rq r w =
     (let cidr = form_value rq ''cidr''; action = form_value rq ''action''
      in case read_ip_rules (path_domain args) w of
           (Inl _, w1) \<Rightarrow> (redirect_after_form ''error'' rq r, w1)
         | (Inr current, w1) \<Rightarrow>
             (case (if action = ''DENY'' then Some (current\<lparr>denylist := denylist current @ [cidr]\<rparr>)
                    else if action = ''ALLOW'' then Some (current\<lparr>allowlist := allowlist current @ [cidr]\<rparr>)
                    else None) of
                None \<Rightarrow> (redirect_after_form ''error'' rq r, w1)
              | Some rules \<Rightarrow>
                  (let (res, w2) = update_ip_rules (path_domain args) rules (h_remote rq) w1
                   in (after_form res rq r, w2))))"

definition handle_form_rollback :: "string list \<Rightarrow> ('p, ('a) world_scheme) handler" where
  "handle_form_rollback args rq r w =
     (let (res, w1) = rollback (path_domain args) (form_value rq ''snapId'') (h_remote rq) w
      in (after_form res rq r, w1))"

end
