(* ===== verification/Pages.thy ===== *)
theory Pages
  imports Handlers
begin

text \<open>
  The rendered pages (\<open>internal/ui/pages.go\<close>): the data given to the templates, the flash message
  that survives one redirect, and the page handlers. A page is rendered symbolically; executing a
  template that exists succeeds. Go's \<open>sort.Slice\<close> is not stable: the model keeps the order of sites
  with the same domain, and no property depends on it.
\<close>

record crs_rule =
  cr_rule_id :: string
  cr_category :: string
  cr_name :: string
  cr_description :: string

definition crs_catalog :: "crs_rule list" where
  "crs_catalog =
     [\<lparr>cr_rule_id = ''942100'', cr_category = ''SQLi'', cr_name = ''SQL Injection Detected via libinjection'',
       cr_description = ''Detects classic SQL injection payloads in request values.''\<rparr>,
      \<lparr>cr_rule_id = ''941100'', cr_category = ''XSS'', cr_name = ''XSS Attack Detected via libinjection'',
       cr_description = ''Detects cross-site scripting payloads in request values.''\<rparr>,
      \<lparr>cr_rule_id = ''930120'', cr_category = ''LFI'', cr_name = ''OS File Access Attempt'',
       cr_description = ''Detects path traversal attempts that read local files.''\<rparr>,
      \<lparr>cr_rule_id = ''920420'', cr_category = ''Protocol'', cr_name = ''Request Content Type Is Not Allowed by Policy'',
       cr_description = ''Rejects request content types outside the configured policy.''\<rparr>,
      \<lparr>cr_rule_id = ''932100'', cr_category = ''RCE'', cr_name = ''Remote Command Execution: Windows Command Injection'',
       cr_description = ''Detects Windows command injection attempts.''\<rparr>,
      \<lparr>cr_rule_id = ''942200'', cr_category = ''SQLi'', cr_name = ''SQL Injection: MySQL Comment/Space Obfuscation'',
       cr_description = ''Detects MySQL comment/space obfuscated injection attempts.''\<rparr>]"

record page_data =
  pd_active_tab :: string
  pd_flash :: string
  pd_flash_type :: string
  pd_csrf :: string
  pd_sites :: "site list"
  pd_current_site :: "site option"
  pd_sites_on :: int
  pd_sites_detection :: int
  pd_total_exclusions :: int
  pd_total_ip_rules :: int
  pd_total_deny_ips :: int
  pd_total_allow_ips :: int
  pd_logs :: "audit_entry list"
  pd_log_search :: string
  pd_action_filter :: string
  pd_log_page :: int
  pd_log_pages :: int
  pd_log_prev_url :: string
  pd_log_next_url :: string
  pd_crs_catalog :: "crs_rule list"
  pd_active_exclusions :: "exclusion list"
  pd_exclusions_conf :: string
  pd_active_ip_rules :: ip_rules
  pd_ip_rules_conf :: string
  pd_snapshots :: "backup_info list"
  pd_waf_conf :: string
  pd_readback :: readback_state

definition no_readback :: readback_state where
  "no_readback = \<lparr>rb_ok = False, rb_checked_at = zero_time, rb_servers = 0, rb_missing = [], rb_err = None\<rparr>"

definition no_page_data :: page_data where
  "no_page_data = \<lparr>pd_active_tab = [], pd_flash = [], pd_flash_type = [], pd_csrf = [], pd_sites = [],
     pd_current_site = None, pd_sites_on = 0, pd_sites_detection = 0, pd_total_exclusions = 0,
     pd_total_ip_rules = 0, pd_total_deny_ips = 0, pd_total_allow_ips = 0, pd_logs = [], pd_log_search = [],
     pd_action_filter = [], pd_log_page = 0, pd_log_pages = 0, pd_log_prev_url = [], pd_log_next_url = [],
     pd_crs_catalog = [], pd_active_exclusions = [], pd_exclusions_conf = [], pd_active_ip_rules = no_ip_rules,
     pd_ip_rules_conf = [], pd_snapshots = [], pd_waf_conf = [], pd_readback = no_readback\<rparr>"

subsection \<open>Flash messages\<close>

definition flash_message :: "string \<Rightarrow> string" where
  "flash_message key =
     (if key = ''success'' then ''Configuration updated successfully.''
      else if key = ''error''
      then ''The configuration could not be applied. Check the service logs for details.''
      else if key = ''invalid_login'' then ''Invalid access token.''
      else if key = ''logged_out'' then ''You have been signed out.''
      else key)"

definition flash_type :: "string \<Rightarrow> string" where
  "flash_type key = (if key = ''error'' then ''error'' else ''success'')"

definition flash_cookie_name :: string where "flash_cookie_name = ''ui_flash''"

definition flash_cookie :: "string \<Rightarrow> int \<Rightarrow> cookie" where
  "flash_cookie v age =
     \<lparr>ck_name = flash_cookie_name, ck_value = sanitize_cookie_value v, ck_path = ''/'', ck_http_only = True,
      ck_secure = True, ck_same_site = SameSiteLax, ck_max_age = age\<rparr>"

definition set_flash_cookie :: "string \<Rightarrow> 'p hres \<Rightarrow> 'p hres" where
  "set_flash_cookie key r = set_cookie (flash_cookie key 60) r"

definition take_flash_cookie :: "hreq \<Rightarrow> 'p hres \<Rightarrow> string option \<times> 'p hres" where
  "take_flash_cookie rq r =
     (case cookie_of rq flash_cookie_name of
        None \<Rightarrow> (None, r)
      | Some v \<Rightarrow> (Some v, set_cookie (flash_cookie [] (- 1)) r))"

definition clean_url :: "url_values \<Rightarrow> string" where
  "clean_url q =
     (let clean = filter (\<lambda>kv. snd kv \<noteq> [])
            (map (\<lambda>k. (k, get_value q k)) [''tab'', ''domain'', ''search'', ''actionFilter'', ''page''])
      in if clean = [] then ''/'' else ''/?'' @ encode_values clean)"

subsection \<open>Sites and overlays\<close>

definition scan_sites :: "('a) proc_scheme \<Rightarrow> site list \<times> ('a) proc_scheme" where
  "scan_sites w =
     (case scan (managed_dir (env w)) w of
        (Inl _, w1) \<Rightarrow> ([], log_append (Warn ''error scanning overlays'' []) w1)
      | (Inr sites, w1) \<Rightarrow> (sort_key site_domain sites, w1))"

definition find_site :: "site list \<Rightarrow> string \<Rightarrow> site option" where
  "find_site sites dn =
     (case List.find (\<lambda>s. site_domain s = dn) sites of
        Some s \<Rightarrow> Some s
      | None \<Rightarrow> (case sites of [] \<Rightarrow> None | s # _ \<Rightarrow> Some s))"

definition read_overlay :: "string \<Rightarrow> ('a) proc_scheme \<Rightarrow> string \<times> ('a) proc_scheme" where
  "read_overlay pth w =
     (case os_read_file pth w of
        (Inl e, w1) \<Rightarrow>
          ([], if is_not_exist e then w1 else log_append (Warn ''error reading overlay'' [pth]) w1)
      | (Inr c, w1) \<Rightarrow> (c, w1))"

text \<open>The loop of \<open>countOverlays\<close>: exclusions, IP rules, deny, allow.\<close>

fun count_entries ::
  "string \<Rightarrow> dir \<Rightarrow> int \<times> int \<times> int \<times> int \<Rightarrow> ('a) proc_scheme
    \<Rightarrow> (int \<times> int \<times> int \<times> int) \<times> ('a) proc_scheme" where
  "count_entries d [] n w = (n, w)"
| "count_entries d ((name, x) # es) (ex, ir, dn, al) w =
     (if x = SubDir then count_entries d es (ex, ir, dn, al) w
      else if has_prefix (file_type_exclusions @ ''-'') name \<and> has_suffix ''.conf'' name
      then (case read_exclusions_file (filepath_join [d, name]) w of
          (Inl _, w1) \<Rightarrow> count_entries d es (ex, ir, dn, al) w1
        | (Inr l, w1) \<Rightarrow> count_entries d es (ex + int (length l), ir, dn, al) w1)
      else if has_prefix (file_type_ip_rules @ ''-'') name \<and> has_suffix ''.conf'' name
      then (case read_ip_rules_file (filepath_join [d, name]) w of
          (Inl _, w1) \<Rightarrow> count_entries d es (ex, ir, dn, al) w1
        | (Inr rs, w1) \<Rightarrow>
            count_entries d es (ex, ir + int (length (denylist rs)) + int (length (allowlist rs)),
              dn + int (length (denylist rs)), al + int (length (allowlist rs))) w1)
      else count_entries d es (ex, ir, dn, al) w)"

definition count_overlays :: "('a) proc_scheme \<Rightarrow> (int \<times> int \<times> int \<times> int) \<times> ('a) proc_scheme" where
  "count_overlays w =
     (case os_read_dir (managed_dir (env w)) w of
        (Inl _, w1) \<Rightarrow> ((0, 0, 0, 0), w1)
      | (Inr es, w1) \<Rightarrow> count_entries (managed_dir (env w)) es (0, 0, 0, 0) w1)"

definition csrf_or_empty :: "('a) server_scheme \<Rightarrow> string" where
  "csrf_or_empty w = (case csrf_value w of Inl _ \<Rightarrow> [] | Inr t \<Rightarrow> t)"

subsection \<open>The log explorer\<close>

definition log_page_url :: "url_values \<Rightarrow> int \<Rightarrow> string" where
  "log_page_url q page =
     (if page < 1 then []
      else ''/?'' @ encode_values ((''tab'', ''logs'')
             # filter (\<lambda>kv. snd kv \<noteq> []) [(''search'', get_value q ''search''), (''actionFilter'', get_value q ''actionFilter'')]
             @ [(''page'', itoa page)]))"

text \<open>\<open>page, _ := strconv.Atoi(s)\<close>: 0 on a syntax error, the nearest bound on an overflow.\<close>

definition atoi_value :: "string \<Rightarrow> int" where
  "atoi_value s =
     (case atoi s of
        Some k \<Rightarrow> k
      | None \<Rightarrow>
          (let neg = has_prefix ''-'' s; d = (if neg \<or> has_prefix ''+'' s then drop 1 s else s)
           in if d = [] \<or> \<not> list_all is_digit d then 0 else if neg then - (2 ^ 63) else 2 ^ 63 - 1))"

definition load_logs :: "url_values \<Rightarrow> ('a) proc_scheme \<Rightarrow> log_page option \<times> ('a) proc_scheme" where
  "load_logs q w =
     (let pth = audit_log_path (env w) in
      case logs_read pth \<lparr>op_search = get_value q ''search'', op_action = get_value q ''actionFilter'',
                          op_page = atoi_value (get_value q ''page''), op_page_size = 0\<rparr> w of
        (Inl _, w1) \<Rightarrow> (None, log_append (Warn ''failed to read the audit log'' [pth]) w1)
      | (Inr result, w1) \<Rightarrow> (Some result, w1))"

subsection \<open>Page data\<close>

definition add_logs :: "string \<Rightarrow> url_values \<Rightarrow> page_data \<Rightarrow> ('a) proc_scheme \<Rightarrow> page_data \<times> ('a) proc_scheme" where
  "add_logs tab q d w =
     (if tab \<noteq> ''logs'' then (d, w)
      else (case load_logs q w of
          (None, w1) \<Rightarrow> (d, w1)
        | (Some pg, w1) \<Rightarrow>
            (d\<lparr>pd_logs := pg_entries pg, pd_log_page := pg_page pg, pd_log_pages := pg_pages pg,
               pd_log_prev_url := log_page_url q (pg_page pg - 1),
               pd_log_next_url := log_page_url q (pg_page pg + 1)\<rparr>, w1)))"

definition add_site :: "page_data \<Rightarrow> ('a) proc_scheme \<Rightarrow> page_data \<times> ('a) proc_scheme" where
  "add_site d w =
     (case pd_current_site d of
        None \<Rightarrow> (d, w)
      | Some st \<Rightarrow>
          (let dn = site_domain st; m = managed_dir (env w); L = ulower w;
               (waf, w1) = read_overlay (waf_config_path L m dn) w;
               (exc, w2) = read_overlay (exclusions_config_path L m dn) w1;
               (ipr, w3) = read_overlay (ip_rules_config_path L m dn) w2;
               (ex, w4) = read_exclusions dn w3;
               (rules, w5) = read_ip_rules dn w4
           in (d\<lparr>pd_waf_conf := waf, pd_exclusions_conf := exc, pd_ip_rules_conf := ipr,
                 pd_active_exclusions := (case ex of Inr l \<Rightarrow> l | Inl _ \<Rightarrow> pd_active_exclusions d),
                 pd_active_ip_rules := (case rules of Inr l \<Rightarrow> l | Inl _ \<Rightarrow> pd_active_ip_rules d)\<rparr>, w5)))"

definition add_snapshots :: "string \<Rightarrow> page_data \<Rightarrow> ('a) proc_scheme \<Rightarrow> page_data \<times> ('a) proc_scheme" where
  "add_snapshots tab d w =
     (case pd_current_site d of
        Some st \<Rightarrow>
          if tab = ''rollback''
          then (case list_backups (site_domain st) w of
              (Inl _, w1) \<Rightarrow> (d, log_append (Warn ''failed to list snapshots'' [site_domain st]) w1)
            | (Inr bs, w1) \<Rightarrow> (d\<lparr>pd_snapshots := bs\<rparr>, w1))
          else (d, w)
      | None \<Rightarrow> (d, w))"

definition build_page_data ::
  "hreq \<Rightarrow> string \<Rightarrow> site list \<Rightarrow> ('a) server_scheme \<Rightarrow> page_data \<times> ('a) server_scheme" where
  "build_page_data rq tab sites w =
     (let q = parse_query (h_query rq);
          d = no_page_data\<lparr>pd_active_tab := tab, pd_flash := flash_message (get_value q ''flash''),
                pd_flash_type := flash_type (get_value q ''flash''), pd_csrf := csrf_or_empty w,
                pd_sites := sites, pd_log_search := get_value q ''search'',
                pd_action_filter := get_value q ''actionFilter'', pd_crs_catalog := crs_catalog\<rparr>;
          (d1, w1) = add_logs tab q d w;
          (d2, w2) = add_site (d1\<lparr>pd_current_site := find_site sites (get_value q ''domain'')\<rparr>) w1;
          (d3, w3) = add_snapshots tab d2 w2;
          ((ex, ir, dn, al), w4) = count_overlays w3
      in (d3\<lparr>pd_sites_on := int (length (filter (\<lambda>s. site_mode s = mode_on) sites)),
             pd_sites_detection := int (length (filter (\<lambda>s. site_mode s = mode_detection_only) sites)),
             pd_total_exclusions := ex, pd_total_ip_rules := ir, pd_total_deny_ips := dn,
             pd_total_allow_ips := al, pd_readback := last_readback w4\<rparr>, w4))"

subsection \<open>Handlers\<close>

definition page_names :: "string list" where
  "page_names = [''overview'', ''sites'', ''exclusions'', ''iprules'', ''logs'', ''rollback'']"

text \<open>\<open>executePage\<close>; the result tells whether the template exists.\<close>

definition execute_page :: "string \<Rightarrow> page_data \<Rightarrow> page_data hres \<Rightarrow> bool \<times> page_data hres" where
  "execute_page page d r =
     (if page \<in> set (page_names @ [''login'']) then (True, write_chunk (Rendered page d) r) else (False, r))"

definition with_flash :: "string option \<Rightarrow> page_data \<Rightarrow> page_data" where
  "with_flash key d = (case key of None \<Rightarrow> d
     | Some k \<Rightarrow> d\<lparr>pd_flash := flash_message k, pd_flash_type := flash_type k\<rparr>)"

definition handle_index :: "(page_data, ('a) server_scheme) handler" where
  "handle_index rq r w =
     (let tab = (if query_of rq ''tab'' = [] then ''overview'' else query_of rq ''tab'');
          key = query_of rq ''flash''
      in if key \<noteq> []
         then (http_redirect rq (clean_url (parse_query (h_query rq))) 302 (set_flash_cookie key r), w)
         else (let (sites, w1) = scan_sites w;
                   (d, w2) = build_page_data rq tab sites w1;
                   (flash, r1) = take_flash_cookie rq r;
                   (found, r2) = execute_page tab (with_flash flash d) r1
               in if found then (r2, w2)
                  else (http_error ''Internal error rendering the page'' 500 r2,
                        log_append (LogError ''error rendering page'' [tab]) w2)))"

definition handle_login_page :: "(page_data, ('a) server_scheme) handler" where
  "handle_login_page rq r w =
     (if has_valid_session w rq then (http_redirect rq ''/'' 302 r, w)
      else (let key = query_of rq ''flash'' in
            if key \<noteq> [] then (http_redirect rq ''/login'' 302 (set_flash_cookie key r), w)
            else (let (flash, r1) = take_flash_cookie rq r;
                      (found, r2) = execute_page ''login'' (with_flash flash no_page_data) r1
                  in if found then (r2, w)
                     else (http_error ''Internal error rendering the page'' 500 r2,
                           log_append (LogError ''error rendering login'' []) w))))"

end
