(* ===== verification/Server.thy ===== *)
theory Server
  imports Pages
begin

text \<open>
  The server as a whole: the rate-limiting middlewares (\<open>internal/ratelimit\<close>), the routes
  (\<open>internal/ui/router.go\<close>, the muxes of \<open>pages.go\<close>), static files and security headers
  (\<open>static.go\<close>), and their composition in \<open>cmd/server/main.go\<close>. One request is one step.
\<close>

subsection \<open>Rate limits\<close>

definition too_many_requests :: "int \<Rightarrow> 'p hres \<Rightarrow> 'p hres" where
  "too_many_requests retry_after r =
     http_error ''too many requests, retry later'' 429
       (set_header ''Retry-After'' (itoa (retry_after div nanos_second)) r)"

definition ratelimit_login :: "('p, ('a) server_scheme) handler \<Rightarrow> ('p, ('a) server_scheme) handler" where
  "ratelimit_login next_handler rq r w =
     (if h_method rq \<noteq> ''POST'' then next_handler rq r w
      else (let ((ok, retry), c, w1) = client_allow (sv_rd w) (client_ip (h_remote rq)) (sv_login_client w) w;
                w2 = w1\<lparr>sv_login_client := c\<rparr>
            in if \<not> ok then (too_many_requests retry r, w2)
               else (let ((ok, retry), b, w3) = bucket_allow (sv_rd w2) (sv_login_global w2) w2;
                         w4 = w3\<lparr>sv_login_global := b\<rparr>
                     in if \<not> ok then (too_many_requests retry r, w4) else next_handler rq r w4)))"

definition ratelimit_api :: "('p, ('a) server_scheme) handler \<Rightarrow> ('p, ('a) server_scheme) handler" where
  "ratelimit_api next_handler rq r w =
     (let ((ok, retry), c, w1) = client_allow (sv_rd w) (client_ip (h_remote rq)) (sv_api_client w) w;
          w2 = w1\<lparr>sv_api_client := c\<rparr>
      in if \<not> ok then (too_many_requests retry r, w2) else next_handler rq r w2)"

subsection \<open>Routes\<close>

text \<open>A pattern as it is written in the source, \<open>"PUT /api/sites/{domain}/mode"\<close>.\<close>

definition seg_of :: "string \<Rightarrow> seg" where
  "seg_of s = (if s = [] then Multi else if has_prefix ''{'' s then Wild else Lit s)"

definition pattern_of :: "string \<Rightarrow> pattern" where
  "pattern_of s =
     (let (a, b, two) = cut CHR '' '' s; (m, p) = (if two then (a, b) else ([], a))
      in (m, map seg_of (tl (split_on CHR ''/'' p))))"

definition no_args :: "('p, 's) handler \<Rightarrow> string list \<Rightarrow> ('p, 's) handler" where
  "no_args h _ = h"

definition new_router :: "('p, ('a) server_scheme) handler" where
  "new_router = serve_mux
     [(pattern_of ''PUT /api/sites/{domain}/mode'', handle_set_mode),
      (pattern_of ''PUT /api/sites/{domain}/exclusions'', handle_set_exclusions),
      (pattern_of ''PUT /api/sites/{domain}/iprules'', handle_set_ip_rules),
      (pattern_of ''GET /api/sites/{domain}/backups'', handle_list_backups),
      (pattern_of ''POST /api/sites/{domain}/rollback'', handle_rollback)]"

definition new_pages_mux :: "(page_data, ('a) server_scheme) handler" where
  "new_pages_mux = serve_mux
     [(pattern_of ''POST /sites/{domain}/mode'', handle_form_set_mode),
      (pattern_of ''POST /sites/{domain}/exclusions'', handle_form_add_exclusion),
      (pattern_of ''POST /sites/{domain}/iprules'', handle_form_add_ip_rule),
      (pattern_of ''POST /sites/{domain}/rollback'', handle_form_rollback),
      (pattern_of ''POST /logout'', no_args handle_logout),
      (pattern_of ''GET /'', no_args handle_index)]"

definition new_login_mux :: "(page_data, ('a) server_scheme) handler" where
  "new_login_mux = serve_mux
     [(pattern_of ''GET /login'', no_args handle_login_page),
      (pattern_of ''POST /login'', no_args handle_login)]"

definition health_handler :: "('p, 's) handler" where
  "health_handler rq r w =
     (write_chunk (Bytes (json_text ''{~status~:~ok~}''))
        (write_header 200 (set_header ''Content-Type'' ''application/json'' r)), w)"

text \<open>
  \<open>StaticHandler\<close> behind \<open>http.StripPrefix("/static/")\<close>; of \<open>http.FileServer\<close> the model keeps which file
  is served, not ranges or conditional requests.
\<close>

definition file_server :: "string \<Rightarrow> ('p, ('a) server_scheme) handler" where
  "file_server p rq r w =
     (if sv_assets w p then (write_chunk (Asset p) r, w) else (http_error ''404 page not found'' 404 r, w))"

definition static_handler :: "string \<Rightarrow> ('p, ('a) server_scheme) handler" where
  "static_handler p rq r w =
     (if p = [] \<or> has_suffix ''/'' p then (http_error ''404 page not found'' 404 r, w)
      else file_server p rq r w)"

definition strip_static :: "('p, ('a) server_scheme) handler" where
  "strip_static rq r w =
     (if has_prefix ''/static/'' (url_path rq)
      then static_handler (drop (length ''/static/'') (url_path rq)) rq r w
      else (http_error ''404 page not found'' 404 r, w))"

subsection \<open>Security headers\<close>

text \<open>The policy of the source, its single quotes written as tildes.\<close>

definition security_policy :: string where
  "security_policy = map (\<lambda>c. if c = CHR ''~'' then CHR 0x27 else c)
     ''default-src ~self~; style-src ~self~; script-src ~self~; img-src ~self~; font-src ~self~; connect-src ~self~; object-src ~none~; base-uri ~self~; form-action ~self~; frame-ancestors ~none~''"

definition security_headers :: "('p, 's) handler \<Rightarrow> ('p, 's) handler" where
  "security_headers next_handler rq r w =
     (let r1 = set_header ''Content-Security-Policy'' security_policy r;
          r2 = set_header ''X-Content-Type-Options'' ''nosniff'' r1;
          r3 = set_header ''Referrer-Policy'' ''no-referrer'' r2;
          r4 = (if equal_fold ''https'' (h_header rq ''X-Forwarded-Proto'')
                then set_header ''Strict-Transport-Security'' ''max-age=31536000'' r3 else r3)
      in next_handler rq r4 w)"

subsection \<open>The root handler\<close>

definition pages_group :: "(page_data, ('a) server_scheme) handler" where
  "pages_group = session_middleware (request_logger (csrf_middleware new_pages_mux))"

definition api_group :: "(page_data, ('a) server_scheme) handler" where
  "api_group = ratelimit_api (bearer_middleware (request_logger new_router))"

definition build_handler :: "(page_data, ('a) server_scheme) handler" where
  "build_handler = security_headers (serve_mux
     [(pattern_of ''/login'', no_args (ratelimit_login new_login_mux)),
      (pattern_of ''/static/'', no_args strip_static),
      (pattern_of ''/api/'', no_args api_group),
      (pattern_of ''/health'', no_args health_handler),
      (pattern_of ''/'', no_args pages_group)])"

record http_server =
  hsv_addr :: string
  hsv_read_header_timeout :: int
  hsv_write_timeout :: int
  hsv_idle_timeout :: int
  hsv_max_header_bytes :: int

definition new_server :: "string \<Rightarrow> http_server" where
  "new_server addr =
     \<lparr>hsv_addr = addr, hsv_read_header_timeout = 5 * nanos_second, hsv_write_timeout = 30 * nanos_second,
      hsv_idle_timeout = 60 * nanos_second, hsv_max_header_bytes = 1024 * 1024\<rparr>"

text \<open>
  \<open>run\<close> and \<open>main\<close>: the listener \<open>listen\<close>, a parameter as it is in the source, gets the configured server
  and its handler and returns an error or nothing; the result of \<open>main\<close> is the exit code. The log
  level \<open>logs.Setup\<close> chooses is \<open>setup_output\<close>.
\<close>

definition run ::
  "(http_server \<Rightarrow> (page_data, ('a) server_scheme) handler \<Rightarrow> ('a) server_scheme \<Rightarrow> string option \<times> ('a) server_scheme)
    \<Rightarrow> ('a) server_scheme \<Rightarrow> string option \<times> ('a) server_scheme" where
  "run listen w =
     (let addr = bind_addr (env w);
          w1 = log_append (Info ''starting Caddy WAF UI'' [addr]) w
      in listen (new_server addr) build_handler w1)"

definition main ::
  "(http_server \<Rightarrow> (page_data, ('a) server_scheme) handler \<Rightarrow> ('a) server_scheme \<Rightarrow> string option \<times> ('a) server_scheme)
    \<Rightarrow> ('a) server_scheme \<Rightarrow> int \<times> ('a) server_scheme" where
  "main listen w =
     (case run listen w of
        (None, w1) \<Rightarrow> (0, w1)
      | (Some e, w1) \<Rightarrow> (1, log_append (LogError ''failed to start the server'' [e]) w1))"

text \<open>The limiters of a new process.\<close>

definition start_limiters :: "('a) server_scheme \<Rightarrow> ('a) server_scheme" where
  "start_limiters w =
     (let (now, w1) = time_now w
      in w1\<lparr>sv_login_client := new_client login_per_client_per_minute login_per_client_burst,
            sv_login_global := new_bucket login_global_per_minute login_global_burst now,
            sv_api_client := new_client api_per_minute api_burst\<rparr>)"

text \<open>The server answers one request.\<close>

definition serve :: "hreq \<Rightarrow> ('a) server_scheme \<Rightarrow> page_data hres \<times> ('a) server_scheme" where
  "serve rq w = build_handler rq no_response w"

end
