(* ===== verification/ServerDemo.thy ===== *)
theory ServerDemo
  imports Server Demo
begin

text \<open>
  The concrete server at which the properties of the handlers are applied: the world of \<open>Demo\<close> with
  an access token, new limiters, an exact \<open>float64\<close>, a stand-in for HMAC and no assets; and a few
  requests to it.
\<close>

definition demo_env :: "string \<Rightarrow> string" where
  "demo_env k = (if k = ''CADDY_UI_TOKEN'' then ''s3cret'' else [])"

definition demo_server :: "server" where
  "demo_server = world.extend (demo\<lparr>env := demo_env\<rparr>)
     (server.fields (new_client login_per_client_per_minute login_per_client_burst)
        (new_bucket login_global_per_minute login_global_burst demo_time)
        (new_client api_per_minute api_burst) exact (\<lambda>k m. ''tag:'' @ k @ m) (\<lambda>_. False))"

definition demo_request :: "string \<Rightarrow> string \<Rightarrow> hreq" where
  "demo_request m p = \<lparr>h_method = m, h_path = p, h_query = [], h_header = (\<lambda>_. []),
     h_cookies = [], h_form = [], h_body = [], h_remote = ''10.0.0.9:4711''\<rparr>"

lemma demo_server_fields [simp]:
  "tree demo_server = tree demo" "cwd demo_server = cwd demo" "ulower demo_server = ulower demo"
  "tick demo_server = 0" "slog demo_server = []" "env demo_server = demo_env" "fault demo_server = fault demo"
  "clock demo_server = clock demo" "sv_rd demo_server = exact" "sv_assets demo_server = (\<lambda>_. False)"
  "sv_mac demo_server = (\<lambda>k m. ''tag:'' @ k @ m)"
  "sv_login_client demo_server = new_client login_per_client_per_minute login_per_client_burst"
  "sv_api_client demo_server = new_client api_per_minute api_burst"
  "sv_login_global demo_server = new_bucket login_global_per_minute login_global_burst demo_time"
  by (simp_all add: demo_server_def world.defs server.defs)

lemma demo_server_wf: "fs_wf demo_server"
  using demo_wf node_at_same [of demo_server demo] by (simp add: fs_wf_def)

lemma demo_token [simp]: "token_from_env demo_server = ''s3cret''"
  by (simp add: token_from_env_def ui_token_def demo_env_def)

end
