(* ===== verification/FormProps.thy ===== *)
theory FormProps
  imports ServerDemo ChainProps
begin

text \<open>
  The forms and the API handlers: what survives a redirect, what a handler's answer says about the
  configuration, and that adding an entry keeps the others.
\<close>

subsection \<open>Query strings\<close>

lemma nibble_hex_digit:
  assumes "n < 16"
  shows "is_hex (hex_digit n)" "nibble (hex_digit n) = n"
proof -
  have "\<forall>n \<in> set [0..<16]. is_hex (hex_digit n) \<and> nibble (hex_digit n) = n" by code_simp
  then show "is_hex (hex_digit n)" "nibble (hex_digit n) = n" using assms by auto
qed

lemma char_nibbles: "char_of (16 * (of_char c div 16) + of_char c mod 16 :: nat) = c"
  by (metis char_of_char mult_div_mod_eq)

lemma char_nibble_bounds: "(of_char c :: nat) div 16 < 16" "(of_char c :: nat) mod 16 < 16"
proof -
  have "(of_char c :: nat) < 256" by simp
  then show "(of_char c :: nat) div 16 < 16" "(of_char c :: nat) mod 16 < 16" by arith+
qed

lemma unescape_query_escape [simp]: "unescape True (query_escape s @ t) = map_option ((@) s) (unescape True t)"
proof (induction s)
  case (Cons c s)
  note d = char_nibble_bounds [of c]
  have "unescape True ((if unreserved c then [c] else if c = CHR '' '' then ''+''
     else [CHR ''%'', hex_digit (of_char c div 16), hex_digit (of_char c mod 16)]) @ u)
     = map_option (Cons c) (unescape True u)" for u
  proof (cases "unreserved c \<or> c = CHR '' ''")
    case True
    then have "c \<noteq> CHR ''%''" "c \<noteq> CHR ''+''" by (auto simp: unreserved_def char_class_defs less_eq_char_def)
    with True show ?thesis by auto
  next
    case False
    then show ?thesis using nibble_hex_digit [OF d(1)] nibble_hex_digit [OF d(2)] char_nibbles [of c] by simp
  qed
  with Cons show ?case by (simp add: query_escape_def option.map_comp o_def)
qed (simp add: query_escape_def option.map_id0 [unfolded id_def])

lemma query_escape_bytes: "c \<in> set (query_escape s) \<Longrightarrow> unreserved c \<or> c = CHR ''+'' \<or> c = CHR ''%''"
proof -
  have "\<forall>n \<in> set [0..<16]. unreserved (hex_digit n)" by code_simp
  then have "unreserved (hex_digit n)" if "n < 16" for n using that by auto
  then show "c \<in> set (query_escape s) \<Longrightarrow> unreserved c \<or> c = CHR ''+'' \<or> c = CHR ''%''"
    by (auto simp: query_escape_def char_nibble_bounds split: if_splits)
qed

lemma query_escape_free [simp]:
  "CHR ''&'' \<notin> set (query_escape s)" "CHR ''='' \<notin> set (query_escape s)" "CHR '';'' \<notin> set (query_escape s)"
  using query_escape_bytes [of _ s] by (fastforce simp: unreserved_def char_class_defs less_eq_char_def)+

lemma parse_pair_escape: "parse_pair (query_escape k @ CHR ''='' # query_escape v) = Some (k, v)"
proof -
  have "unescape True (query_escape x) = Some x" for x
    using unescape_query_escape [of x "[]"] by simp
  then show ?thesis by (simp add: parse_pair_def cut_found)
qed

lemma split_on_join_free: "xs \<noteq> [] \<Longrightarrow> list_all (\<lambda>x. c \<notin> set x) xs \<Longrightarrow> split_on c (join [c] xs) = xs"
  by (induction "[c]" xs rule: join.induct) (auto simp: split_on_append split_on_notin)

lemma parse_encode: "parse_query (encode_values vs) = sort_key fst vs"
proof (cases "vs = []")
  case True
  then show ?thesis by (simp add: parse_query_def encode_values_def parse_pair_def List.map_filter_def)
next
  case False
  let ?e = "\<lambda>kv. query_escape (fst kv) @ ''='' @ query_escape (snd kv)"
  have "split_on CHR ''&'' (encode_values vs) = map ?e (sort_key fst vs)"
    unfolding encode_values_def using False
    by (intro split_on_join_free) (auto simp: list_all_iff dest: arg_cong [where f = length])
  moreover have "List.map_filter parse_pair (map ?e xs) = xs" for xs
    by (induction xs) (auto simp: List.map_filter_def parse_pair_escape)
  ultimately show ?thesis by (simp add: parse_query_def)
qed

text \<open>Sorting keeps the order of equal keys, so \<open>Get\<close> sees the same value.\<close>

lemma map_of_filter_key: "map_of (filter (\<lambda>kv. fst kv = k) vs) k = map_of vs k"
  by (induction vs) auto

lemma get_value_parse_encode: "get_value (parse_query (encode_values vs)) k = get_value vs k"
proof -
  have "map_of (sort_key fst vs) k = map_of vs k"
    using map_of_filter_key [of k "sort_key fst vs"] map_of_filter_key [of k vs] by (simp only: sort_key_stable)
  then show ?thesis by (simp add: get_value_def parse_encode)
qed

subsection \<open>Where a form sends the browser\<close>

lemma map_of_set_header [simp]:
  "map_of (hs_headers (set_header k v r)) j =
     (if hs_status r = None \<and> j = k then Some v else map_of (hs_headers r) j)"
proof -
  have "map_of (filter (\<lambda>kv. fst kv \<noteq> k) xs @ [(k, v)]) j = (if j = k then Some v else map_of xs j)"
    for xs :: url_values
    by (induction xs) auto
  from this [of "hs_headers r"] show ?thesis by (auto simp: set_header_def)
qed

lemma hres_simps [simp]:
  "hs_status (set_header k v r) = hs_status r" "hs_cookies (set_header k v r) = hs_cookies r"
  "hs_chunks (set_header k v r) = hs_chunks r"
  "hs_headers (set_cookie c r) = hs_headers r" "hs_status (set_cookie c r) = hs_status r"
  "hs_chunks (set_cookie c r) = hs_chunks r"
  "hs_headers (write_header n r) = hs_headers r" "hs_cookies (write_header n r) = hs_cookies r"
  "hs_chunks (write_header n r) = hs_chunks r"
  "hs_status (write_header n r) = (case hs_status r of None \<Rightarrow> Some n | Some m \<Rightarrow> Some m)"
  "hs_headers (write_chunk p r) = hs_headers r" "hs_cookies (write_chunk p r) = hs_cookies r"
  "hs_chunks (write_chunk p r) = hs_chunks r @ [p]"
  "hs_status (write_chunk p r) = (case hs_status r of None \<Rightarrow> Some 200 | Some m \<Rightarrow> Some m)"
  by (simp_all add: set_header_def set_cookie_def write_header_def write_chunk_def split: option.splits)

lemma no_response_status [simp]: "hs_status no_response = None"
  by (simp add: no_response_def)

lemma location_redirect: "hs_status r = None \<Longrightarrow> map_of (hs_headers (http_redirect rq url c r)) ''Location'' = Some url"
  by (simp add: http_redirect_def Let_def)

text \<open>The query of the page a form sends the browser to.\<close>

definition form_query :: "string \<Rightarrow> hreq \<Rightarrow> string" where
  "form_query flash rq = encode_values (form_context rq @ [(''flash'', flash)])"

definition context_keys :: "string list" where
  "context_keys = [''tab'', ''domain'', ''search'', ''actionFilter'']"

lemma get_value_nonempty:
  "get_value (filter (\<lambda>kv. snd kv \<noteq> []) (map (\<lambda>k. (k, f k)) ks) @ vs) k =
     (if k \<in> set ks \<and> f k \<noteq> [] then f k else get_value vs k)"
  by (induction ks) (auto simp: get_value_def)

lemma form_query_values:
  "k \<in> set context_keys \<Longrightarrow> get_value (parse_query (form_query flash rq)) k = form_value rq k"
  "get_value (parse_query (form_query flash rq)) ''flash'' = flash"
  by (auto simp: form_query_def get_value_parse_encode form_context_def get_value_nonempty
      context_keys_def simp del: list.map filter.simps)
    (simp_all add: get_value_def)

subsection \<open>Errors without a sentinel\<close>

text \<open>The errors of a chain that got past its checks: no sentinel is found in them.\<close>

definition unmarked :: "gerr \<Rightarrow> bool" where
  "unmarked e \<longleftrightarrow> (\<forall>s. \<not> errors_is e s)"

lemma unmarked_simps [simp]:
  "unmarked (OsErr o1)" "unmarked (Errorf f a b None)" "unmarked (Errorf f a b (Some e)) = unmarked e"
  by (simp_all add: unmarked_def)

lemma remove_oldest_unmarked: "remove_oldest d ns w = (Inl e, w') \<Longrightarrow> unmarked e"
  by (induction d ns w rule: remove_oldest.induct) (auto simp: Let_def split: prod.splits sum.splits)

lemma enforce_retention_unmarked: "enforce_retention d ty k w = (Inl e, w') \<Longrightarrow> unmarked e"
  by (auto simp: enforce_retention_def Let_def dest: remove_oldest_unmarked split: prod.splits sum.splits if_splits)

lemma backup_unmarked: "backup dn ty w = (Inl e, w') \<Longrightarrow> unmarked e"
  by (auto simp: backup_def Let_def dest: enforce_retention_unmarked split: prod.splits sum.splits if_splits)

lemma validate_admin_url_unmarked: "validate_admin_url up u = Some e \<Longrightarrow> unmarked e"
  by (auto simp: validate_admin_url_def split: option.splits prod.splits if_splits)

lemma fetch_live_hosts_unmarked: "fetch_live_hosts u w = (Inl e, w') \<Longrightarrow> unmarked e"
  by (auto simp: fetch_live_hosts_def Let_def dest: validate_admin_url_unmarked
      split: option.splits prod.splits if_splits sum.splits)

lemma reload_unmarked: "reload w = (Inl e, w') \<Longrightarrow> unmarked e"
  by (auto simp: reload_def Let_def dest: validate_admin_url_unmarked fetch_live_hosts_unmarked
      split: option.splits prod.splits if_splits sum.splits)

lemma run_chain_unmarked:
  assumes "\<And>v e v'. co_mutate opts v = (Inl e, v') \<Longrightarrow> unmarked e" "run_chain dn ip opts w = (Inl e, w')"
  shows "unmarked e"
  using assms(2)
  by (auto simp: run_chain_def dest: assms(1) reload_unmarked backup_unmarked split: prod.splits sum.splits)

lemma generators_unmarked:
  "generate_waf_snippet st a i v = (Inl e, v') \<Longrightarrow> unmarked e"
  "generate_exclusions st exs v = (Inl e, v') \<Longrightarrow> validate_exclusions exs = None \<Longrightarrow> unmarked e"
  "generate_ip_rules st rules v = (Inl e, v') \<Longrightarrow> validate_ip_rules rules = None \<Longrightarrow> unmarked e"
  by (auto simp: generate_waf_snippet_def generate_exclusions_def generate_ip_rules_def validate_ip_rules_iff
      Let_def split: prod.splits sum.splits)

lemma generate_and_write_unmarked:
  assumes "\<And>v e v'. g v = (Inl e, v') \<Longrightarrow> unmarked e" "generate_and_write dn ip opts g v = (Inl e, v')"
  shows "unmarked e"
  using assms by (auto simp: generate_and_write_def split: prod.splits sum.splits)

lemma co_mutate_with [simp]: "co_mutate (with_mutation f opts) = f opts"
  by (simp add: with_mutation_def)

lemma opts_unmarked:
  "co_mutate (waf_mode_opts dn md ip w) v = (Inl e, v') \<Longrightarrow> unmarked e"
  "validate_exclusions exs = None \<Longrightarrow> co_mutate (exclusions_opts dn exs ip w) v = (Inl e, v') \<Longrightarrow> unmarked e"
  "validate_ip_rules rules = None \<Longrightarrow> co_mutate (ip_rules_opts dn rules ip w) v = (Inl e, v') \<Longrightarrow> unmarked e"
  by (auto simp: waf_mode_opts_def exclusions_opts_def ip_rules_opts_def
      elim: generate_and_write_unmarked [rotated] dest: generators_unmarked)

lemma runs_unmarked:
  "run_chain dn ip (waf_mode_opts dn md ip w) w = (Inl e, w') \<Longrightarrow> unmarked e"
  "validate_exclusions exs = None \<Longrightarrow> run_chain dn ip (exclusions_opts dn exs ip w) w = (Inl e, w') \<Longrightarrow> unmarked e"
  "validate_ip_rules rules = None \<Longrightarrow> run_chain dn ip (ip_rules_opts dn rules ip w) w = (Inl e, w') \<Longrightarrow> unmarked e"
  by (erule run_chain_unmarked [rotated], erule opts_unmarked(1))
    (erule run_chain_unmarked [rotated], erule opts_unmarked(2), assumption,
      erule run_chain_unmarked [rotated], erule opts_unmarked(3), assumption)

text \<open>A chain that ran was audited, so the state is not the one before.\<close>

lemma run_chain_moves:
  assumes "chain_mutation ty dn ip w opts written" "fs_wf w" "run_chain dn ip opts w = (r, w')"
  shows "w' \<noteq> w"
  by (rule chain_mutation.run_chain_cases [OF assms]) (auto simp: audits_log simp del: audits_log_action)

lemmas runs_move = run_chain_moves [OF waf_chain.chain_mutation_axioms]
  run_chain_moves [OF exclusions_chain.chain_mutation_axioms] run_chain_moves [OF ip_rules_chain.chain_mutation_axioms]

text \<open>So a failed update was either refused, with its sentinel and no effect, or ran and failed.\<close>

lemma updates_failed:
  assumes "fs_wf w"
  shows "update_waf_mode dn md ip w = (Inl e, w') \<Longrightarrow>
      unmarked e \<and> w' \<noteq> w \<or> w' = w \<and> (errors_is e ErrInvalidDomain \<or> errors_is e ErrInvalidMode)"
    "update_exclusions dn exs ip w = (Inl e, w') \<Longrightarrow> validate_exclusions exs = None \<Longrightarrow>
      unmarked e \<and> w' \<noteq> w \<or> w' = w \<and> errors_is e ErrInvalidDomain"
    "update_ip_rules dn rules ip w = (Inl e, w') \<Longrightarrow> validate_ip_rules rules = None \<Longrightarrow>
      unmarked e \<and> w' \<noteq> w \<or> w' = w \<and> errors_is e ErrInvalidDomain"
  using assms by (auto simp: update_waf_mode_def update_exclusions_def update_ip_rules_def
      dest: validate_domain_error runs_unmarked runs_move split: option.splits if_splits)

subsection \<open>The status of an API answer\<close>

text \<open>What an answer of the API tells about the configuration.\<close>

definition status_honest :: "string \<Rightarrow> string \<Rightarrow> string \<Rightarrow> ('a) world_scheme \<Rightarrow> ('a) world_scheme \<Rightarrow> int \<Rightarrow> bool" where
  "status_honest dn ip ty w w' code \<longleftrightarrow>
     code = 200 \<and> (\<exists>c ev. committed w w' ty dn c \<and> audits w' = audits w @ [ev] \<and> ev_domain ev = dn
       \<and> ev_remote_ip ev = ip \<and> ev_event ev \<in> success_events)
     \<or> code \<in> {400, 413} \<and> w' = w
     \<or> code = 500 \<and> (\<exists>ev. audits w' = audits w @ [ev] \<and> ev_domain ev = dn \<and> ev_remote_ip ev = ip
       \<and> ev_event ev \<notin> success_events)"

lemma final_status_simps [simp]:
  "hs_status r = None \<Longrightarrow> final_status (http_error_chunk c n r) = n"
  "hs_status r = None \<Longrightarrow> final_status (http_error s n r) = n"
  "hs_status r = None \<Longrightarrow> final_status (write_json n s r) = n"
  "hs_status r = None \<Longrightarrow> final_status (http_redirect rq u n r) = n"
  by (simp_all add: final_status_def http_error_chunk_def http_error_def write_json_def http_redirect_def Let_def)

lemma decode_json_body_Inl:
  "decode_json_body dec z rq r = Inl r1 \<Longrightarrow> hs_status r = None \<Longrightarrow> final_status r1 \<in> {400, 413}"
  by (auto simp: decode_json_body_def split: sum.splits if_splits)

lemma status_honest_entry:
  fixes w :: "'a world_scheme"
  assumes "public_entry dn ip ty f" "fs_wf w" "f w = (res, w')"
  shows "res = Inr () \<Longrightarrow> status_honest dn ip ty w w' 200"
    "res \<noteq> Inr () \<Longrightarrow> w' \<noteq> w \<Longrightarrow> status_honest dn ip ty w w' 500"
  using entry_outcome [OF assms] by (auto simp: status_honest_def)

lemma status_honest_refused: "c \<in> {400, 413} \<Longrightarrow> status_honest dn ip ty w w c"
  by (simp add: status_honest_def)

lemma unmarked_not: "unmarked e \<Longrightarrow> \<not> errors_is e s"
  by (simp add: unmarked_def)

text \<open>A failure is reported as 400 if it carries a sentinel the handler knows (\<open>bad\<close>), else as 500.\<close>

lemma status_honest_outcome:
  fixes w :: "'a world_scheme"
  assumes "public_entry dn ip ty f" "fs_wf w" "f w = (res, w')"
    and "\<And>e. res = Inl e \<Longrightarrow> unmarked e \<and> w' \<noteq> w \<or> w' = w \<and> bad e" "\<And>e. bad e \<Longrightarrow> \<not> unmarked e"
  shows "status_honest dn ip ty w w' (case res of Inl e \<Rightarrow> if bad e then 400 else 500 | Inr _ \<Rightarrow> 200)"
proof (cases res)
  case (Inl e)
  with status_honest_entry(2) [OF assms(1-3)] assms(4,5) [of e] show ?thesis
    by (auto intro: status_honest_refused)
next
  case (Inr u)
  with status_honest_entry(1) [OF assms(1-3)] show ?thesis by simp
qed

lemma set_mode_honest:
  fixes w :: "'a world_scheme"
  assumes "fs_wf w" "hs_status r = None" "handle_set_mode args rq r w = (r', w')"
  shows "status_honest (path_domain args) (ui_client_ip rq) file_type_waf w w' (final_status r')"
proof (cases "decode_json_body dec_mode_request \<lparr>mr_mode = []\<rparr> rq r")
  case (Inl r1)
  with assms decode_json_body_Inl [OF Inl] show ?thesis
    by (auto simp: handle_set_mode_def intro: status_honest_refused)
next
  case (Inr req)
  obtain res w1 where u: "update_waf_mode (path_domain args) (mr_mode req) (ui_client_ip rq) w = (res, w1)" by fastforce
  have "w1 = w' \<and> final_status r' = (case res of Inl e \<Rightarrow> if errors_is e ErrInvalidDomain \<or> errors_is e ErrInvalidMode then 400 else 500 | Inr _ \<Rightarrow> 200)"
    using assms(2,3) Inr u by (auto simp: handle_set_mode_def split: sum.splits)
  moreover have "status_honest (path_domain args) (ui_client_ip rq) file_type_waf w w1
      (case res of Inl e \<Rightarrow> if errors_is e ErrInvalidDomain \<or> errors_is e ErrInvalidMode then 400 else 500 | Inr _ \<Rightarrow> 200)"
    by (rule status_honest_outcome [OF public_entry.waf_mode assms(1) u])
      (use updates_failed(1) [OF assms(1)] u in \<open>auto simp: unmarked_not\<close>)
  ultimately show ?thesis by simp
qed

lemma set_exclusions_honest:
  fixes w :: "'a world_scheme"
  assumes "fs_wf w" "hs_status r = None" "handle_set_exclusions args rq r w = (r', w')"
  shows "status_honest (path_domain args) (ui_client_ip rq) file_type_exclusions w w' (final_status r')"
proof (cases "decode_json_body dec_exclusions_request \<lparr>er_exclusions = []\<rparr> rq r")
  case (Inl r1)
  with assms decode_json_body_Inl [OF Inl] show ?thesis
    by (auto simp: handle_set_exclusions_def intro: status_honest_refused)
next
  case (Inr req)
  show ?thesis
  proof (cases "validate_exclusions (er_exclusions req)")
    case (Some e)
    with Inr assms show ?thesis by (auto simp: handle_set_exclusions_def intro: status_honest_refused)
  next
    case None
    obtain res w1 where u: "update_exclusions (path_domain args) (er_exclusions req) (ui_client_ip rq) w = (res, w1)" by fastforce
    have "w1 = w' \<and> final_status r' = (case res of Inl e \<Rightarrow> if errors_is e ErrInvalidDomain then 400 else 500 | Inr _ \<Rightarrow> 200)"
      using assms(2,3) Inr u None by (auto simp: handle_set_exclusions_def split: sum.splits)
    moreover have "status_honest (path_domain args) (ui_client_ip rq) file_type_exclusions w w1
        (case res of Inl e \<Rightarrow> if errors_is e ErrInvalidDomain then 400 else 500 | Inr _ \<Rightarrow> 200)"
      by (rule status_honest_outcome [OF public_entry.exclusions assms(1) u])
        (use updates_failed(2) [OF assms(1)] u None in \<open>auto simp: unmarked_not\<close>)
    ultimately show ?thesis by simp
  qed
qed

lemma set_ip_rules_honest:
  fixes w :: "'a world_scheme"
  assumes "fs_wf w" "hs_status r = None" "handle_set_ip_rules args rq r w = (r', w')"
  shows "status_honest (path_domain args) (ui_client_ip rq) file_type_ip_rules w w' (final_status r')"
proof (cases "decode_json_body dec_ip_rules no_ip_rules rq r")
  case (Inl r1)
  with assms decode_json_body_Inl [OF Inl] show ?thesis
    by (auto simp: handle_set_ip_rules_def intro: status_honest_refused)
next
  case (Inr req)
  show ?thesis
  proof (cases "validate_ip_rules req")
    case (Some e)
    with Inr assms show ?thesis by (auto simp: handle_set_ip_rules_def intro: status_honest_refused)
  next
    case None
    obtain res w1 where u: "update_ip_rules (path_domain args) req (ui_client_ip rq) w = (res, w1)" by fastforce
    have "w1 = w' \<and> final_status r' = (case res of Inl e \<Rightarrow> if errors_is e ErrInvalidDomain then 400 else 500 | Inr _ \<Rightarrow> 200)"
      using assms(2,3) Inr u None by (auto simp: handle_set_ip_rules_def split: sum.splits)
    moreover have "status_honest (path_domain args) (ui_client_ip rq) file_type_ip_rules w w1
        (case res of Inl e \<Rightarrow> if errors_is e ErrInvalidDomain then 400 else 500 | Inr _ \<Rightarrow> 200)"
      by (rule status_honest_outcome [OF public_entry.ip_rules assms(1) u])
        (use updates_failed(3) [OF assms(1)] u None in \<open>auto simp: unmarked_not\<close>)
    ultimately show ?thesis by simp
  qed
qed

text \<open>The three update handlers and the overlay each one is about.\<close>

definition update_handlers :: "((string list \<Rightarrow> ('p, ('a) world_scheme) handler) \<times> string) list" where
  "update_handlers =
     [(handle_set_mode, file_type_waf), (handle_set_exclusions, file_type_exclusions),
      (handle_set_ip_rules, file_type_ip_rules)]"

text \<open>C36. The status of an API answer is honest: 200 exactly when the change was committed, reloaded
  and audited with one success event for the domain and the client; 400 or 413 exactly when the
  request was refused before any effect, not even a system call; 500 exactly when the chain ran and
  failed, audited with one failure event.\<close>

theorem api_status_honest:
  fixes w :: "'a world_scheme"
  assumes "(h, ty) \<in> set update_handlers" "fs_wf w" "hs_status r = None" "h args rq r w = (r', w')"
  shows "status_honest (path_domain args) (ui_client_ip rq) ty w w' (final_status r')"
proof -
  consider "h = handle_set_mode" "ty = file_type_waf" | "h = handle_set_exclusions" "ty = file_type_exclusions"
    | "h = handle_set_ip_rules" "ty = file_type_ip_rules"
    using assms(1) by (auto simp: update_handlers_def)
  then show ?thesis
    by cases (use assms in \<open>blast intro: set_mode_honest set_exclusions_honest set_ip_rules_honest\<close>)+
qed

definition demo_put :: "string \<Rightarrow> hreq" where
  "demo_put body = \<lparr>h_method = ''PUT'', h_path = ''/api/sites/example.com/mode'', h_query = [], h_header = (\<lambda>_. []),
     h_cookies = [], h_form = [], h_body = body, h_remote = ''10.0.0.9:4711''\<rparr>"

lemma decode_short:
  "length body < 1000 \<Longrightarrow> decode_limited dec z body =
     (case json_read_value body of Bad \<Rightarrow> Inl 400 | More \<Rightarrow> Inl 400
      | Val v r \<Rightarrow> (case dec v z of None \<Rightarrow> Inl 400 | Some a \<Rightarrow> Inr a))"
  by (simp add: decode_limited_def max_body_bytes_def split: json_read.splits)

lemma api_status_honest_witness:
  "status_honest demo_domain ''10.0.0.9'' file_type_waf demo
     (snd (handle_set_mode [demo_domain] (demo_put (json_text ''{~mode~:~On~}'')) (no_response :: unit hres) demo)) 200"
proof -
  let ?rq = "demo_put (json_text ''{~mode~:~On~}'')"
  let ?h = "handle_set_mode [demo_domain] ?rq (no_response :: unit hres) demo"
  have v: "json_read_value (json_text ''{~mode~:~On~}'') = Val (JObj [(''mode'', JStr ''On'')]) []" by code_simp
  have l: "length (json_text ''{~mode~:~On~}'') < 1000" by code_simp
  have m: "dec_mode_request (JObj [(''mode'', JStr ''On'')]) \<lparr>mr_mode = []\<rparr> = Some \<lparr>mr_mode = ''On''\<rparr>" by code_simp
  have d: "decode_json_body dec_mode_request \<lparr>mr_mode = []\<rparr> ?rq (no_response :: unit hres) = Inr \<lparr>mr_mode = ''On''\<rparr>"
    by (simp add: decode_json_body_def demo_put_def decode_short [OF l] v m)
  have ip: "ui_client_ip ?rq = ''10.0.0.9''" by (simp add: demo_put_def ui_client_ip_def) code_simp
  have "validate_domain demo_domain = None" by code_simp
  then have "fst (update_waf_mode demo_domain ''On'' ''10.0.0.9'' demo) = Inr ()"
    by (intro update_waf_mode_ok [OF demo_healthy]) (simp_all add: mode_defs)
  then obtain w' where u: "update_waf_mode demo_domain ''On'' ''10.0.0.9'' demo = (Inr (), w')"
    by (metis prod.collapse)
  have h: "?h = (write_json 200 success_body no_response, w')"
    by (simp add: handle_set_mode_def d ip u path_domain_def)
  from api_status_honest [of handle_set_mode file_type_waf, OF _ demo_wf _ h] ip
  show ?thesis by (simp add: update_handlers_def path_domain_def h)
qed

subsection \<open>Adding an entry with a form\<close>

text \<open>The overlay of a successful update reads back as the submitted entries without duplicates.\<close>

lemma update_exclusions_read:
  fixes w :: "'a world_scheme"
  assumes "fs_wf w" "update_exclusions dn exs ip w = (Inr (), w')" "no_faults w'"
  shows "fst (read_exclusions dn w') = Inr (dedupe_exclusions exs)" "set (dedupe_exclusions exs) = set exs"
    "list_all exclusion_ok exs"
proof -
  note up = update_exclusions_Inr [OF assms(1,2)]
  show ok: "list_all exclusion_ok exs" using up(2) by (simp add: validate_exclusions_iff)
  show "set (dedupe_exclusions exs) = set exs" by (rule dedupe_exclusions_set [OF ok])
  have st: "cwd w' = cwd w" "env w' = env w" "ulower w' = ulower w"
    using entry_outcome [OF public_entry.exclusions assms(1,2)] by (auto simp: stays_def)
  obtain t where t: "node_at w' (overlay_at w file_type_exclusions dn) = Some (Reg (unlines
      (exclusions_lines (header dn [] t) (exclusion_rows id_base (dedupe_exclusions exs)))) 420)"
    using up(3) by blast
  have "nl \<notin> set dn" using up(1) host_field [of dn] by (simp add: validate_domain_iff)
  then have "parse_exclusions_overlay (unlines (exclusions_lines (header dn [] t)
      (exclusion_rows id_base (dedupe_exclusions exs)))) = dedupe_exclusions exs"
    using dedupe_exclusions_ok [OF ok] by (rule parse_generated_exclusions [rotated])
  moreover have "resolve (cwd w') (exclusions_config_path (ulower w') (managed_dir (env w')) dn) = overlay_at w file_type_exclusions dn"
    using resolve_overlay(1) [of file_type_exclusions w dn] by (simp add: config_paths st)
  ultimately show "fst (read_exclusions dn w') = Inr (dedupe_exclusions exs)"
    using t assms(3) by (simp add: read_exclusions_def read_exclusions_file_def os_read_file_def)
qed

lemma after_form_location:
  assumes "hs_status r = None"
  shows "map_of (hs_headers (after_form res rq r)) ''Location'' =
    Some (''/?'' @ form_query (case res of Inl _ \<Rightarrow> ''error'' | Inr _ \<Rightarrow> ''success'') rq)"
  using assms by (simp add: after_form_def redirect_after_form_def location_redirect form_query_def split: sum.splits)

text \<open>The browser is sent to a page that reports success.\<close>

definition sent_to_success :: "'p hres \<Rightarrow> bool" where
  "sent_to_success r \<longleftrightarrow> (\<exists>q. map_of (hs_headers r) ''Location'' = Some (''/?'' @ q)
     \<and> get_value (parse_query q) ''flash'' = ''success'')"

lemma sent_to_success_redirect [simp]:
  "hs_status r = None \<Longrightarrow> sent_to_success (redirect_after_form flash rq r) \<longleftrightarrow> flash = ''success''"
  by (auto simp: sent_to_success_def redirect_after_form_def location_redirect form_query_values(2) [unfolded form_query_def])

lemma sent_to_success_after [simp]:
  "hs_status r = None \<Longrightarrow> sent_to_success (after_form res rq r) \<longleftrightarrow> res = Inr ()"
  by (simp add: after_form_def split: sum.splits)

text \<open>The exclusion a form asks for.\<close>

definition form_exclusion :: "hreq \<Rightarrow> exclusion" where
  "form_exclusion rq = \<lparr>ex_type = exclude_by_id, ex_value = form_value rq ''ruleId'', ex_param = form_value rq ''param''\<rparr>"

text \<open>C37. Adding an exclusion with the form keeps the others: when the browser is sent to a page that
  reports success, the overlay reads back as the exclusions read before with the new one after them,
  without duplicates; none is lost and none invented.\<close>

theorem form_add_keeps_exclusions:
  fixes w :: "'a world_scheme"
  assumes "fs_wf w" "handle_form_add_exclusion args rq r w = (r', w')" "hs_status r = None"
    "sent_to_success r'" "no_faults w'"
  shows "\<exists>current. fst (read_exclusions (path_domain args) w) = Inr current
    \<and> fst (read_exclusions (path_domain args) w') = Inr (dedupe_exclusions (current @ [form_exclusion rq]))
    \<and> set (dedupe_exclusions (current @ [form_exclusion rq]))
      = insert (form_exclusion rq) (set current)"
proof -
  let ?dn = "path_domain args"
  let ?x = "form_exclusion rq"
  obtain cur w1 where rd: "read_exclusions ?dn w = (Inr cur, w1)"
    using assms(2-4) by (auto simp: handle_form_add_exclusion_def Let_def split: prod.splits sum.splits)
  obtain res w2 where up: "update_exclusions ?dn (cur @ [?x]) (h_remote rq) w1 = (res, w2)" by fastforce
  have "r' = after_form res rq r" "w2 = w'"
    using assms(2) rd up by (auto simp: handle_form_add_exclusion_def form_exclusion_def Let_def)
  then have "update_exclusions ?dn (cur @ [?x]) (h_remote rq) w1 = (Inr (), w')" using assms(3,4) up by simp
  moreover have "fs_wf w1" using rd assms(1) by (auto simp: read_exclusions_def read_exclusions_file_def
      dest!: os_read_file_pair split: prod.splits sum.splits if_splits)
  ultimately show ?thesis using update_exclusions_read [of w1 ?dn "cur @ [?x]"] assms(5) rd by auto
qed

lemma healthy_tock: "healthy w ty dn c \<Longrightarrow> healthy (tock w) ty dn c"
  by (simp add: healthy_def writable_def no_faults_def caddy_accepts_def temps_free_def chain_paths_def
      snapshot_paths_def overlay_at_def backups_at_def)

definition demo_form :: "url_values \<Rightarrow> hreq" where
  "demo_form vs = \<lparr>h_method = ''POST'', h_path = ''/sites/example.com/exclusions'', h_query = [], h_header = (\<lambda>_. []),
     h_cookies = [], h_form = vs, h_body = [], h_remote = ''10.0.0.9:4711''\<rparr>"

lemma form_add_keeps_exclusions_witness:
  "\<exists>w'. fst (read_exclusions demo_domain w') = Inr [\<lparr>ex_type = ''id'', ex_value = ''942100'', ex_param = ''q''\<rparr>]
    \<and> snd (handle_form_add_exclusion [demo_domain] (demo_form [(''ruleId'', ''942100''), (''param'', ''q'')])
        (no_response :: unit hres) demo) = w'"
proof -
  let ?rq = "demo_form [(''ruleId'', ''942100''), (''param'', ''q'')]"
  let ?e = "\<lparr>ex_type = ''id'', ex_value = ''942100'', ex_param = ''q''\<rparr>"
  have e: "form_exclusion ?rq = ?e"
    by (simp add: form_exclusion_def demo_form_def form_value_def get_value_def exclude_by_id_def)
  have v: "hostname_ok demo_domain" "list_all exclusion_ok [?e]" "dedupe_exclusions [?e] = [?e]"
    "resolve (cwd demo) (exclusions_config_path (ulower demo) (managed_dir (env demo)) demo_domain) = [''ui-managed'', ''exclusions-example_com.conf'']"
    "node_at demo [''ui-managed'', ''exclusions-example_com.conf''] = None"
    "missing demo [''ui-managed'', ''exclusions-example_com.conf''] = ENOENT" "now_fault demo = None" by code_simp+
  have rd: "read_exclusions demo_domain demo = (Inr [], tock demo)"
    using v(4-7) by (simp add: read_exclusions_def read_exclusions_file_def os_read_file_def)
  have h: "healthy (tock demo) file_type_exclusions demo_domain demo_caddyfile"
    by (rule healthy_tock [OF demo_healthy]) simp
  obtain w' where r: "update_exclusions demo_domain [?e] ''10.0.0.9:4711'' (tock demo) = (Inr (), w')"
    using update_exclusions_ok [OF h] v(1,2) by (metis prod.collapse validate_domain_iff validate_exclusions_iff)
  have n: "no_faults w'"
    using entry_outcome [OF public_entry.exclusions _ r] demo_wf by (simp add: no_faults_def stays_def)
  have hf: "handle_form_add_exclusion [demo_domain] ?rq (no_response :: unit hres) demo
      = (after_form (Inr ()) ?rq no_response, w')"
    using rd r e by (simp add: handle_form_add_exclusion_def form_exclusion_def path_domain_def demo_form_def Let_def)
  from form_add_keeps_exclusions [OF demo_wf hf _ _ n] rd v(3) e show ?thesis
    by (simp add: hf path_domain_def)
qed

text \<open>The page a flash message is cleaned to: the five query values, and no other.\<close>

lemma clean_url_values:
  obtains q where "clean_url vs = ''/'' \<and> q = [] \<or> clean_url vs = ''/?'' @ q"
    "\<And>k. get_value (parse_query q) k = (if k \<in> set (context_keys @ [''page'']) then get_value vs k else [])"
proof -
  let ?clean = "filter (\<lambda>kv. snd kv \<noteq> []) (map (\<lambda>k. (k, get_value vs k)) (context_keys @ [''page'']))"
  have vals: "get_value (parse_query (encode_values ?clean)) k =
      (if k \<in> set (context_keys @ [''page'']) then get_value vs k else [])" for k
    using get_value_nonempty [of "get_value vs" "context_keys @ [''page'']" "[]" k]
    by (simp only: get_value_parse_encode append_Nil2) (simp add: get_value_def)
  have loc: "clean_url vs = (if ?clean = [] then ''/'' else ''/?'' @ encode_values ?clean)"
    by (simp add: clean_url_def context_keys_def Let_def)
  have "encode_values [] = []" by (simp add: encode_values_def)
  then have "clean_url vs = ''/'' \<and> encode_values ?clean = [] \<or> clean_url vs = ''/?'' @ encode_values ?clean"
    unfolding loc by (cases "?clean = []") (simp_all only: if_True if_False simp_thms)
  then show thesis using vals by (rule that)
qed

text \<open>C38. What the user looked at survives the forms: the page a form sends the browser to has the
  tab, domain, search and filter of the form, whatever bytes they have, and the outcome; opening it
  redirects once more, without the outcome, which moves into the flash cookie, and the four values
  are still those of the form.\<close>

theorem form_context_survives:
  assumes "hs_status r = None" "hs_status r2 = None" "flash = ''success'' \<or> flash = ''error''"
    "h_query rq2 = form_query flash rq" "handle_index rq2 r2 w = (r', w')"
  shows "map_of (hs_headers (redirect_after_form flash rq r)) ''Location'' = Some (''/?'' @ form_query flash rq)
    \<and> w' = w \<and> flash_cookie flash 60 \<in> set (hs_cookies r')
    \<and> (\<exists>loc q. map_of (hs_headers r') ''Location'' = Some loc \<and> (loc = ''/'' \<and> q = [] \<or> loc = ''/?'' @ q)
        \<and> list_all (\<lambda>k. get_value (parse_query q) k = form_value rq k) context_keys
        \<and> get_value (parse_query q) ''flash'' = [])"
proof -
  have fl: "flash \<noteq> []" using assms(3) by auto
  have qf: "query_of rq2 ''flash'' = flash" by (simp add: query_of_def assms(4) form_query_values)
  have r': "r' = http_redirect rq2 (clean_url (parse_query (h_query rq2))) 302 (set_flash_cookie flash r2)" "w' = w"
    using assms(5) fl by (simp_all add: handle_index_def Let_def qf)
  obtain q where q: "clean_url (parse_query (h_query rq2)) = ''/'' \<and> q = [] \<or> clean_url (parse_query (h_query rq2)) = ''/?'' @ q"
    and vals: "\<And>k. get_value (parse_query q) k =
      (if k \<in> set (context_keys @ [''page'']) then get_value (parse_query (h_query rq2)) k else [])"
    using clean_url_values [of "parse_query (h_query rq2)"] by blast
  have "list_all (\<lambda>k. get_value (parse_query q) k = form_value rq k) context_keys"
    by (simp add: list_all_iff vals assms(4) form_query_values(1))
  moreover have "get_value (parse_query q) ''flash'' = []" by (simp add: vals context_keys_def)
  moreover have "map_of (hs_headers r') ''Location'' = Some (clean_url (parse_query (h_query rq2)))"
    unfolding r'(1) using assms(2) by (simp add: location_redirect set_flash_cookie_def)
  moreover have "flash_cookie flash 60 \<in> set (hs_cookies r')"
    unfolding r'(1) using assms(2) by (simp add: http_redirect_def Let_def set_flash_cookie_def set_cookie_def)
  ultimately show ?thesis
    using q r'(2) assms(1) by (auto simp: redirect_after_form_def location_redirect form_query_def)
qed

lemma form_context_survives_witness:
  "\<exists>r' loc. handle_index ((demo_request ''GET'' ''/'')\<lparr>h_query := form_query ''success'' (demo_form [(''domain'', ''a&b=c d'')])\<rparr>)
      no_response demo_server = (r', demo_server)
    \<and> map_of (hs_headers r') ''Location'' = Some loc"
proof -
  let ?f = "demo_form [(''domain'', ''a&b=c d'')]"
  let ?rq = "(demo_request ''GET'' ''/'')\<lparr>h_query := form_query ''success'' ?f\<rparr>"
  obtain r' w' where h: "handle_index ?rq no_response demo_server = (r', w')" by fastforce
  have "h_query ?rq = form_query ''success'' ?f" by simp
  from form_context_survives [OF no_response_status no_response_status disjI1 [OF refl] this h] h show ?thesis by blast
qed

end
