(* ===== verification/ServerProps.thy ===== *)
theory ServerProps
  imports ServerDemo ChainProps FormProps
begin

text \<open>
  The server's handlers as steps of its state: which of them only read, which run a configuration
  change, and what each leaves alone; then the properties of the whole server, for every request.
\<close>

subsection \<open>Steps that only read\<close>

text \<open>A reading step passes time and may log; it makes no audit event and rejects no login.\<close>

definition is_reject :: "log_line \<Rightarrow> bool" where
  "is_reject l = (case l of Warn s _ \<Rightarrow> s = ''login rejected'' | _ \<Rightarrow> False)"

definition reads :: "('a) proc_scheme \<Rightarrow> ('a) proc_scheme \<Rightarrow> bool" where
  "reads w w' \<longleftrightarrow> (\<exists>t ls. w' = w\<lparr>tick := t, slog := slog w @ ls\<rparr> \<and> list_all (\<lambda>l. \<not> is_audit l \<and> \<not> is_reject l) ls)"

lemma reads_refl [simp]: "reads w w"
proof -
  have "w = w\<lparr>tick := tick w, slog := slog w @ []\<rparr>" by simp
  then show ?thesis unfolding reads_def by (metis list.pred_inject(1))
qed

lemma reads_trans: "reads w w' \<Longrightarrow> reads w' w'' \<Longrightarrow> reads w w''"
  unfolding reads_def by fastforce

lemma reads_tock [simp]: "reads w (tock w)"
proof -
  have "tock w = w\<lparr>tick := Suc (tick w), slog := slog w @ []\<rparr>" by (simp add: tock_def)
  then show ?thesis unfolding reads_def by (metis list.pred_inject(1))
qed

lemma reads_log: "\<not> is_audit l \<Longrightarrow> \<not> is_reject l \<Longrightarrow> reads w (log_append l w)"
  unfolding reads_def by (intro exI [of _ "tick w"] exI [of _ "[l]"]) (simp add: log_append_def)

lemma reads_log_simps [simp]:
  "s \<noteq> ''login rejected'' \<Longrightarrow> reads w (log_append (Warn s xs) w)" "reads w (log_append (LogError s xs) w)"
  "reads w (log_request a b c d w)"
  by (simp_all add: reads_log is_audit_def is_reject_def log_request_def)

lemma reads_fields:
  assumes "reads w w'"
  shows "tree w' = tree w" "cwd w' = cwd w" "env w' = env w" "ulower w' = ulower w" "clock w' = clock w"
    "fault w' = fault w" "audits w' = audits w" "proc.more w' = proc.more w"
proof -
  obtain t ls where w: "w' = w\<lparr>tick := t, slog := slog w @ ls\<rparr>" "list_all (\<lambda>l. \<not> is_audit l \<and> \<not> is_reject l) ls"
    using assms by (auto simp: reads_def)
  have "List.map_filter (\<lambda>l. case l of Audit e \<Rightarrow> Some e | _ \<Rightarrow> None) ls = []"
    using w(2) by (induction ls) (auto simp: List.map_filter_def is_audit_def split: log_line.splits)
  then show "tree w' = tree w" "cwd w' = cwd w" "env w' = env w" "ulower w' = ulower w" "clock w' = clock w"
    "fault w' = fault w" "audits w' = audits w" "proc.more w' = proc.more w"
    by (simp_all add: w(1) audits_def map_filter_snoc)
qed

lemma reads_step: "reads w w1 \<Longrightarrow> w2 = tock w1 \<Longrightarrow> reads w w2"
  using reads_trans [OF _ reads_tock] by metis

lemma reads_tock_left: "reads (tock w) w' \<Longrightarrow> reads w w'"
  using reads_trans [OF reads_tock] .

lemma reads_log_left:
  "reads (log_append (Warn s xs) w) w' \<Longrightarrow> s \<noteq> ''login rejected'' \<Longrightarrow> reads w w'" "reads (log_append (LogError s xs) w) w' \<Longrightarrow> reads w w'"
  using reads_trans [OF reads_log_simps(1)] reads_trans [OF reads_log_simps(2)] by blast+

lemma reads_tock_right: "reads w w' \<Longrightarrow> reads w (tock w')"
  using reads_trans [OF _ reads_tock] .

lemma reads_log_right:
  "reads w w' \<Longrightarrow> s \<noteq> ''login rejected'' \<Longrightarrow> reads w (log_append (Warn s xs) w')" "reads w w' \<Longrightarrow> reads w (log_append (LogError s xs) w')"
  using reads_trans [OF _ reads_log_simps(1)] reads_trans [OF _ reads_log_simps(2)] by blast+

lemmas reads_left = reads_tock_left reads_log_left
lemmas reads_right = reads_tock_right reads_log_right

text \<open>Every reading operation of the components.\<close>

lemma os_read_file_tock: "os_read_file f w = (r, w') \<Longrightarrow> w' = tock w"
  by (rule os_read_file_pair)

lemma os_read_dir_tock: "os_read_dir f w = (r, w') \<Longrightarrow> w' = tock w"
  by (auto simp: os_read_dir_def Let_def)

lemma os_stat_tock: "os_stat f w = (r, w') \<Longrightarrow> w' = tock w"
  by (auto simp: os_stat_def Let_def)

lemma reads_parse_site_header: "parse_site_header p n w = (r, w') \<Longrightarrow> reads w w'"
  by (auto simp: parse_site_header_def Let_def dest!: os_read_file_tock
      split: prod.splits sum.splits if_splits intro!: reads_right)

lemma reads_scan_entries: "scan_entries d es w = (r, w') \<Longrightarrow> reads w w'"
proof (induction d es w arbitrary: r w' rule: scan_entries.induct)
  case (2 d name x es w)
  show ?case
  proof (cases "x = SubDir \<or> \<not> has_prefix ''waf-'' name \<or> \<not> has_suffix ''.conf'' name")
    case True
    with 2 show ?thesis by (auto split: if_splits)
  next
    case False
    obtain p w1 where p: "parse_site_header (filepath_join [d, name]) name w = (p, w1)" by fastforce
    have w1: "reads w w1" by (rule reads_parse_site_header [OF p])
    show ?thesis
    proof (cases p)
      case (Inl e)
      with 2(3) [OF _ _ p [symmetric] Inl] 2(5) False p w1 show ?thesis
        by (auto intro: reads_trans dest: reads_left)
    next
      case (Inr st)
      obtain sts w2 where "scan_entries d es w1 = (sts, w2)" by fastforce
      with 2(4) [OF _ _ p [symmetric] Inr] 2(5) False p Inr w1 show ?thesis by (auto intro: reads_trans)
    qed
  qed
qed simp

lemma reads_scan: "scan d w = (r, w') \<Longrightarrow> reads w w'"
  by (auto simp: scan_def dest!: os_read_dir_tock reads_scan_entries split: prod.splits sum.splits if_splits dest: reads_left intro!: reads_right)

lemma reads_list_entries: "list_entries d es w = (r, w') \<Longrightarrow> reads w w'"
proof (induction d es w arbitrary: r w' rule: list_entries.induct)
  case (2 d name x es w)
  then show ?case
    by (auto split: if_splits option.splits prod.splits sum.splits dest!: os_stat_tock)
      (rule reads_tock_left, blast)+
qed simp

lemma reads_list_backups: "list_backups dn w = (r, w') \<Longrightarrow> reads w w'"
  by (auto simp: list_backups_def Let_def dest!: os_read_dir_tock reads_list_entries
      split: prod.splits sum.splits if_splits dest: reads_left intro!: reads_right)

lemma reads_read_exclusions_file: "read_exclusions_file p w = (r, w') \<Longrightarrow> w' = tock w"
  by (auto simp: read_exclusions_file_def dest!: os_read_file_tock split: prod.splits sum.splits if_splits)

lemma reads_read_ip_rules_file: "read_ip_rules_file p w = (r, w') \<Longrightarrow> w' = tock w"
  by (auto simp: read_ip_rules_file_def dest!: os_read_file_tock split: prod.splits sum.splits if_splits)

lemma read_exclusions_tock: "read_exclusions dn w = (r, w') \<Longrightarrow> w' = tock w"
  by (simp add: read_exclusions_def reads_read_exclusions_file)

lemma read_ip_rules_tock: "read_ip_rules dn w = (r, w') \<Longrightarrow> w' = tock w"
  by (simp add: read_ip_rules_def reads_read_ip_rules_file)

lemma reads_read_overlay: "read_overlay p w = (r, w') \<Longrightarrow> reads w w'"
  by (auto simp: read_overlay_def dest!: os_read_file_tock split: prod.splits sum.splits if_splits dest: reads_left intro!: reads_right)

lemma reads_count_entries: "count_entries d es n w = (r, w') \<Longrightarrow> reads w w'"
proof (induction es arbitrary: n w)
  case (Cons e es)
  obtain name x where e: "e = (name, x)" by (cases e)
  obtain ex ir dn al where n: "n = (ex, ir, dn, al)" by (cases n)
  obtain r1 w1 where 1: "read_exclusions_file (filepath_join [d, name]) w = (r1, w1)" by fastforce
  obtain r2 w2 where 2: "read_ip_rules_file (filepath_join [d, name]) w = (r2, w2)" by fastforce
  have "w1 = tock w" "w2 = tock w"
    using reads_read_exclusions_file [OF 1] reads_read_ip_rules_file [OF 2] by simp_all
  then obtain n1 v where v: "v = w \<or> v = tock w" "count_entries d es n1 v = (r, w')"
    using Cons.prems 1 2 unfolding e n by (cases r1; cases r2) (simp split: if_splits; blast)+
  from Cons.IH [OF v(2)] v(1) show ?case by (auto dest: reads_tock_left)
qed simp

lemma reads_count_overlays: "count_overlays w = (r, w') \<Longrightarrow> reads w w'"
  by (auto simp: count_overlays_def dest!: os_read_dir_tock reads_count_entries
      split: prod.splits sum.splits dest: reads_left intro!: reads_right)

lemma reads_tail_window: "tail_window m f w = (r, w') \<Longrightarrow> reads w w'"
  by (auto simp: tail_window_def dest!: file_stat_pair file_read_pair
      split: prod.splits sum.splits if_splits dest: reads_left intro!: reads_right)

lemma reads_read_lines: "read_lines pth opts n ls es w = (r, w') \<Longrightarrow> reads w w'"
proof (induction pth opts n ls es w arbitrary: r w' rule: read_lines.induct)
  case (2 pth opts n line ls es w)
  then show ?case by (auto split: if_splits option.splits intro!: reads_right dest!: reads_left)
qed simp

lemma reads_read_stream: "read_stream pth opts s es w = (r, w') \<Longrightarrow> reads w w'"
proof (induction pth opts s es w arbitrary: r w' rule: read_stream.induct)
  case (1 pth opts s es w)
  show ?case
  proof (cases "skip_ws s = []")
    case True
    with 1 show ?thesis by (simp add: read_stream.simps [of pth opts s])
  next
    case ne: False
    show ?thesis
    proof (cases "json_read_value s")
      case (Val v t)
      show ?thesis
      proof (cases "dec_audit_line v no_line")
        case None
        with Val ne 1(3) show ?thesis by (auto simp: read_stream.simps [of pth opts s])
      next
        case (Some l)
        show ?thesis
        proof (cases "entry_from_line (ulower w) l")
          case None
          with 1(1) [OF ne Val Some None] Val ne Some 1(3) show ?thesis
            by (auto simp: read_stream.simps [of pth opts s] intro!: reads_right dest!: reads_left)
        next
          case e: (Some e)
          with 1(2) [OF ne Val Some e] Val ne Some 1(3) show ?thesis
            by (auto simp: read_stream.simps [of pth opts s])
        qed
      qed
    qed (use ne 1(3) in \<open>auto simp: read_stream.simps [of pth opts s]\<close>)
  qed
qed

lemma reads_logs_read: "logs_read pth opts w = (r, w') \<Longrightarrow> reads w w'"
  by (auto simp: logs_read_def Let_def dest!: os_open_tock reads_tail_window reads_read_lines reads_read_stream
      split: prod.splits sum.splits if_splits dest: reads_left) (blast intro: reads_trans reads_tock_left)+

lemma reads_load_logs: "load_logs q w = (r, w') \<Longrightarrow> reads w w'"
  by (auto simp: load_logs_def Let_def dest!: reads_logs_read split: prod.splits sum.splits
      intro!: reads_right dest!: reads_left)

lemma reads_scan_sites: "scan_sites w = (r, w') \<Longrightarrow> reads w w'"
  by (auto simp: scan_sites_def dest!: reads_scan split: prod.splits sum.splits
      intro!: reads_right dest!: reads_left)

lemma reads_add_logs: "add_logs tab q d w = (r, w') \<Longrightarrow> reads w w'"
  by (auto simp: add_logs_def split: if_splits prod.splits option.splits dest!: reads_load_logs)

lemma reads_add_site: "add_site d w = (r, w') \<Longrightarrow> reads w w'"
  by (auto simp: add_site_def Let_def split: option.splits prod.splits
      dest!: reads_read_overlay read_exclusions_tock read_ip_rules_tock intro!: reads_right)
    (blast intro: reads_trans)

lemma reads_add_snapshots: "add_snapshots tab d w = (r, w') \<Longrightarrow> reads w w'"
  by (auto simp: add_snapshots_def split: option.splits prod.splits sum.splits if_splits
      dest!: reads_list_backups intro!: reads_right)

lemma reads_build_page_data: "build_page_data rq tab sites w = (r, w') \<Longrightarrow> reads w w'"
  by (auto simp: build_page_data_def Let_def split: prod.splits
      dest!: reads_add_logs reads_add_site reads_add_snapshots reads_count_overlays) (blast intro: reads_trans)

lemma reads_handle_index: "handle_index rq r w = (r', w') \<Longrightarrow> reads w w'"
  by (auto simp: handle_index_def Let_def split: prod.splits if_splits
      dest!: reads_scan_sites reads_build_page_data intro!: reads_right) (blast intro: reads_trans)+

lemma reads_handle_login_page: "handle_login_page rq r w = (r', w') \<Longrightarrow> reads w w'"
  by (auto simp: handle_login_page_def Let_def split: prod.splits if_splits intro!: reads_right)

lemma handle_login_log:
  "handle_login rq r w = (r', w') \<Longrightarrow> w' = w \<or> w' = log_append (Warn ''login rejected'' [h_remote rq]) w"
  by (auto simp: handle_login_def split: prod.splits bool.splits)

lemma reads_handle_list_backups: "handle_list_backups args rq r w = (r', w') \<Longrightarrow> reads w w'"
  by (auto simp: handle_list_backups_def split: prod.splits sum.splits dest!: reads_list_backups)

subsection \<open>Steps that change the configuration\<close>

text \<open>A run of a public operation, after at most one read, or the rejection of a snapshot's name.\<close>

definition config_step :: "string \<Rightarrow> string \<Rightarrow> ('a) world_scheme \<Rightarrow> ('a) world_scheme \<Rightarrow> bool" where
  "config_step dn ip w w' \<longleftrightarrow>
     (\<exists>v ty f res. (v = w \<or> v = tock w) \<and> public_entry dn ip ty f \<and> f v = (res, w'))
     \<or> (\<exists>sid e. w' = log_action ''rollback_failed'' dn sid [] ip (Text [] [e]) w) \<or> w' = w \<or> w' = tock w"

lemma config_step_entry: "public_entry dn ip ty f \<Longrightarrow> f w = (res, w') \<Longrightarrow> config_step dn ip w w'"
  unfolding config_step_def by blast

lemma config_step_tock: "public_entry dn ip ty f \<Longrightarrow> f (tock w) = (res, w') \<Longrightarrow> config_step dn ip w w'"
  unfolding config_step_def by blast

lemma config_step_rollback: "rollback dn sid ip w = (res, w') \<Longrightarrow> config_step dn ip w w'"
proof (cases "backup_type sid")
  case (Inl e)
  moreover assume "rollback dn sid ip w = (res, w')"
  ultimately show ?thesis by (auto simp: rollback_def config_step_def split: option.splits)
next
  case (Inr ty)
  moreover assume "rollback dn sid ip w = (res, w')"
  ultimately show ?thesis by (rule config_step_entry [OF public_entry.rollback])
qed

lemma config_step_same [simp]: "config_step dn ip w w" "config_step dn ip w (tock w)"
  by (simp_all add: config_step_def)

lemma config_step_stays:
  assumes "config_step dn ip w w'" "fs_wf w"
  shows "cwd w' = cwd w" "env w' = env w" "ulower w' = ulower w" "fs_wf w'" "world.more w' = world.more w"
proof -
  have *: "\<exists>S. stays w w' S"
  proof -
    consider v ty f res where "v = w \<or> v = tock w" "public_entry dn ip ty f" "f v = (res, w')"
      | "stays w w' {}"
      using assms(1) unfolding config_step_def by fastforce
    then show ?thesis
    proof cases
      case 1
      then have "fs_wf v" using assms(2) by auto
      with entry_outcome [OF 1(2) _ 1(3)] have "stays v w' (chain_paths v ty dn)" by simp
      with 1(1) show ?thesis by auto
    qed blast
  qed
  then show "cwd w' = cwd w" "env w' = env w" "ulower w' = ulower w" "fs_wf w'" "world.more w' = world.more w"
    using assms(2) by (auto simp: stays_def)
qed

lemmas config_splits = prod.splits sum.splits option.splits if_splits

lemma config_set_mode: "handle_set_mode args rq r w = (r', w') \<Longrightarrow> config_step (path_domain args) (ui_client_ip rq) w w'"
  by (auto simp: handle_set_mode_def split: config_splits dest: config_step_entry [OF public_entry.waf_mode])

lemma config_set_exclusions:
  "handle_set_exclusions args rq r w = (r', w') \<Longrightarrow> config_step (path_domain args) (ui_client_ip rq) w w'"
  by (auto simp: handle_set_exclusions_def split: config_splits dest: config_step_entry [OF public_entry.exclusions])

lemma config_set_ip_rules:
  "handle_set_ip_rules args rq r w = (r', w') \<Longrightarrow> config_step (path_domain args) (ui_client_ip rq) w w'"
  by (auto simp: handle_set_ip_rules_def split: config_splits dest: config_step_entry [OF public_entry.ip_rules])

lemma config_rollback: "handle_rollback args rq r w = (r', w') \<Longrightarrow> config_step (path_domain args) (ui_client_ip rq) w w'"
  by (auto simp: handle_rollback_def split: config_splits dest: config_step_rollback)

lemma config_form_set_mode: "handle_form_set_mode args rq r w = (r', w') \<Longrightarrow> config_step (path_domain args) (h_remote rq) w w'"
  by (auto simp: handle_form_set_mode_def split: prod.splits dest: config_step_entry [OF public_entry.waf_mode])

lemma config_form_add_exclusion:
  "handle_form_add_exclusion args rq r w = (r', w') \<Longrightarrow> config_step (path_domain args) (h_remote rq) w w'"
  by (auto simp: handle_form_add_exclusion_def Let_def split: config_splits
      dest!: read_exclusions_tock dest: config_step_tock [OF public_entry.exclusions])

lemma config_form_add_ip_rule:
  "handle_form_add_ip_rule args rq r w = (r', w') \<Longrightarrow> config_step (path_domain args) (h_remote rq) w w'"
  by (auto simp: handle_form_add_ip_rule_def Let_def split: config_splits
      dest!: read_ip_rules_tock dest: config_step_tock [OF public_entry.ip_rules])

lemma config_form_rollback: "handle_form_rollback args rq r w = (r', w') \<Longrightarrow> config_step (path_domain args) (h_remote rq) w w'"
  by (auto simp: handle_form_rollback_def split: prod.splits dest: config_step_rollback)

lemmas config_handlers = config_set_mode config_set_exclusions config_set_ip_rules config_rollback
  config_form_set_mode config_form_add_exclusion config_form_add_ip_rule config_form_rollback

subsection \<open>Routing\<close>

lemma find_route_Some:
  "find_route table m segs = Some ((pm, ps), h, args) \<Longrightarrow>
     ((pm, ps), h) \<in> set table \<and> method_ok pm m \<and> match_segs ps segs = Some args"
  by (induction table m segs rule: find_route.induct) (auto split: option.splits if_splits)

lemma mux_route_Found:
  "mux_route table rq = Found h args \<Longrightarrow> \<exists>pm ps. ((pm, ps), h) \<in> set table \<and> method_ok pm (h_method rq)"
  by (auto simp: mux_route_def Let_def split: if_splits option.splits prod.splits dest!: find_route_Some)

text \<open>A mux either answers itself, with a redirect or an error, or calls a handler of its table.\<close>

definition mux_answer :: "hreq \<Rightarrow> 'p hres \<Rightarrow> 'p hres \<Rightarrow> bool" where
  "mux_answer rq r r' \<longleftrightarrow>
     (\<exists>url. r' = http_redirect rq url 307 r)
     \<or> (\<exists>ms. r' = http_error ''Method Not Allowed'' 405 (set_header ''Allow'' (join '', '' ms) r))
     \<or> r' = http_error ''404 page not found'' 404 r"

lemma serve_mux_cases:
  assumes "serve_mux table rq r w = (r', w')"
  obtains (own) "w' = w" "mux_answer rq r r'"
  | (found) pm ps h args where "((pm, ps), h) \<in> set table" "method_ok pm (h_method rq)" "h args rq r w = (r', w')"
proof (cases "mux_route table rq")
  case (Found h args)
  then show ?thesis using assms mux_route_Found [OF Found] found by (auto simp: serve_mux_def)
qed (use assms own in \<open>auto simp: serve_mux_def mux_answer_def\<close>)

lemma patterns [simp]:
  "pattern_of ''PUT /api/sites/{domain}/mode'' = (''PUT'', [Lit ''api'', Lit ''sites'', Wild, Lit ''mode''])"
  "pattern_of ''PUT /api/sites/{domain}/exclusions'' = (''PUT'', [Lit ''api'', Lit ''sites'', Wild, Lit ''exclusions''])"
  "pattern_of ''PUT /api/sites/{domain}/iprules'' = (''PUT'', [Lit ''api'', Lit ''sites'', Wild, Lit ''iprules''])"
  "pattern_of ''GET /api/sites/{domain}/backups'' = (''GET'', [Lit ''api'', Lit ''sites'', Wild, Lit ''backups''])"
  "pattern_of ''POST /api/sites/{domain}/rollback'' = (''POST'', [Lit ''api'', Lit ''sites'', Wild, Lit ''rollback''])"
  "pattern_of ''POST /sites/{domain}/mode'' = (''POST'', [Lit ''sites'', Wild, Lit ''mode''])"
  "pattern_of ''POST /sites/{domain}/exclusions'' = (''POST'', [Lit ''sites'', Wild, Lit ''exclusions''])"
  "pattern_of ''POST /sites/{domain}/iprules'' = (''POST'', [Lit ''sites'', Wild, Lit ''iprules''])"
  "pattern_of ''POST /sites/{domain}/rollback'' = (''POST'', [Lit ''sites'', Wild, Lit ''rollback''])"
  "pattern_of ''POST /logout'' = (''POST'', [Lit ''logout''])"
  "pattern_of ''GET /'' = (''GET'', [Multi])"
  "pattern_of ''GET /login'' = (''GET'', [Lit ''login''])"
  "pattern_of ''POST /login'' = (''POST'', [Lit ''login''])"
  "pattern_of ''/login'' = ([], [Lit ''login''])" "pattern_of ''/static/'' = ([], [Lit ''static'', Multi])"
  "pattern_of ''/api/'' = ([], [Lit ''api'', Multi])" "pattern_of ''/health'' = ([], [Lit ''health''])"
  "pattern_of ''/'' = ([], [Multi])"
  by code_simp+

lemma method_ok_simps [simp]:
  "method_ok [] m" "method_ok ''PUT'' m \<longleftrightarrow> m = ''PUT''" "method_ok ''POST'' m \<longleftrightarrow> m = ''POST''"
  "method_ok ''GET'' m \<longleftrightarrow> m = ''GET'' \<or> m = ''HEAD''"
  by (auto simp: method_ok_def)

text \<open>The response the handlers behind the security headers start from.\<close>

definition secured :: "hreq \<Rightarrow> 'p hres" where
  "secured rq = fst (security_headers (\<lambda>rq r w. (r, w)) rq no_response ())"

lemma security_headers_secured: "security_headers h rq no_response w = h rq (secured rq) w"
  by (simp add: secured_def security_headers_def Let_def)

lemma secured_fields [simp]: "hs_status (secured rq) = None" "hs_cookies (secured rq) = []" "hs_chunks (secured rq) = []"
  by (simp_all add: secured_def security_headers_def Let_def no_response_def)

lemma serve_cases:
  assumes "serve rq w = (r', w')"
  obtains (own) "w' = w" "mux_answer rq (secured rq) r'"
  | (login) "ratelimit_login new_login_mux rq (secured rq) w = (r', w')"
  | (static) "strip_static rq (secured rq) w = (r', w')"
  | (api) "api_group rq (secured rq) w = (r', w')"
  | (health) "health_handler rq (secured rq) w = (r', w')"
  | (pages) "pages_group rq (secured rq) w = (r', w')"
proof -
  note s = assms [unfolded serve_def build_handler_def security_headers_secured]
  show thesis
    by (rule serve_mux_cases [OF s]) (auto simp: no_args_def intro: own login static api health pages)
qed

subsection \<open>Quiet steps of the server\<close>

text \<open>A quiet step passes time, logs no audit event and updates limiters; everything else stays.\<close>

definition quiet :: "('a) server_scheme \<Rightarrow> ('a) server_scheme \<Rightarrow> bool" where
  "quiet w w' \<longleftrightarrow> (\<exists>t ls lc lg ac. list_all (\<lambda>l. \<not> is_audit l) ls \<and>
     w' = w\<lparr>tick := t, slog := slog w @ ls, sv_login_client := lc, sv_login_global := lg, sv_api_client := ac\<rparr>)"

lemma quiet_reads: "reads w w' \<Longrightarrow> quiet w w'"
proof -
  assume "reads w w'"
  then obtain t ls where "w' = w\<lparr>tick := t, slog := slog w @ ls\<rparr>" "list_all (\<lambda>l. \<not> is_audit l) ls"
    by (auto simp: reads_def list_all_iff)
  then show "quiet w w'"
    unfolding quiet_def by (intro exI [of _ t] exI [of _ ls] exI [of _ "sv_login_client w"]
        exI [of _ "sv_login_global w"] exI [of _ "sv_api_client w"]) simp
qed

lemma quiet_refl [simp]: "quiet w w"
  by (simp add: quiet_reads)

lemma quietI:
  "list_all (\<lambda>l. \<not> is_audit l) ls \<Longrightarrow> quiet w (w\<lparr>tick := t, slog := slog w @ ls, sv_login_client := lc,
     sv_login_global := lg, sv_api_client := ac\<rparr>)"
  unfolding quiet_def by blast

lemma quiet_trans: "quiet w w' \<Longrightarrow> quiet w' w'' \<Longrightarrow> quiet w w''"
proof (unfold quiet_def [of w w'] quiet_def [of w' w''], elim exE conjE)
  fix t ls lc lg ac t' ls' lc' lg' ac'
  assume "list_all (\<lambda>l. \<not> is_audit l) ls" "list_all (\<lambda>l. \<not> is_audit l) ls'"
    and "w' = w\<lparr>tick := t, slog := slog w @ ls, sv_login_client := lc, sv_login_global := lg, sv_api_client := ac\<rparr>"
    and "w'' = w'\<lparr>tick := t', slog := slog w' @ ls', sv_login_client := lc', sv_login_global := lg', sv_api_client := ac'\<rparr>"
  with quietI [where ls = "ls @ ls'" and w = w and t = t' and lc = lc' and lg = lg' and ac = ac'] show "quiet w w''" by simp
qed

lemma quiet_limiters [simp]:
  "quiet w (w\<lparr>sv_login_client := lc\<rparr>)" "quiet w (w\<lparr>sv_login_global := lg\<rparr>)" "quiet w (w\<lparr>sv_api_client := ac\<rparr>)"
proof -
  have "\<exists>t ls lc' lg ac. list_all (\<lambda>l. \<not> is_audit l) ls \<and> w\<lparr>sv_login_client := lc\<rparr> =
      w\<lparr>tick := t, slog := slog w @ ls, sv_login_client := lc', sv_login_global := lg, sv_api_client := ac\<rparr>"
    by (intro exI [of _ "tick w"] exI [of _ "[]"] exI [of _ lc] exI [of _ "sv_login_global w"] exI [of _ "sv_api_client w"]) simp
  moreover have "\<exists>t ls lc lg' ac. list_all (\<lambda>l. \<not> is_audit l) ls \<and> w\<lparr>sv_login_global := lg\<rparr> =
      w\<lparr>tick := t, slog := slog w @ ls, sv_login_client := lc, sv_login_global := lg', sv_api_client := ac\<rparr>"
    by (intro exI [of _ "tick w"] exI [of _ "[]"] exI [of _ "sv_login_client w"] exI [of _ lg] exI [of _ "sv_api_client w"]) simp
  moreover have "\<exists>t ls lc lg ac'. list_all (\<lambda>l. \<not> is_audit l) ls \<and> w\<lparr>sv_api_client := ac\<rparr> =
      w\<lparr>tick := t, slog := slog w @ ls, sv_login_client := lc, sv_login_global := lg, sv_api_client := ac'\<rparr>"
    by (intro exI [of _ "tick w"] exI [of _ "[]"] exI [of _ "sv_login_client w"] exI [of _ "sv_login_global w"] exI [of _ ac]) simp
  ultimately show "quiet w (w\<lparr>sv_login_client := lc\<rparr>)" "quiet w (w\<lparr>sv_login_global := lg\<rparr>)" "quiet w (w\<lparr>sv_api_client := ac\<rparr>)"
    unfolding quiet_def by blast+
qed

lemma quiet_log: "\<not> is_audit l \<Longrightarrow> quiet w (log_append l w)"
  using quietI [where ls = "[l]" and w = w and t = "tick w" and lc = "sv_login_client w"
      and lg = "sv_login_global w" and ac = "sv_api_client w"]
  by (simp add: log_append_def)

lemma quiet_fields:
  assumes "quiet w w'"
  shows "tree w' = tree w" "cwd w' = cwd w" "env w' = env w" "ulower w' = ulower w" "clock w' = clock w"
    "audits w' = audits w" "sent w' = sent w" "last_readback w' = last_readback w" "net w' = net w"
    "sv_rd w' = sv_rd w" "sv_mac w' = sv_mac w" "sv_assets w' = sv_assets w" "server.more w' = server.more w"
proof -
  obtain t ls lc lg ac where l: "list_all (\<lambda>l. \<not> is_audit l) ls" and
    w: "w' = w\<lparr>tick := t, slog := slog w @ ls, sv_login_client := lc, sv_login_global := lg, sv_api_client := ac\<rparr>"
    using assms unfolding quiet_def by blast
  have "List.map_filter (\<lambda>l. case l of Audit e \<Rightarrow> Some e | _ \<Rightarrow> None) ls = []"
    using l by (induction ls) (auto simp: List.map_filter_def is_audit_def split: log_line.splits)
  then show "tree w' = tree w" "cwd w' = cwd w" "env w' = env w" "ulower w' = ulower w" "clock w' = clock w"
    "audits w' = audits w" "sent w' = sent w" "last_readback w' = last_readback w" "net w' = net w"
    "sv_rd w' = sv_rd w" "sv_mac w' = sv_mac w" "sv_assets w' = sv_assets w" "server.more w' = server.more w"
    by (simp_all add: w audits_def map_filter_snoc)
qed

lemma reads_bucket_allow: "bucket_allow rd b w = (r, b', w') \<Longrightarrow> reads w w'"
  by (auto simp: bucket_allow_def time_now_def Let_def split: prod.splits)

lemma reads_client_allow: "client_allow rd k c w = (r, c', w') \<Longrightarrow> reads w w'"
  by (auto simp: client_allow_def time_now_def Let_def dest!: reads_bucket_allow
      split: prod.splits option.splits intro: reads_tock_left)

text \<open>A limiter either answers itself or hands over after a quiet step.\<close>

lemma ratelimit_api_cases:
  assumes "ratelimit_api h rq r w = (r', w')"
  obtains (limited) retry where "quiet w w'" "r' = too_many_requests retry r"
    | (passed) v where "quiet w v" "h rq r v = (r', w')"
proof -
  obtain ok retry c w1 where a: "client_allow (sv_rd w) (client_ip (h_remote rq)) (sv_api_client w) w = ((ok, retry), c, w1)"
    by (metis surj_pair)
  have "quiet w (w1\<lparr>sv_api_client := c\<rparr>)"
    using quiet_trans [OF quiet_reads [OF reads_client_allow [OF a]] quiet_limiters(3)] .
  with assms a limited passed show thesis by (auto simp: ratelimit_api_def Let_def split: if_splits)
qed

lemma ratelimit_login_cases:
  assumes "ratelimit_login h rq r w = (r', w')"
  obtains (limited) retry where "quiet w w'" "r' = too_many_requests retry r"
    | (passed) v where "quiet w v" "h rq r v = (r', w')"
proof (cases "h_method rq = ''POST''")
  case False
  with assms show thesis by (intro passed [of w]) (simp_all add: ratelimit_login_def)
next
  case True
  obtain ok retry c w1 where a: "client_allow (sv_rd w) (client_ip (h_remote rq)) (sv_login_client w) w = ((ok, retry), c, w1)"
    by (metis surj_pair)
  let ?w2 = "w1\<lparr>sv_login_client := c\<rparr>"
  have q2: "quiet w ?w2"
    using quiet_trans [OF quiet_reads [OF reads_client_allow [OF a]] quiet_limiters(1)] .
  obtain ok2 retry2 b w3 where b: "bucket_allow (sv_rd ?w2) (sv_login_global ?w2) ?w2 = ((ok2, retry2), b, w3)"
    by (metis surj_pair)
  have "quiet w (w3\<lparr>sv_login_global := b\<rparr>)"
    using quiet_trans [OF q2 quiet_trans [OF quiet_reads [OF reads_bucket_allow [OF b]] quiet_limiters(2)]] .
  with assms a b q2 True limited passed show thesis by (auto simp: ratelimit_login_def Let_def split: if_splits)
qed

subsection \<open>Who reaches a handler\<close>

lemma token_matches_env: "env v = env w \<Longrightarrow> token_matches v = token_matches w"
  by (rule ext) (simp add: token_matches_def token_from_env_def)

text \<open>The CSRF check passes: a bearer token, or the form field derived from the secret.\<close>

definition csrf_passed :: "('a) server_scheme \<Rightarrow> hreq \<Rightarrow> bool" where
  "csrf_passed w rq \<longleftrightarrow> token_matches w (bearer_token rq)
     \<or> token_from_env w \<noteq> [] \<and> form_value rq ''csrf'' = sv_mac w (token_from_env w) csrf_context"

lemma csrf_middleware_cases:
  assumes "csrf_middleware h rq r w = (r', w')"
  obtains (forbidden) "w' = w" "r' = write_header 403 r"
  | (passed) "h_method rq \<in> {''GET'', ''HEAD'', ''OPTIONS''} \<or> csrf_passed w rq" "h rq r w = (r', w')"
  using assms by (auto simp: csrf_middleware_def csrf_passed_def csrf_value_def Let_def split: if_splits)

lemma new_pages_mux_cases:
  assumes "new_pages_mux rq r w = (r', w')"
  obtains (own) "w' = w" "mux_answer rq r r'"
  | (index) "h_method rq \<in> {''GET'', ''HEAD''}" "handle_index rq r w = (r', w')"
  | (logout) "h_method rq = ''POST''" "handle_logout rq r w = (r', w')"
  | (change) args where "h_method rq = ''POST''" "config_step (path_domain args) (h_remote rq) w w'"
proof -
  show thesis
    by (rule serve_mux_cases [OF assms [unfolded new_pages_mux_def]])
      (auto simp: no_args_def dest!: config_handlers intro: own index logout change)
qed

lemma new_router_cases:
  assumes "new_router rq r w = (r', w')"
  obtains (own) "w' = w" "mux_answer rq r r'"
  | (listing) args where "handle_list_backups args rq r w = (r', w')"
  | (change) args where "h_method rq \<in> {''PUT'', ''POST''}" "config_step (path_domain args) (ui_client_ip rq) w w'"
proof -
  show thesis
    by (rule serve_mux_cases [OF assms [unfolded new_router_def]])
      (auto dest!: config_handlers intro: own listing change)
qed

lemma quiet_request: "quiet w v \<Longrightarrow> quiet w (log_request a b c d v)"
  using quiet_trans [OF _ quiet_reads [OF reads_log_simps(3)]] .

lemma handle_logout_quiet: "handle_logout rq r w = (r', w') \<Longrightarrow> quiet w w'"
  by (simp add: handle_logout_def)

lemma pages_group_cases:
  assumes "pages_group rq r w = (r', w')"
  obtains (redirected) "\<not> has_valid_session w rq" "w' = w" "r' = http_redirect rq ''/login'' 302 r"
  | (quiet) "has_valid_session w rq" "quiet w w'"
  | (change) v dn c where "has_valid_session w rq" "h_method rq = ''POST''" "csrf_passed w rq"
      "config_step dn (h_remote rq) w v" "w' = log_request (h_method rq) (url_path rq) (h_remote rq) c v"
proof (cases "has_valid_session w rq")
  case False
  with assms have "w' = w" "r' = http_redirect rq ''/login'' 302 r"
    by (simp_all add: pages_group_def session_middleware_def)
  with False show thesis by (intro redirected)
next
  case True
  obtain r1 w1 where 1: "csrf_middleware new_pages_mux rq r w = (r1, w1)" by fastforce
  have w': "w' = log_request (h_method rq) (url_path rq) (h_remote rq) (final_status r1) w1"
    using assms True 1 by (auto simp: pages_group_def session_middleware_def request_logger_def)
  show thesis
  proof (rule csrf_middleware_cases [OF 1], goal_cases)
    case 1
    then show thesis using True w' by (intro quiet) (simp_all add: quiet_request)
  next
    case 2
    note q = quiet [OF True]
    show thesis
    proof (rule new_pages_mux_cases [OF 2(2)], goal_cases)
      case 1
      then show thesis using w' by (intro q) (simp add: quiet_request)
    next
      case 2
      then show thesis unfolding w' by (intro q [unfolded w'] quiet_request quiet_reads reads_handle_index)
    next
      case 3
      then show thesis unfolding w' by (intro q [unfolded w'] quiet_request handle_logout_quiet)
    next
      case (4 args)
      then show thesis using 2(1) by (intro change [OF True _ _ _ w']) auto
    qed
  qed
qed

lemma api_group_cases:
  assumes "api_group rq r w = (r', w')"
  obtains (limited) retry where "quiet w w'" "r' = too_many_requests retry r"
  | (refused) "quiet w w'" "r' = write_header 401 r"
  | (quiet) "token_matches w (bearer_token rq)" "quiet w w'"
  | (change) v v1 dn c where "token_matches w (bearer_token rq)" "h_method rq \<in> {''PUT'', ''POST''}" "quiet w v"
      "config_step dn (ui_client_ip rq) v v1" "w' = log_request (h_method rq) (url_path rq) (h_remote rq) c v1"
proof -
  note lim = limited
  show thesis
  proof (rule ratelimit_api_cases [OF assms [unfolded api_group_def]], goal_cases)
    case (1 retry)
    then show thesis by (rule lim)
  next
    case (2 v)
    note tok = token_matches_env [OF quiet_fields(3) [OF 2(1)]]
    have qv: "quiet w v" by (rule 2(1))
    show thesis
    proof (cases "token_matches w (bearer_token rq)")
      case False
      with 2 tok refused show thesis by (simp add: bearer_middleware_def)
    next
      case True
      obtain r1 w1 where 1: "new_router rq r v = (r1, w1)" by fastforce
      have w': "w' = log_request (h_method rq) (url_path rq) (h_remote rq) (final_status r1) w1"
        using 2 True 1 tok by (auto simp: bearer_middleware_def request_logger_def)
      show thesis
      proof (rule new_router_cases [OF 1], goal_cases)
        case 1
        then show thesis unfolding w' using qv by (intro quiet [unfolded w', OF True] quiet_request) simp
      next
        case (2 args)
        from quiet_trans [OF qv quiet_reads [OF reads_handle_list_backups [OF 2]]]
        show thesis unfolding w' by (intro quiet [unfolded w', OF True] quiet_request)
      next
        case (3 args)
        then show thesis using qv by (intro change [OF True _ _ _ w']) auto
      qed
    qed
  qed
qed

lemma strip_static_same: "strip_static rq r w = (r', w') \<Longrightarrow> w' = w"
  by (auto simp: strip_static_def static_handler_def file_server_def split: if_splits)

lemma new_login_mux_cases:
  assumes "new_login_mux rq r w = (r', w')"
  obtains (own) "w' = w" "mux_answer rq r r'"
  | (form) "h_method rq \<in> {''GET'', ''HEAD''}" "handle_login_page rq r w = (r', w')"
  | (login) "h_method rq = ''POST''" "handle_login rq r w = (r', w')"
proof -
  show thesis
    by (rule serve_mux_cases [OF assms [unfolded new_login_mux_def]])
      (auto simp: no_args_def intro: own form login)
qed

lemma login_group_quiet:
  assumes "ratelimit_login new_login_mux rq r w = (r', w')"
  shows "quiet w w'"
proof (rule ratelimit_login_cases [OF assms], goal_cases)
  case (2 v)
  have "quiet v w'"
    by (rule new_login_mux_cases [OF 2(2)])
      (auto intro: quiet_reads reads_handle_login_page dest!: handle_login_log simp: quiet_log is_audit_def)
  with 2(1) show ?case by (rule quiet_trans)
qed

text \<open>The credentials a change needs.\<close>

definition may_change :: "('a) server_scheme \<Rightarrow> hreq \<Rightarrow> bool" where
  "may_change w rq \<longleftrightarrow> h_method rq \<in> {''PUT'', ''POST''} \<and>
     (token_matches w (bearer_token rq)
      \<or> h_method rq = ''POST'' \<and> (\<exists>v. cookie_of rq session_cookie_name = Some v \<and> token_matches w v)
        \<and> token_from_env w \<noteq> [] \<and> form_value rq ''csrf'' = sv_mac w (token_from_env w) csrf_context)"

text \<open>Every answer of the server is quiet, or a configuration step between quiet ones by a client with credentials.\<close>

lemma serve_step_cases:
  assumes "serve rq w = (r', w')"
  obtains (quiet) "quiet w w'"
  | (change) v v1 dn ip l where "may_change w rq" "quiet w v" "config_step dn ip v v1" "w' = log_append l v1" "\<not> is_audit l"
proof -
  show thesis
  proof (rule serve_cases [OF assms], goal_cases)
    case (1)
    then show ?case by (intro quiet) simp
  next
    case 2
    then show ?case by (intro quiet login_group_quiet)
  next
    case 3
    then show ?case using strip_static_same [OF 3] by (intro quiet) simp
  next
    case 4
    show ?case
    proof (rule api_group_cases [OF 4], goal_cases)
      case (4 v v1 dn c)
      then show ?case by (intro change [of v dn "ui_client_ip rq" v1 "Request (h_method rq) (url_path rq) (h_remote rq) c"])
        (auto simp: may_change_def log_request_def is_audit_def)
    qed (auto intro: quiet)
  next
    case 5
    then show ?case by (intro quiet) (simp add: health_handler_def)
  next
    case 6
    show ?case
    proof (rule pages_group_cases [OF 6], goal_cases)
      case (3 v dn c)
      then show ?case by (intro change [of w dn "h_remote rq" v "Request (h_method rq) (url_path rq) (h_remote rq) c"])
        (auto simp: may_change_def log_request_def is_audit_def csrf_passed_def has_valid_session_def split: option.splits)
    qed (auto intro: quiet)
  qed
qed

text \<open>C5. Nobody changes anything without credentials: a request can change a file, add an audit event,
  talk to Caddy or alter the verification state only with method PUT or POST, and with the bearer
  token, or with a session cookie carrying the token together with the CSRF value derived from it.\<close>

theorem mutation_needs_credentials:
  assumes "serve rq w = (r', w')"
    "tree w' \<noteq> tree w \<or> audits w' \<noteq> audits w \<or> sent w' \<noteq> sent w \<or> last_readback w' \<noteq> last_readback w"
  shows "h_method rq \<in> {''PUT'', ''POST''} \<and>
     (token_matches w (bearer_token rq)
      \<or> h_method rq = ''POST'' \<and> (\<exists>v. cookie_of rq session_cookie_name = Some v \<and> token_matches w v)
        \<and> form_value rq ''csrf'' = sv_mac w (token_from_env w) csrf_context)"
proof (rule serve_step_cases [OF assms(1)], goal_cases)
  case 1
  with assms(2) show ?case by (simp add: quiet_fields)
qed (auto simp: may_change_def)

definition demo_rollback :: hreq where
  "demo_rollback = (demo_request ''POST'' ''/api/sites/example.com/rollback'')\<lparr>h_body := json_text ''{~backup~:~x~}'',
     h_header := (\<lambda>k. if k = ''Authorization'' then ''Bearer s3cret'' else [])\<rparr>"

lemma demo_rollback_fields [simp]:
  "h_method demo_rollback = ''POST''" "h_path demo_rollback = ''/api/sites/example.com/rollback''"
  "h_query demo_rollback = []" "h_remote demo_rollback = ''10.0.0.9:4711''"
  "h_body demo_rollback = json_text ''{~backup~:~x~}''"
  "h_header demo_rollback k = (if k = ''Authorization'' then ''Bearer s3cret'' else [])"
  by (simp_all add: demo_rollback_def demo_request_def)

lemma demo_rollback_path:
  "clean_path ''/api/sites/example.com/rollback'' = ''/api/sites/example.com/rollback''"
  "segments ''/api/sites/example.com/rollback'' = [''api'', ''sites'', ''example.com'', ''rollback'']"
  "segments (''/api/sites/example.com/rollback'' @ ''/'') = [''api'', ''sites'', ''example.com'', ''rollback'', []]"
  "exact_match [Lit ''api'', Multi] ''/api/sites/example.com/rollback'' = False"
  "exact_match [Lit ''api'', Multi] (''/api/sites/example.com/rollback'' @ ''/'') = False"
  by code_simp+

lemma demo_api_allowed: "\<exists>b t. client_allow exact k (new_client api_per_minute api_burst) demo_server = ((True, 0), b, t)
    \<and> t = (tock ^^ 3) demo_server"
  by (simp add: client_allow_def new_client_def time_now_def prune_clients_def bucket_allow_def allow_at_def
      new_bucket_def sub_time_def Let_def rate_defs demo_time_def numeral_3_eq_3)

lemma audits_quiet_request [simp]: "audits (log_request a b c d w) = audits w"
  by (simp add: log_request_def log_append_def audits_def map_filter_snoc List.map_filter_def)

lemma serve_mux_found:
  assumes "h_method rq \<noteq> ''CONNECT''" "clean_path (h_path rq) = h_path rq"
    "find_route table (h_method rq) (segments (h_path rq)) = Some ((pm, ps), h, args)"
    "case find_route table (h_method rq) (segments (h_path rq @ ''/'')) of
       None \<Rightarrow> True | Some ((_, qs), _) \<Rightarrow> \<not> exact_match qs (h_path rq @ ''/'')"
  shows "serve_mux table rq r w = h args rq r w"
proof -
  have "mux_route table rq = Found h args"
    using assms by (auto simp: mux_route_def Let_def split: option.splits prod.splits)
  then show ?thesis by (simp add: serve_mux_def)
qed

lemma demo_rollback_served: "\<exists>v. quiet demo_server v
    \<and> snd (serve demo_rollback demo_server) =
        log_request ''POST'' ''/api/sites/example.com/rollback'' ''10.0.0.9:4711'' 400
          (snd (rollback demo_domain ''x'' ''10.0.0.9'' v))"
proof -
  let ?rq = demo_rollback
  obtain c where c: "client_allow exact ''10.0.0.9'' (new_client api_per_minute api_burst) demo_server
      = ((True, 0), c, (tock ^^ 3) demo_server)"
    using demo_api_allowed [of "''10.0.0.9''"] by blast
  define v where "v = ((tock ^^ 3) demo_server)\<lparr>sv_api_client := c\<rparr>"
  have q: "quiet demo_server v" unfolding v_def
    by (rule quiet_trans [OF quiet_reads [OF reads_client_allow [OF c]] quiet_limiters(3)])
  have ip: "client_ip ''10.0.0.9:4711'' = ''10.0.0.9''" "ui_client_ip ?rq = ''10.0.0.9''"
    "bearer_token ?rq = ''s3cret''" "url_path ?rq = ''/api/sites/example.com/rollback''" by code_simp+
  have api: "ratelimit_api h ?rq r demo_server = h ?rq r v" for h and r :: "page_data hres"
    by (simp add: ratelimit_api_def ip c v_def Let_def)
  have tok: "token_matches v ''s3cret''"
    using token_matches_env [OF quiet_fields(3) [OF q]] by (simp add: token_matches_def)
  have v0: "validate_domain ''example.com'' = None" by code_simp
  obtain e where e: "backup_type ''x'' = Inl e" "errors_is e ErrInvalidBackup" "\<not> errors_is e ErrInvalidDomain"
  proof -
    have "case backup_type ''x'' of Inl e \<Rightarrow> errors_is e ErrInvalidBackup \<and> \<not> errors_is e ErrInvalidDomain | Inr _ \<Rightarrow> False"
      by code_simp
    with that show thesis by (auto split: sum.splits)
  qed
  have b: "json_read_value (json_text ''{~backup~:~x~}'') = Val (JObj [(''backup'', JStr ''x'')]) []"
    "dec_rollback_request (JObj [(''backup'', JStr ''x'')]) \<lparr>rr_backup = []\<rparr> = Some \<lparr>rr_backup = ''x''\<rparr>" 
    "length (json_text ''{~backup~:~x~}'') < 1000" by code_simp+
  have d: "decode_json_body dec_rollback_request \<lparr>rr_backup = []\<rparr> ?rq r = Inr \<lparr>rr_backup = ''x''\<rparr>" for r :: "page_data hres"
    by (simp add: decode_json_body_def decode_short [OF b(3)] b(1,2))
  have r0: "rollback ''example.com'' ''x'' ''10.0.0.9'' v
      = (Inl e, log_action ''rollback_failed'' ''example.com'' ''x'' [] ''10.0.0.9'' (Text [] [e]) v)"
    by (simp add: rollback_def v0 e(1))
  have h: "handle_rollback [''example.com''] ?rq (secured ?rq :: page_data hres) v
      = (http_error ''Invalid configuration snapshot'' 400 (secured ?rq), snd (rollback ''example.com'' ''x'' ''10.0.0.9'' v))"
    by (simp add: handle_rollback_def d path_domain_def ip r0 e(2,3))
  have router: "new_router ?rq (secured ?rq :: page_data hres) v = handle_rollback [''example.com''] ?rq (secured ?rq) v"
    unfolding new_router_def by (rule serve_mux_found) (simp_all add: demo_rollback_path demo_rollback_path(3) [simplified])
  have "serve ?rq demo_server = api_group ?rq (secured ?rq) demo_server"
    unfolding serve_def build_handler_def security_headers_secured
    by (subst serve_mux_found [where h = "no_args api_group" and args = "[]"])
      (simp_all add: demo_rollback_path demo_rollback_path(3,5) [simplified] no_args_def)
  with q show ?thesis
    by (intro exI [of _ v]) (simp add: api_group_def api bearer_middleware_def ip tok request_logger_def router h demo_domain_def)
qed

lemma mutation_needs_credentials_witness:
  "audits (snd (serve demo_rollback demo_server)) \<noteq> [] \<and> token_matches demo_server (bearer_token demo_rollback)"
proof -
  obtain v where v: "quiet demo_server v" and s: "snd (serve demo_rollback demo_server) =
      log_request ''POST'' ''/api/sites/example.com/rollback'' ''10.0.0.9:4711'' 400
        (snd (rollback demo_domain ''x'' ''10.0.0.9'' v))"
    using demo_rollback_served by blast
  have "validate_domain demo_domain = None" "case backup_type ''x'' of Inl e \<Rightarrow> True | Inr _ \<Rightarrow> False" by code_simp+
  then have n: "audits (snd (serve demo_rollback demo_server)) \<noteq> audits demo_server"
    using quiet_fields(6) [OF v]
    by (auto simp: s rollback_def audits_quiet_request split: sum.splits)
  have p: "serve demo_rollback demo_server = (fst (serve demo_rollback demo_server), snd (serve demo_rollback demo_server))" by simp
  have "cookie_of demo_rollback session_cookie_name = None" "audits demo_server = []" by code_simp+
  with mutation_needs_credentials [OF p disjI2 [OF disjI1 [OF n]]] n show ?thesis by simp
qed

end
