(* ===== verification/Responses.thy ===== *)
theory Responses
  imports ServerProps
begin

text \<open>
  What every response of the server has, whatever handler wrote it: a property of responses that the
  operations of the response writer keep holds of the answer to every request. The property is a
  parameter of a locale, interpreted with the security headers.
\<close>

subsection \<open>Properties the response writer keeps\<close>

definition plain_headers :: "string set" where
  "plain_headers = {''Content-Type'', ''Location'', ''Allow'', ''Retry-After''}"

locale response_law =
  fixes P :: "page_data hres \<Rightarrow> bool"
  assumes plain_header: "P r \<Longrightarrow> k \<in> plain_headers \<Longrightarrow> P (set_header k v r)"
    and nosniff_header: "P r \<Longrightarrow> P (set_header ''X-Content-Type-Options'' ''nosniff'' r)"
    and cookie: "P r \<Longrightarrow> P (set_cookie c r)"
    and status: "P r \<Longrightarrow> P (write_header n r)"
    and chunk: "P r \<Longrightarrow> P (write_chunk p r)"
begin

lemma plain_headers [simp]:
  "P r \<Longrightarrow> P (set_header ''Content-Type'' v r)" "P r \<Longrightarrow> P (set_header ''Location'' v r)"
  "P r \<Longrightarrow> P (set_header ''Allow'' v r)" "P r \<Longrightarrow> P (set_header ''Retry-After'' v r)"
  by (simp_all add: plain_header plain_headers_def)

lemmas writer [simp] = nosniff_header cookie status chunk

lemma helpers [simp]:
  "P r \<Longrightarrow> P (http_error_chunk c n r)" "P r \<Longrightarrow> P (http_error s n r)" "P r \<Longrightarrow> P (http_redirect rq u n r)"
  "P r \<Longrightarrow> P (write_json n s r)" "P r \<Longrightarrow> P (redirect_after_form s rq r)" "P r \<Longrightarrow> P (after_form res rq r)"
  "P r \<Longrightarrow> P (too_many_requests k r)" "P r \<Longrightarrow> P (logout r)" "P r \<Longrightarrow> P (set_session_cookie s r)"
  "P r \<Longrightarrow> P (set_flash_cookie s r)"
  by (simp_all add: http_error_chunk_def http_error_def http_redirect_def Let_def write_json_def
      redirect_after_form_def after_form_def too_many_requests_def logout_def set_session_cookie_def
      set_flash_cookie_def split: sum.splits)

lemma mux_answer: "mux_answer rq r r' \<Longrightarrow> P r \<Longrightarrow> P r'"
  by (auto simp: mux_answer_def)

lemma decode: "decode_json_body dec z rq r = Inl r' \<Longrightarrow> P r \<Longrightarrow> P r'"
  by (auto simp: decode_json_body_def split: sum.splits if_splits)

lemma api_handlers:
  "handle_set_mode args rq r w = (r', w') \<Longrightarrow> P r \<Longrightarrow> P r'"
  "handle_set_exclusions args rq r v = (r', v') \<Longrightarrow> P r \<Longrightarrow> P r'"
  "handle_set_ip_rules args rq r u = (r', u') \<Longrightarrow> P r \<Longrightarrow> P r'"
  "handle_rollback args rq r x = (r', x') \<Longrightarrow> P r \<Longrightarrow> P r'"
  "handle_list_backups args rq r y = (r', y') \<Longrightarrow> P r \<Longrightarrow> P r'"
  by (auto simp: handle_set_mode_def handle_set_exclusions_def handle_set_ip_rules_def handle_rollback_def
      handle_list_backups_def split: config_splits dest: decode)

lemma form_handlers:
  "handle_form_set_mode args rq r w = (r', w') \<Longrightarrow> P r \<Longrightarrow> P r'"
  "handle_form_add_exclusion args rq r v = (r', v') \<Longrightarrow> P r \<Longrightarrow> P r'"
  "handle_form_add_ip_rule args rq r u = (r', u') \<Longrightarrow> P r \<Longrightarrow> P r'"
  "handle_form_rollback args rq r x = (r', x') \<Longrightarrow> P r \<Longrightarrow> P r'"
  "handle_logout rq r y = (r', y') \<Longrightarrow> P r \<Longrightarrow> P r'"
  by (auto simp: handle_form_set_mode_def handle_form_add_exclusion_def handle_form_add_ip_rule_def
      handle_form_rollback_def handle_logout_def Let_def split: config_splits)

lemma page_handlers:
  "handle_index rq r w = (r', w') \<Longrightarrow> P r \<Longrightarrow> P r'"
  "handle_login_page rq r v = (r', v') \<Longrightarrow> P r \<Longrightarrow> P r'"
  "handle_login rq r u = (r', u') \<Longrightarrow> P r \<Longrightarrow> P r'"
  by (auto simp: handle_index_def handle_login_page_def handle_login_def login_def Let_def execute_page_def
      take_flash_cookie_def split: config_splits)

lemma muxes:
  "new_pages_mux rq r w = (r', w') \<Longrightarrow> P r \<Longrightarrow> P r'"
  "new_router rq r v = (r', v') \<Longrightarrow> P r \<Longrightarrow> P r'"
  "new_login_mux rq r u = (r', u') \<Longrightarrow> P r \<Longrightarrow> P r'"
  unfolding new_pages_mux_def new_router_def new_login_mux_def
  by (erule serve_mux_cases; auto simp: no_args_def dest: mux_answer api_handlers form_handlers page_handlers)+

lemma groups:
  "ratelimit_login new_login_mux rq r w = (r', w') \<Longrightarrow> P r \<Longrightarrow> P r'"
  "api_group rq r v = (r', v') \<Longrightarrow> P r \<Longrightarrow> P r'"
  "pages_group rq r u = (r', u') \<Longrightarrow> P r \<Longrightarrow> P r'"
  "strip_static rq r x = (r', x') \<Longrightarrow> P r \<Longrightarrow> P r'"
  "health_handler rq r y = (r', y') \<Longrightarrow> P r \<Longrightarrow> P r'"
proof -
  show "P r'" if "ratelimit_login new_login_mux rq r w = (r', w')" "P r"
    using that(2) by (rule_tac ratelimit_login_cases [OF that(1)]) (auto dest: muxes)
  show "P r'" if "api_group rq r v = (r', v')" "P r"
    using that(2) by (rule_tac ratelimit_api_cases [OF that(1) [unfolded api_group_def]])
      (auto simp: bearer_middleware_def request_logger_def dest: muxes split: if_splits prod.splits)
  show "P r'" if "pages_group rq r u = (r', u')" "P r"
    using that by (auto simp: pages_group_def session_middleware_def request_logger_def
        dest: muxes elim!: csrf_middleware_cases split: if_splits prod.splits)
  show "P r'" if "strip_static rq r x = (r', x')" "P r"
    using that by (auto simp: strip_static_def static_handler_def file_server_def split: if_splits)
  show "P r'" if "health_handler rq r y = (r', y')" "P r"
    using that by (auto simp: health_handler_def)
qed

lemma answer:
  assumes "P (secured rq)"
  shows "P (fst (serve rq w))"
proof -
  obtain r' w' where s: "serve rq w = (r', w')" by fastforce
  have "P r'" by (rule serve_cases [OF s]) (erule mux_answer groups, rule assms)+
  then show ?thesis by (simp add: s)
qed

end

subsection \<open>Security headers\<close>

text \<open>The headers \<open>static.go\<close> promises; strict transport security for requests that came over TLS.\<close>

definition headers_secure :: "hreq \<Rightarrow> page_data hres \<Rightarrow> bool" where
  "headers_secure rq r \<longleftrightarrow>
     map_of (hs_headers r) ''Content-Security-Policy'' = Some security_policy
     \<and> map_of (hs_headers r) ''X-Content-Type-Options'' = Some ''nosniff''
     \<and> map_of (hs_headers r) ''Referrer-Policy'' = Some ''no-referrer''
     \<and> map_of (hs_headers r) ''Strict-Transport-Security'' =
         (if equal_fold ''https'' (h_header rq ''X-Forwarded-Proto'') then Some ''max-age=31536000'' else None)"

interpretation secure_headers: response_law "headers_secure rq"
  by unfold_locales (auto simp: headers_secure_def plain_headers_def simp del: equal_fold.simps)

text \<open>C39. Every answer carries the security headers, whichever handler, middleware, limiter or mux wrote
  it: the policy that allows the page's own resources only, no sniffing, no referrer, and strict
  transport security exactly for requests forwarded from TLS.\<close>

theorem every_answer_secure:
  "headers_secure rq (fst (serve rq w))"
proof (rule secure_headers.answer)
  show "headers_secure rq (secured rq)"
    by (simp add: headers_secure_def secured_def security_headers_def Let_def del: equal_fold.simps)
      (simp add: no_response_def)
qed

subsection \<open>What a stranger sees\<close>

text \<open>
  The body parts that tell nothing: the fixed texts, redirect notes, assets, and the login page with
  nothing in it but a flash message.
\<close>

definition public_texts :: "string list" where
  "public_texts = json_text ''{~status~:~ok~}''
     # map (\<lambda>s. s @ [nl]) [''404 page not found'', ''Method Not Allowed'', ''too many requests, retry later'']"

definition public_chunk :: "page_data chunk \<Rightarrow> bool" where
  "public_chunk c =
     (case c of
        Bytes s \<Rightarrow> s \<in> set public_texts
      | RedirectNote _ \<Rightarrow> True
      | Asset _ \<Rightarrow> True
      | Rendered page d \<Rightarrow> page = ''login'' \<and> d\<lparr>pd_flash := [], pd_flash_type := []\<rparr> = no_page_data
      | _ \<Rightarrow> False)"

text \<open>A session cookie is only for a client that just gave the token.\<close>

definition public_response :: "('a) server_scheme \<Rightarrow> hreq \<Rightarrow> page_data hres \<Rightarrow> bool" where
  "public_response w rq r \<longleftrightarrow> list_all public_chunk (hs_chunks r)
     \<and> list_all (\<lambda>ck. ck_name ck = session_cookie_name \<longrightarrow>
         h_method rq = ''POST'' \<and> token_matches w (form_value rq ''token'')) (hs_cookies r)"

lemma public_writer [simp]:
  "public_response w rq (set_header k v r) = public_response w rq r"
  "public_response w rq (write_header n r) = public_response w rq r"
  "public_response w rq (write_chunk p r) = (public_chunk p \<and> public_response w rq r)"
  by (auto simp: public_response_def)

lemma public_chunk_simps [simp]:
  "public_chunk (Bytes s) = (s \<in> set public_texts)" "public_chunk (RedirectNote u)" "public_chunk (Asset a)"
  by (simp_all add: public_chunk_def)

lemma public_redirect [simp]: "public_response w rq (http_redirect rq' u n r) = public_response w rq r"
  by (simp add: http_redirect_def Let_def)

lemma public_error [simp]: "public_response w rq (http_error s n r) = (s @ [nl] \<in> set public_texts \<and> public_response w rq r)"
  by (simp add: http_error_def http_error_chunk_def)

lemma public_cookie:
  "public_response w rq r \<Longrightarrow> ck_name ck \<noteq> session_cookie_name \<or> h_method rq = ''POST'' \<and> token_matches w (form_value rq ''token'')
     \<Longrightarrow> public_response w rq (set_cookie ck r)"
  by (auto simp: public_response_def set_cookie_def)

lemma public_secured [simp]: "public_response w rq (secured rq)"
  by (simp add: public_response_def)

lemma public_text_simps [simp]:
  "''404 page not found'' @ [nl] \<in> set public_texts" "''Method Not Allowed'' @ [nl] \<in> set public_texts"
  "''too many requests, retry later'' @ [nl] \<in> set public_texts" "json_text ''{~status~:~ok~}'' \<in> set public_texts"
  by (simp_all add: public_texts_def)

lemma public_mux: "mux_answer rq r r' \<Longrightarrow> public_response w rq r \<Longrightarrow> public_response w rq r'"
  by (auto simp: mux_answer_def simp del: append.simps)

lemma flash_name: "ck_name (flash_cookie v a) \<noteq> session_cookie_name"
  by (simp add: flash_cookie_def flash_cookie_name_def session_cookie_name_def)

lemma public_login_page:
  assumes "handle_login_page rq r w = (r', w')" "\<not> has_valid_session w rq" "public_response v rq r"
  shows "public_response v rq r'"
proof -
  have t: "public_response v rq (snd (take_flash_cookie rq r))"
    using assms(3) by (auto simp: take_flash_cookie_def flash_name intro: public_cookie split: option.splits)
  have f: "public_response v rq (set_flash_cookie k r)" for k
    using assms(3) by (simp add: set_flash_cookie_def flash_name public_cookie)
  have "public_chunk (Rendered ''login'' (with_flash k no_page_data))" for k
    by (auto simp: public_chunk_def with_flash_def no_page_data_def split: option.splits)
  with t f assms(1,2) show ?thesis
    by (auto simp: handle_login_page_def Let_def execute_page_def split: if_splits prod.splits)
qed

lemma public_login:
  assumes "handle_login rq r v = (r', v')" "h_method rq = ''POST''" "token_matches v = token_matches w" "public_response w rq r"
  shows "public_response w rq r'"
  using assms by (auto simp: handle_login_def login_def set_session_cookie_def intro: public_cookie split: if_splits)

lemma public_limited: "public_response w rq r \<Longrightarrow> public_response w rq (too_many_requests k r)"
  by (simp add: too_many_requests_def del: append.simps)

lemma public_login_group:
  assumes "ratelimit_login new_login_mux rq r w = (r', w')" "\<not> has_valid_session w rq" "public_response w rq r"
  shows "public_response w rq r'"
proof (rule ratelimit_login_cases [OF assms(1)], goal_cases)
  case (1 k)
  with assms(3) show ?case by (simp add: public_limited)
next
  case (2 v)
  note tok = token_matches_env [OF quiet_fields(3) [OF 2(1)]]
  have "\<not> has_valid_session v rq" using assms(2) tok by (simp add: has_valid_session_def split: option.splits)
  then show ?case
    by (rule_tac new_login_mux_cases [OF 2(2)])
      (use assms(3) tok in \<open>auto intro: public_mux public_login_page public_login\<close>)
qed

text \<open>C6. A stranger learns nothing: a request without a valid session or bearer token is answered with
  fixed texts, redirects, assets and the empty login page only, so no site, log, snapshot, rule or
  error text leaves the server; and a session cookie is set only when the request is a login that
  gives the token. Nothing is changed either.\<close>

theorem stranger_sees_nothing:
  assumes "serve rq w = (r', w')" "\<not> has_valid_session w rq"
  shows "public_response w rq r' \<and> tree w' = tree w \<and> audits w' = audits w \<and> sent w' = sent w"
proof -
  have nb: "\<not> token_matches w (bearer_token rq)" and nc: "\<not> may_change w rq"
    using assms(2) by (auto simp: has_valid_session_def may_change_def split: option.splits)
  have "public_response w rq r'"
  proof (rule serve_cases [OF assms(1)], goal_cases)
    case 1
    then show ?case by (simp add: public_mux)
  next
    case 2
    then show ?case by (rule public_login_group) (simp_all add: assms(2))
  next
    case 3
    then show ?case by (auto simp: strip_static_def static_handler_def file_server_def simp del: append.simps split: if_splits)
  next
    case 4
    then show ?case by (rule api_group_cases) (use nb in \<open>auto simp: public_limited\<close>)
  next
    case 5
    then show ?case by (auto simp: health_handler_def simp del: append.simps)
  next
    case 6
    then show ?case by (rule pages_group_cases) (use assms(2) in auto)
  qed
  moreover have "quiet w w'" by (rule serve_step_cases [OF assms(1)]) (use nc in auto)
  ultimately show ?thesis by (simp add: quiet_fields)
qed

lemma stranger_sees_nothing_witness:
  "public_response demo_server (demo_request ''GET'' ''/'') (fst (serve (demo_request ''GET'' ''/'') demo_server))"
proof -
  let ?rq = "demo_request ''GET'' ''/''"
  have "\<not> has_valid_session demo_server ?rq" by code_simp
  from stranger_sees_nothing [OF prod.collapse [symmetric] this] show ?thesis by simp
qed

end
