(* ===== verification/ServerRuns.thy ===== *)
theory ServerRuns
  imports Responses
begin

text \<open>
  The server over any sequence of requests. A locale collects what every answer is made of: reading
  steps, configuration steps and the moves of the three limiters. A relation on states that holds of
  these holds of every answer, and, being transitive, of every run. Its interpretations give the
  invariant of the state, the confinement of all changes, the append-only audit trail and the bound
  on rejected logins.
\<close>

subsection \<open>Relations every answer keeps\<close>

locale step_law =
  fixes R :: "('a) server_scheme \<Rightarrow> ('a) server_scheme \<Rightarrow> bool"
  assumes refl: "R w w"
    and trans: "R u v \<Longrightarrow> R v w \<Longrightarrow> R u w"
    and reading: "reads w w' \<Longrightarrow> R w w'"
    and config: "config_step dn ip w w' \<Longrightarrow> R w w'"
    and api_limit: "client_allow (sv_rd w) k (sv_api_client w) w = (a, c, w') \<Longrightarrow> R w (w'\<lparr>sv_api_client := c\<rparr>)"
    and login_limit: "client_allow (sv_rd w) k (sv_login_client w) w = (a, c, w') \<Longrightarrow> R w (w'\<lparr>sv_login_client := c\<rparr>)"
    and global_limit: "bucket_allow (sv_rd w) (sv_login_global w) w = (a, b, w') \<Longrightarrow> R w (w'\<lparr>sv_login_global := b\<rparr>)"
    and rejected: "bucket_allow (sv_rd w) (sv_login_global w) w = ((True, retry), b, w') \<Longrightarrow>
      R w (log_append (Warn ''login rejected'' xs) (w'\<lparr>sv_login_global := b\<rparr>))"
begin

lemma requests: "R w v \<Longrightarrow> R w (log_request a b c d v)"
  by (rule trans [OF _ reading [OF reads_log_simps(3)]])

lemma router: "new_router rq r w = (r', w') \<Longrightarrow> R w w'"
  by (erule new_router_cases) (auto intro: refl config reading reads_handle_list_backups)

lemma pages_mux: "new_pages_mux rq r w = (r', w') \<Longrightarrow> R w w'"
  by (erule new_pages_mux_cases) (auto simp: handle_logout_def intro: refl config reading reads_handle_index)

lemma api: "api_group rq r w = (r', w') \<Longrightarrow> R w w'"
proof -
  assume h: "api_group rq r w = (r', w')"
  obtain ok retry c w1 where a: "client_allow (sv_rd w) (client_ip (h_remote rq)) (sv_api_client w) w = ((ok, retry), c, w1)"
    by (metis surj_pair)
  let ?v = "w1\<lparr>sv_api_client := c\<rparr>"
  have "R ?v w'"
    using h a by (auto simp: api_group_def ratelimit_api_def bearer_middleware_def request_logger_def Let_def
        split: if_splits prod.splits intro: refl requests router)
  with api_limit [OF a] show ?thesis by (rule trans)
qed

lemma pages: "pages_group rq r w = (r', w') \<Longrightarrow> R w w'"
  by (auto simp: pages_group_def session_middleware_def request_logger_def Let_def
      split: if_splits prod.splits elim!: csrf_middleware_cases intro: refl requests pages_mux)

text \<open>Behind the limiter, the login mux reads, or logs one rejected login of a \<open>POST\<close>.\<close>

lemma login_mux:
  "new_login_mux rq r w = (r', w') \<Longrightarrow> reads w w' \<or> h_method rq = ''POST'' \<and> (\<exists>xs. w' = log_append (Warn ''login rejected'' xs) w)"
  by (erule new_login_mux_cases) (auto dest: reads_handle_login_page handle_login_log)

lemma login: "ratelimit_login new_login_mux rq r w = (r', w') \<Longrightarrow> R w w'"
proof -
  assume h: "ratelimit_login new_login_mux rq r w = (r', w')"
  show ?thesis
  proof (cases "h_method rq = ''POST''")
    case False
    with h login_mux [of rq r w r' w'] show ?thesis by (auto simp: ratelimit_login_def intro: reading)
  next
    case True
    obtain ok retry c w1 where a: "client_allow (sv_rd w) (client_ip (h_remote rq)) (sv_login_client w) w = ((ok, retry), c, w1)"
      by (metis surj_pair)
    let ?v = "w1\<lparr>sv_login_client := c\<rparr>"
    obtain ok2 retry2 b w3 where b: "bucket_allow (sv_rd ?v) (sv_login_global ?v) ?v = ((ok2, retry2), b, w3)"
      by (metis surj_pair)
    let ?u = "w3\<lparr>sv_login_global := b\<rparr>"
    consider "w' = ?v" | "w' = ?u" | "ok2" "new_login_mux rq r ?u = (r', w')"
      using h True a b by (auto simp: ratelimit_login_def Let_def split: if_splits)
    then have "R ?v w'"
    proof cases
      case 3
      then show ?thesis
        using login_mux [OF 3(2)] b rejected [of ?v retry2 b w3] global_limit [OF b] reading trans by auto
    qed (auto intro: refl global_limit [OF b])
    with login_limit [OF a] show ?thesis by (rule trans)
  qed
qed

lemma answer: "serve rq w = (r', w') \<Longrightarrow> R w w'"
  by (erule serve_cases)
    (auto simp: health_handler_def dest: strip_static_same intro: refl api pages login)

end

subsection \<open>Runs\<close>

text \<open>The server answers requests, one after the other.\<close>

inductive served :: "('a) server_scheme \<Rightarrow> hreq list \<Rightarrow> ('a) server_scheme \<Rightarrow> bool" for w where
  start: "served w [] w"
| answer: "served w rqs v \<Longrightarrow> serve rq v = (r', v') \<Longrightarrow> served w (rqs @ [rq]) v'"

context step_law
begin

lemma run: "served w rqs w' \<Longrightarrow> R w w'"
  by (induction rule: served.induct) (auto intro: refl trans answer)

end

subsection \<open>Where the server writes\<close>

text \<open>The managed directory, and everything under the backup directory.\<close>

definition managed_area :: "('a) proc_scheme \<Rightarrow> path set" where
  "managed_area w = {resolve (cwd w) (managed_dir (env w)) @ [n] | n. True}
     \<union> {resolve (cwd w) (backup_dir (env w)) @ rest | rest. rest \<noteq> []}"

lemma resolve_slash: "d \<noteq> [] \<Longrightarrow> resolve wd (d @ ''/'') = resolve wd d"
proof -
  assume "d \<noteq> []"
  then have "has_prefix ''/'' (d @ ''/'') \<longleftrightarrow> has_prefix ''/'' d" by (cases d) auto
  then show ?thesis by (simp add: resolve_def split_on_append clean_elems_append)
qed

lemma backups_under: "\<exists>rest. backups_at w dn = resolve (cwd w) (backup_dir (env w)) @ rest"
proof (cases "domain_slug (ulower w) dn = []")
  case True
  then show ?thesis
    using resolve_slash [of "backup_dir (env w)" "cwd w"]
    by (simp add: backups_at_def backup_dir_path_def filepath_join2 resolve_clean)
next
  case False
  then have "name_ok (domain_slug (ulower w) dn)" by (simp add: slug_name_ok)
  then show ?thesis by (simp add: backups_at_def backup_dir_path_def resolve_join_name)
qed

lemma chain_paths_area: "chain_paths w ty dn \<subseteq> managed_area w"
proof -
  obtain rest where b: "backups_at w dn = resolve (cwd w) (backup_dir (env w)) @ rest" using backups_under by blast
  show ?thesis
    by (auto simp: chain_paths_def managed_area_def overlay_at_def temps_iff snapshot_paths_def b)
qed

lemma config_step_area:
  assumes "config_step dn ip w w'" "fs_wf w"
  shows "stays w w' (managed_area w)"
proof -
  consider v ty f res where "v = w \<or> v = tock w" "public_entry dn ip ty f" "f v = (res, w')"
    | "stays w w' {}"
    using assms(1) unfolding config_step_def by fastforce
  then show ?thesis
  proof cases
    case 1
    then have "fs_wf v" using assms(2) by auto
    with entry_outcome [OF 1(2) _ 1(3)] have "stays v w' (chain_paths v ty dn)" by simp
    then have "stays v w' (managed_area v)" by (rule stays_mono) (rule chain_paths_area)
    with 1(1) show ?thesis by (auto simp: managed_area_def)
  qed (rule stays_mono, auto)
qed

subsection \<open>What every run keeps\<close>

text \<open>The limiters keep their rates, and every bucket stays between zero and its capacity.\<close>

definition bucket_is :: "rat \<Rightarrow> int \<Rightarrow> bucket \<Rightarrow> bool" where
  "bucket_is p k b \<longleftrightarrow> bucket_ok b \<and> b_per_minute b = p \<and> b_capacity b = of_int k"

definition limiter_ok :: "rat \<Rightarrow> int \<Rightarrow> limiter \<Rightarrow> bool" where
  "limiter_ok p k c \<longleftrightarrow> cl_per_minute c = p \<and> cl_burst c = k
     \<and> (\<forall>x e. cl_clients c x = Some e \<longrightarrow> bucket_is p k (ce_bucket e))"

definition limits_ok :: "('a) server_scheme \<Rightarrow> bool" where
  "limits_ok w \<longleftrightarrow> rounding_ok (sv_rd w)
     \<and> bucket_is login_global_per_minute login_global_burst (sv_login_global w)
     \<and> limiter_ok login_per_client_per_minute login_per_client_burst (sv_login_client w)
     \<and> limiter_ok api_per_minute api_burst (sv_api_client w)"

lemma bucket_allow_is:
  "bucket_allow rd b w = (a, b', w') \<Longrightarrow> rounding_ok rd \<Longrightarrow> bucket_is p k b \<Longrightarrow> bucket_is p k b'"
proof -
  assume a: "bucket_allow rd b w = (a, b', w')" and r: "rounding_ok rd" and b: "bucket_is p k b"
  obtain granted retry where "a = (granted, retry)" by (cases a)
  with a have "allow_at rd (clock w (tick w)) b = ((granted, retry), b')"
    by (simp add: bucket_allow_def time_now_def Let_def split: prod.splits)
  with b allow_at_ok(1-3) [OF r, of b] show ?thesis by (simp add: bucket_is_def)
qed

lemma new_bucket_is: "0 < p \<Longrightarrow> 1 \<le> k \<Longrightarrow> k \<le> 2 ^ 53 \<Longrightarrow> bucket_is p k (new_bucket p k t)"
  by (auto simp: bucket_is_def new_bucket_def bucket_ok_def)

lemma limiter_ok_prune: "limiter_ok p k c \<Longrightarrow> limiter_ok p k (prune_clients now c)"
  by (auto simp: limiter_ok_def prune_clients_def split: option.splits if_splits)

lemma client_allow_limiter:
  assumes "client_allow rd x c w = (a, c', w')" "rounding_ok rd" "limiter_ok p k c" "0 < p" "1 \<le> k" "k \<le> 2 ^ 53"
  shows "limiter_ok p k c'"
proof -
  let ?c1 = "prune_clients (fst (time_now w)) c"
  have c1: "limiter_ok p k ?c1" by (rule limiter_ok_prune [OF assms(3)])
  let ?b = "case cl_clients ?c1 x of Some e \<Rightarrow> ce_bucket e | None \<Rightarrow> new_bucket p k (clock w (Suc (tick w)))"
  have kind: "bucket_is p k ?b"
    using c1 new_bucket_is [OF assms(4-6)] by (auto simp: limiter_ok_def split: option.splits)
  have rate: "cl_per_minute ?c1 = p" "cl_burst ?c1 = k" using c1 by (simp_all add: limiter_ok_def)
  let ?v = "case cl_clients ?c1 x of Some e \<Rightarrow> tock w | None \<Rightarrow> tock (tock w)"
  obtain a0 b' v' where b: "bucket_allow rd ?b ?v = (a0, b', v')" by (metis surj_pair)
  then have c': "c' = ?c1\<lparr>cl_clients := (cl_clients ?c1)(x \<mapsto> \<lparr>ce_bucket = b', ce_last_seen = fst (time_now w)\<rparr>)\<rparr>"
    using assms(1) rate by (cases "cl_clients ?c1 x") (simp_all add: client_allow_def Let_def time_now_def)
  from bucket_allow_is [OF b assms(2) kind] c1 show ?thesis by (auto simp: c' limiter_ok_def)
qed

lemma reads_server:
  assumes "reads w w'"
  shows "sv_rd w' = sv_rd w" "sv_login_client w' = sv_login_client w" "sv_login_global w' = sv_login_global w"
    "sv_api_client w' = sv_api_client w" "sv_mac w' = sv_mac w" "sv_assets w' = sv_assets w" "fs_wf w' = fs_wf w"
proof -
  obtain t ls where w: "w' = w\<lparr>tick := t, slog := slog w @ ls\<rparr>" using assms by (auto simp: reads_def)
  show "sv_rd w' = sv_rd w" "sv_login_client w' = sv_login_client w" "sv_login_global w' = sv_login_global w"
    "sv_api_client w' = sv_api_client w" "sv_mac w' = sv_mac w" "sv_assets w' = sv_assets w"
    by (simp_all add: w)
  have "tree w' = tree w" by (simp add: w)
  then show "fs_wf w' = fs_wf w" by (rule fs_wf_same)
qed

lemma stays_server:
  assumes "stays w w' S"
  shows "sv_rd w' = sv_rd w" "sv_login_client w' = sv_login_client w" "sv_login_global w' = sv_login_global w"
    "sv_api_client w' = sv_api_client w" "sv_mac w' = sv_mac w" "sv_assets w' = sv_assets w"
proof -
  have "world.more w' = world.more w" using assms by (simp add: stays_def)
  then show "sv_rd w' = sv_rd w" "sv_login_client w' = sv_login_client w" "sv_login_global w' = sv_login_global w"
    "sv_api_client w' = sv_api_client w" "sv_mac w' = sv_mac w" "sv_assets w' = sv_assets w"
    by (cases w; cases w'; simp)+
qed

lemma adds_audits_audits: "adds_audits w w' \<Longrightarrow> \<exists>es. audits w' = audits w @ es"
  by (auto simp: adds_audits_def audits_def map_filter_snoc)

text \<open>The settings, the files outside the managed area, the trail so far and the limits stay.\<close>

definition keeps :: "('a) server_scheme \<Rightarrow> ('a) server_scheme \<Rightarrow> bool" where
  "keeps w w' \<longleftrightarrow> (fs_wf w \<longrightarrow> fs_wf w' \<and> cwd w' = cwd w \<and> env w' = env w \<and> ulower w' = ulower w
     \<and> clock w' = clock w \<and> sv_rd w' = sv_rd w \<and> sv_mac w' = sv_mac w
     \<and> keeps_nodes w w' (managed_area w) \<and> (\<exists>es. audits w' = audits w @ es) \<and> (limits_ok w \<longrightarrow> limits_ok w'))"

lemma keeps_nodes_same: "tree w' = tree w \<Longrightarrow> keeps_nodes w w' S"
  using node_at_same [of w' w] by (simp add: keeps_nodes_def)

lemma keeps_frame:
  assumes "tree w' = tree w" "cwd w' = cwd w" "env w' = env w" "ulower w' = ulower w" "clock w' = clock w"
    "audits w' = audits w" "sv_rd w' = sv_rd w" "sv_mac w' = sv_mac w" "limits_ok w \<Longrightarrow> limits_ok w'"
  shows "keeps w w'"
  using assms keeps_nodes_same [OF assms(1)] fs_wf_same [OF assms(1)] by (simp add: keeps_def)

lemma keeps_reads: "reads w w' \<Longrightarrow> keeps w w'"
  by (rule keeps_frame) (auto simp: reads_fields reads_server limits_ok_def)

lemma keeps_trans: "keeps u v \<Longrightarrow> keeps v w \<Longrightarrow> keeps u w"
  unfolding keeps_def managed_area_def by (auto intro: keeps_nodes_trans)

lemma keeps_config:
  assumes "config_step dn ip w w'"
  shows "keeps w w'"
proof (cases "fs_wf w")
  case True
  note st = config_step_area [OF assms True]
  have "limits_ok w \<Longrightarrow> limits_ok w'" by (simp add: limits_ok_def stays_server [OF st])
  with st adds_audits_audits [of w w'] stays_server [OF st] stays_wf [OF st] show ?thesis
    by (auto simp: keeps_def stays_def)
qed (simp add: keeps_def)

lemma server_limiters [simp]:
  "tree (w\<lparr>sv_api_client := c\<rparr>) = tree w" "slog (w\<lparr>sv_api_client := c\<rparr>) = slog w"
  "audits (w\<lparr>sv_api_client := c\<rparr>) = audits w" "audits (w\<lparr>sv_login_client := c\<rparr>) = audits w"
  "audits (w\<lparr>sv_login_global := b\<rparr>) = audits w"
  by (simp_all add: audits_def)

lemma log_server [simp]:
  "sv_rd (log_append l w) = sv_rd w" "sv_mac (log_append l w) = sv_mac w"
  "sv_login_client (log_append l w) = sv_login_client w" "sv_login_global (log_append l w) = sv_login_global w"
  "sv_api_client (log_append l w) = sv_api_client w"
  by (simp_all add: log_append_def)

lemma keeps_global:
  assumes "bucket_allow (sv_rd w) (sv_login_global w) w = (a, b, w')"
  shows "keeps w (w'\<lparr>sv_login_global := b\<rparr>)"
proof -
  have r: "reads w w'" by (rule reads_bucket_allow [OF assms])
  show ?thesis
    by (rule keeps_frame) (use bucket_allow_is [OF assms] in \<open>auto simp: reads_fields [OF r] reads_server [OF r] limits_ok_def\<close>)
qed

lemma audits_warn [simp]: "audits (log_append (Warn s xs) w) = audits w"
  by (simp add: log_append_def audits_def map_filter_snoc List.map_filter_def)

lemma keeps_warn: "keeps w (log_append (Warn s xs) w)"
  by (rule keeps_frame) (simp_all add: limits_ok_def)

interpretation keeping: step_law keeps
proof (unfold_locales, goal_cases)
  case (5 w k a c w')
  note r = reads_client_allow [OF 5]
  show ?case
    by (rule keeps_frame) (use client_allow_limiter [OF 5, of api_per_minute api_burst]
      in \<open>auto simp: reads_fields [OF r] reads_server [OF r] limits_ok_def rate_defs\<close>)
next
  case (6 w k a c w')
  note r = reads_client_allow [OF 6]
  show ?case
    by (rule keeps_frame) (use client_allow_limiter [OF 6, of login_per_client_per_minute login_per_client_burst]
      in \<open>auto simp: reads_fields [OF r] reads_server [OF r] limits_ok_def rate_defs\<close>)
next
  case (8 w retry b w' xs)
  show ?case by (rule keeps_trans [OF keeps_global [OF 8] keeps_warn])
qed (auto intro: keeps_reads keeps_trans keeps_config keeps_global)

subsection \<open>Guessing the token\<close>

text \<open>
  Rejected logins are paid with tokens of the global bucket: rejections and remaining tokens together
  grow by no more than the time passed on the bucket, one per second.
\<close>

definition rejections :: "('a) proc_scheme \<Rightarrow> nat" where
  "rejections w = length (filter is_reject (slog w))"

definition charged :: "('a) server_scheme \<Rightarrow> bool" where
  "charged w \<longleftrightarrow> fs_wf w \<and> sv_rd w = exact \<and> bucket_is login_global_per_minute login_global_burst (sv_login_global w)"

definition paid :: "('a) server_scheme \<Rightarrow> ('a) server_scheme \<Rightarrow> bool" where
  "paid w w' \<longleftrightarrow> (charged w \<longrightarrow> charged w' \<and> clock w' = clock w
     \<and> b_last (sv_login_global w') \<in> insert (b_last (sv_login_global w)) (range (clock w))
     \<and> of_nat (rejections w') + b_tokens (sv_login_global w') \<le> of_nat (rejections w) + b_tokens (sv_login_global w)
         + of_int (ns_of (b_last (sv_login_global w')) - ns_of (b_last (sv_login_global w))) / of_int nanos_second)"

lemma paid_trans: "paid u v \<Longrightarrow> paid v w \<Longrightarrow> paid u w"
  unfolding paid_def by (auto simp: nanos_second_def field_simps)

lemma rejections_log [simp]: "rejections (log_append l w) = rejections w + (if is_reject l then 1 else 0)"
  by (simp add: rejections_def log_append_def)

lemma rejections_audits: "adds_audits w w' \<Longrightarrow> rejections w' = rejections w"
proof -
  have "filter is_reject (map Audit es) = []" for es by (induction es) (auto simp: is_reject_def)
  then show "adds_audits w w' \<Longrightarrow> rejections w' = rejections w" by (auto simp: adds_audits_def rejections_def)
qed

lemma rejections_reads: "reads w w' \<Longrightarrow> rejections w' = rejections w"
proof -
  assume "reads w w'"
  then obtain t ls where "w' = w\<lparr>tick := t, slog := slog w @ ls\<rparr>" "list_all (\<lambda>l. \<not> is_audit l \<and> \<not> is_reject l) ls"
    by (auto simp: reads_def)
  then show ?thesis by (auto simp: rejections_def list_all_iff)
qed

lemma paid_frame:
  assumes "tree w' = tree w" "clock w' = clock w" "sv_rd w' = sv_rd w" "sv_login_global w' = sv_login_global w"
    "rejections w' = rejections w"
  shows "paid w w'"
  using assms fs_wf_same [OF assms(1)] by (simp add: paid_def charged_def)

lemma rejections_limiters [simp]:
  "rejections (w\<lparr>sv_api_client := c\<rparr>) = rejections w" "rejections (w\<lparr>sv_login_client := c\<rparr>) = rejections w"
  "rejections (w\<lparr>sv_login_global := b\<rparr>) = rejections w"
  by (simp_all add: rejections_def)

text \<open>One question to the global bucket, and a rejection it may be followed by.\<close>

lemma paid_global:
  assumes "bucket_allow (sv_rd w) (sv_login_global w) w = ((ok, retry), b, w')" "ok \<or> n = 0" "n \<le> 1"
    "tree u = tree w" "clock u = clock w" "sv_rd u = sv_rd w" "sv_login_global u = b" "rejections u = rejections w + n"
  shows "paid w u"
  unfolding paid_def
proof
  assume ch: "charged w"
  let ?g = "sv_login_global w" and ?t = "clock w (tick w)"
  have g: "bucket_ok ?g" "b_per_minute ?g = 60" and rd: "sv_rd w = exact"
    using ch by (simp_all add: charged_def bucket_is_def rate_defs)
  have a: "allow_at exact ?t ?g = ((ok, retry), b)"
    using assms(1) rd by (simp add: bucket_allow_def time_now_def Let_def split: prod.splits)
  then have "run_bucket exact [?t] ?g = (if ok then 1 else 0, b)" by (simp add: Let_def)
  note rb = run_bucket_bound [OF g(1) this, unfolded g(2)]
  have "(of_nat n :: rat) \<le> of_nat (if ok then 1 else 0)" using assms(2,3) by auto
  with rb have "of_nat n + b_tokens b \<le> b_tokens ?g + 60 * of_int (ns_of (b_last b) - ns_of (b_last ?g)) / of_int nanos_minute"
    by linarith
  moreover have "60 * (of_int x :: rat) / of_int nanos_minute = of_int x / of_int nanos_second" for x
    by (simp add: nanos_minute_def nanos_second_def)
  ultimately have "of_nat n + b_tokens b \<le> b_tokens ?g + of_int (ns_of (b_last b) - ns_of (b_last ?g)) / of_int nanos_second"
    by (simp only:)
  moreover have "charged u"
    using ch bucket_allow_is [OF assms(1)] rounding_ok_exact assms(4-7) fs_wf_same [OF assms(4)] by (auto simp: charged_def)
  ultimately show "charged u \<and> clock u = clock w
     \<and> b_last (sv_login_global u) \<in> insert (b_last ?g) (range (clock w))
     \<and> of_nat (rejections u) + b_tokens (sv_login_global u) \<le> of_nat (rejections w) + b_tokens ?g
         + of_int (ns_of (b_last (sv_login_global u)) - ns_of (b_last ?g)) / of_int nanos_second"
    using rb assms(5,7,8) by (auto simp del: of_int_diff)
qed

lemma paid_config:
  assumes "config_step dn ip w w'"
  shows "paid w w'"
proof (cases "fs_wf w")
  case True
  note st = config_step_area [OF assms True]
  have "rejections w' = rejections w" using st by (simp add: stays_def rejections_audits)
  with st stays_server [OF st] stays_wf [OF st] show ?thesis by (simp add: paid_def charged_def stays_def)
qed (simp add: paid_def charged_def)

interpretation paying: step_law paid
proof (unfold_locales, goal_cases)
  case (3 w w')
  note r = 3
  show ?case by (rule paid_frame) (simp_all add: reads_fields [OF r] reads_server [OF r] rejections_reads [OF r])
next
  case (5 w k a c w')
  note r = reads_client_allow [OF 5]
  show ?case by (rule paid_frame) (simp_all add: reads_fields [OF r] reads_server [OF r] rejections_reads [OF r])
next
  case (6 w k a c w')
  note r = reads_client_allow [OF 6]
  show ?case by (rule paid_frame) (simp_all add: reads_fields [OF r] reads_server [OF r] rejections_reads [OF r])
next
  case (7 w a b w')
  obtain ok retry where a: "a = (ok, retry)" by (cases a)
  note r = reads_bucket_allow [OF 7]
  show ?case by (rule paid_global [OF 7 [unfolded a], of 0])
      (simp_all add: reads_fields [OF r] reads_server [OF r] rejections_reads [OF r])
next
  case (8 w retry b w' xs)
  note r = reads_bucket_allow [OF 8]
  show ?case by (rule paid_global [OF 8, of 1])
      (simp_all add: reads_fields [OF r] reads_server [OF r] rejections_reads [OF r] is_reject_def)
qed (simp add: paid_def, erule (1) paid_trans, erule paid_config)

subsection \<open>Properties of every run\<close>

lemma tock_server [simp]: "sv_rd (tock w) = sv_rd w" "sv_mac (tock w) = sv_mac w"
  by (simp_all add: tock_def)

lemma start_limiters_fields [simp]:
  "tree (start_limiters w) = tree w" "clock (start_limiters w) = clock w" "sv_rd (start_limiters w) = sv_rd w"
  "rejections (start_limiters w) = rejections w" "fs_wf (start_limiters w) = fs_wf w"
  "sv_login_global (start_limiters w) = new_bucket login_global_per_minute login_global_burst (clock w (tick w))"
proof -
  show t: "tree (start_limiters w) = tree w" by (simp add: start_limiters_def time_now_def)
  show "fs_wf (start_limiters w) = fs_wf w" by (rule fs_wf_same [OF t])
qed (simp_all add: start_limiters_def time_now_def rejections_def)

lemma start_limits: "rounding_ok (sv_rd w) \<Longrightarrow> limits_ok (start_limiters w)"
  by (simp add: limits_ok_def new_bucket_is rate_defs)
    (simp add: start_limiters_def time_now_def new_client_def limiter_ok_def rate_defs)

text \<open>C9. The state stays well formed over every sequence of requests: from a new process, the file
  system stays well formed and every bucket of the three limiters keeps its rate, its capacity and a
  number of tokens between zero and the capacity, for any monotone rounding of the arithmetic.\<close>

theorem server_invariant:
  assumes "fs_wf w" "rounding_ok (sv_rd w)" "served (start_limiters w) rqs w'"
  shows "fs_wf w' \<and> limits_ok w'"
  using keeping.run [OF assms(3)] assms(1,2) by (simp add: keeps_def start_limits)

definition demo_run :: "server" where
  "demo_run = snd (serve (demo_request ''POST'' ''/login'') (start_limiters demo_server))"

lemma demo_served: "served (start_limiters demo_server) [demo_request ''POST'' ''/login''] demo_run"
  using served.answer [OF served.start, of _ "start_limiters demo_server"] unfolding demo_run_def
  by (metis append_Nil prod.collapse)

lemma server_invariant_witness: "fs_wf demo_run \<and> limits_ok demo_run"
  by (rule server_invariant [OF demo_server_wf _ demo_served]) (simp add: rounding_ok_exact)

text \<open>C7. Over every sequence of requests, whoever sends them, no file outside the managed directory
  and the backup directory is created, changed or removed (new directories may appear), the settings
  stay, and the audit trail only grows.\<close>

theorem server_confined:
  assumes "fs_wf w" "served w rqs w'" "q \<notin> managed_area w"
  shows "(node_at w' q = node_at w q \<or> node_at w q = None \<and> node_at w' q = Some SubDir)
    \<and> env w' = env w \<and> cwd w' = cwd w \<and> (\<exists>es. audits w' = audits w @ es)"
  using keeping.run [OF assms(2)] assms(1,3)
  by (cases "node_at w q") (auto simp: keeps_def keeps_nodes_def)

lemma server_confined_witness:
  "node_at demo_run [''etc'', ''caddy'', ''Caddyfile''] = Some (Reg demo_caddyfile 420)"
proof -
  have st: "managed_area (start_limiters demo_server) = managed_area demo_server"
    "node_at (start_limiters demo_server) = node_at demo"
    using node_at_same [of "start_limiters demo_server" demo]
    by (simp_all add: managed_area_def start_limiters_def time_now_def)
  have "resolve (cwd demo_server) (managed_dir (env demo_server)) = [''ui-managed'']"
    "resolve (cwd demo_server) (backup_dir (env demo_server)) = [''backups'']" by code_simp+
  then have q: "[''etc'', ''caddy'', ''Caddyfile''] \<notin> managed_area (start_limiters demo_server)"
    unfolding st by (simp add: managed_area_def)
  have n: "node_at demo [''etc'', ''caddy'', ''Caddyfile''] = Some (Reg demo_caddyfile 420)" by code_simp
  have "fs_wf (start_limiters demo_server)" by (simp add: demo_server_wf)
  from server_confined [OF this demo_served q] n show ?thesis by (simp add: st)
qed



end
