(* ===== verification/Redirects.thy ===== *)
theory Redirects
  imports ServerProps
begin

text \<open>
  A browser that follows the redirects of the pages comes to rest: the login page sends a session
  away, the pages send strangers to the login page, and a flash message in the query is moved into
  the cookie by a redirect; none of these meets another.
\<close>

subsection \<open>The two pages of the server\<close>

lemma page_paths:
  "clean_path ''/'' = ''/''" "segments ''/'' = [[]]" "segments ''//'' = [[], []]"
  "exact_match [Multi] ''//'' = False" "exact_match [Multi] ''/login/'' = False"
  "clean_path ''/login'' = ''/login''" "segments ''/login'' = [''login'']" "segments ''/login/'' = [''login'', []]"
  by code_simp+

lemma serve_root:
  "h_method rq = ''GET'' \<Longrightarrow> h_path rq = ''/'' \<Longrightarrow> serve rq w = pages_group rq (secured rq) w"
  unfolding serve_def build_handler_def security_headers_secured
  by (subst serve_mux_found [where h = "no_args pages_group" and args = "[]"]) (simp_all add: page_paths no_args_def)

lemma serve_login:
  "h_method rq = ''GET'' \<Longrightarrow> h_path rq = ''/login'' \<Longrightarrow> serve rq w = handle_login_page rq (secured rq) w"
  unfolding serve_def build_handler_def security_headers_secured
  by (subst serve_mux_found [where h = "no_args (ratelimit_login new_login_mux)" and args = "[]"])
    (simp_all add: page_paths no_args_def ratelimit_login_def new_login_mux_def
      serve_mux_found [where h = "no_args handle_login_page" and args = "[]"])

lemma index_of_session:
  assumes "h_method rq = ''GET''" "h_path rq = ''/''" "has_valid_session w rq"
  shows "fst (serve rq w) = fst (handle_index rq (secured rq) w)"
proof -
  have "new_pages_mux rq (secured rq) w = handle_index rq (secured rq) w"
    unfolding new_pages_mux_def using assms
    by (subst serve_mux_found [where h = "no_args handle_index" and args = "[]"]) (simp_all add: page_paths no_args_def)
  with assms show ?thesis
    by (simp add: serve_root pages_group_def session_middleware_def request_logger_def csrf_middleware_def split: prod.splits)
qed

lemma index_of_stranger:
  assumes "h_method rq = ''GET''" "h_path rq = ''/''" "\<not> has_valid_session w rq"
  shows "serve rq w = (http_redirect rq ''/login'' 302 (secured rq), w)"
  using assms by (simp add: serve_root pages_group_def session_middleware_def)

subsection \<open>Answers that are pages\<close>

definition at_rest :: "'p hres \<Rightarrow> bool" where
  "at_rest r \<longleftrightarrow> map_of (hs_headers r) ''Location'' = None \<and> final_status r \<in> {200, 500}"

lemma secured_location [simp]: "map_of (hs_headers (secured rq)) ''Location'' = None"
  by (simp add: secured_def security_headers_def Let_def no_response_def del: equal_fold.simps)

lemma rest_page: "map_of (hs_headers r) ''Location'' = None \<Longrightarrow> hs_status r = None \<Longrightarrow> at_rest (write_chunk c r)"
  by (simp add: at_rest_def final_status_def)

lemma rest_error: "map_of (hs_headers r) ''Location'' = None \<Longrightarrow> hs_status r = None \<Longrightarrow> at_rest (http_error s 500 r)"
  by (simp add: at_rest_def http_error_def http_error_chunk_def final_status_def)

lemma take_flash_fields [simp]:
  "hs_headers (snd (take_flash_cookie rq r)) = hs_headers r" "hs_status (snd (take_flash_cookie rq r)) = hs_status r"
  by (simp_all add: take_flash_cookie_def split: option.splits)

lemma execute_page_rest:
  assumes "execute_page pg d r = (found, r')" "map_of (hs_headers r) ''Location'' = None" "hs_status r = None"
  shows "at_rest (if found then r' else http_error s 500 r')"
  using assms by (auto simp: execute_page_def rest_page rest_error split: if_splits)

lemma index_at_rest:
  assumes "query_of rq ''flash'' = []"
  shows "at_rest (fst (handle_index rq (secured rq) w))"
proof -
  obtain flash r1 where t: "take_flash_cookie rq (secured rq :: page_data hres) = (flash, r1)" by fastforce
  have r1: "map_of (hs_headers r1) ''Location'' = None" "hs_status r1 = None"
    using take_flash_fields [of rq "secured rq :: page_data hres"] by (simp_all add: t)
  let ?tab = "if query_of rq ''tab'' = [] then ''overview'' else query_of rq ''tab''"
  obtain sites w1 where 1: "scan_sites w = (sites, w1)" by fastforce
  obtain d w2 where 2: "build_page_data rq ?tab sites w1 = (d, w2)" by fastforce
  obtain found r2 where 3: "execute_page ?tab (with_flash flash d) r1 = (found, r2)" by fastforce
  have "fst (handle_index rq (secured rq) w)
      = (if found then r2 else http_error ''Internal error rendering the page'' 500 r2)"
    unfolding handle_index_def by (cases found) (simp_all add: Let_def assms t 1 2 3 split del: if_split)
  with execute_page_rest [OF 3 r1] show ?thesis by simp
qed

lemma login_at_rest:
  assumes "query_of rq ''flash'' = []" "\<not> has_valid_session w rq"
  shows "at_rest (fst (handle_login_page rq (secured rq) w))"
proof -
  obtain flash r1 where t: "take_flash_cookie rq (secured rq :: page_data hres) = (flash, r1)" by fastforce
  have r1: "map_of (hs_headers r1) ''Location'' = None" "hs_status r1 = None"
    using take_flash_fields [of rq "secured rq :: page_data hres"] by (simp_all add: t)
  obtain found r2 where 3: "execute_page ''login'' (with_flash flash no_page_data) r1 = (found, r2)" by fastforce
  show ?thesis
    using execute_page_rest [OF 3 r1] assms
    by (cases found) (simp_all add: handle_login_page_def Let_def t 3)
qed

subsection \<open>Following a redirect\<close>

text \<open>The request a browser makes for a location, with the cookies it then has.\<close>

definition follow :: "string \<Rightarrow> url_values \<Rightarrow> hreq \<Rightarrow> hreq" where
  "follow loc cs rq = (let (p, q, _) = cut CHR ''?'' loc in rq\<lparr>h_path := p, h_query := q, h_cookies := cs\<rparr>)"

lemma follow_simps [simp]:
  "h_method (follow loc cs rq) = h_method rq" "h_header (follow loc cs rq) = h_header rq"
  "h_cookies (follow loc cs rq) = cs"
  "follow ''/login'' cs rq = rq\<lparr>h_path := ''/login'', h_query := [], h_cookies := cs\<rparr>"
  "follow ''/'' cs rq = rq\<lparr>h_path := ''/'', h_query := [], h_cookies := cs\<rparr>"
  "follow (CHR ''/'' # CHR ''?'' # q) cs rq = rq\<lparr>h_path := ''/'', h_query := q, h_cookies := cs\<rparr>"
  by (simp_all add: follow_def Let_def cut_def split: prod.splits)

lemma context_keys_flash: "''flash'' \<notin> set (context_keys @ [''page''])"
  by (simp add: context_keys_def)

lemma session_follow:
  "map_of cs session_cookie_name = cookie_of rq session_cookie_name \<Longrightarrow> env v = env w \<Longrightarrow>
     has_valid_session v (follow loc cs rq) = has_valid_session w rq"
  using token_matches_env [of v w]
  by (simp add: has_valid_session_def cookie_of_def bearer_token_def split: option.splits)

lemma no_flash [simp]: "get_value (parse_query []) k = []"
  by (simp add: parse_query_def parse_pair_def List.map_filter_def get_value_def)


text \<open>Where a redirect of the pages leads: a session to the index without a flash message, a stranger to the login page.\<close>

lemma session_redirect:
  assumes "h_method rq = ''GET''" "h_path rq = ''/'' \<or> h_path rq = ''/login''" "has_valid_session w rq"
    "serve rq w = (r, v)" "map_of (hs_headers r) ''Location'' = Some loc"
  shows "\<exists>q. (loc = ''/'' \<and> q = [] \<or> loc = ''/?'' @ q) \<and> get_value (parse_query q) ''flash'' = []"
  using assms(2)
proof
  assume p: "h_path rq = ''/''"
  let ?key = "query_of rq ''flash''"
  have r: "r = fst (handle_index rq (secured rq) w)"
    using index_of_session [OF assms(1) p assms(3)] assms(4) by simp
  have "?key \<noteq> []"
  proof
    assume "?key = []"
    from index_at_rest [OF this, of w] assms(5) show False unfolding r by (simp add: at_rest_def)
  qed
  then have "r = http_redirect rq (clean_url (parse_query (h_query rq))) 302 (set_flash_cookie ?key (secured rq))"
    unfolding r by (simp add: handle_index_def Let_def)
  with assms(5) have loc: "loc = clean_url (parse_query (h_query rq))"
    by (simp add: location_redirect set_flash_cookie_def)
  show ?thesis
    using clean_url_values [of "parse_query (h_query rq)"] unfolding loc by (metis context_keys_flash)
next
  assume "h_path rq = ''/login''"
  with assms(1,3-5) have "loc = ''/''" by (auto simp: serve_login handle_login_page_def location_redirect)
  then show ?thesis by (intro exI [of _ "[]"]) simp
qed

lemma stranger_redirect:
  assumes "h_method rq = ''GET''" "h_path rq = ''/'' \<or> h_path rq = ''/login''" "\<not> has_valid_session w rq"
    "serve rq w = (r, v)" "map_of (hs_headers r) ''Location'' = Some loc"
  shows "loc = ''/login''"
  using assms(2)
proof
  assume "h_path rq = ''/''"
  with assms(1,3-5) show ?thesis by (auto simp: index_of_stranger location_redirect)
next
  assume p: "h_path rq = ''/login''"
  have r: "r = fst (handle_login_page rq (secured rq) w)" using assms(1,4) p by (simp add: serve_login)
  show ?thesis
  proof (cases "query_of rq ''flash'' = []")
    case True
    from login_at_rest [OF this assms(3)] assms(5) show ?thesis unfolding r by (simp add: at_rest_def)
  next
    case False
    with assms(3,5) show ?thesis
      unfolding r by (simp add: handle_login_page_def Let_def location_redirect set_flash_cookie_def)
  qed
qed

text \<open>C40. The redirects of the pages end: a browser that asks for \<open>/\<close> or \<open>/login\<close>, with any query, any
  cookies and any session, and is sent elsewhere, gets a page there and no further redirect.\<close>

theorem one_redirect_at_most:
  assumes "h_method rq = ''GET''" "h_path rq = ''/'' \<or> h_path rq = ''/login''" "serve rq w = (r, v)"
    "map_of (hs_headers r) ''Location'' = Some loc"
    "map_of cs session_cookie_name = cookie_of rq session_cookie_name"
  shows "at_rest (fst (serve (follow loc cs rq) v))"
proof -
  let ?f = "follow loc cs rq"
  have env: "env v = env w"
    by (rule serve_step_cases [OF assms(3)]) (use assms(1) in \<open>auto simp: quiet_fields may_change_def\<close>)
  have sess: "has_valid_session v ?f = has_valid_session w rq"
    by (rule session_follow [OF assms(5) env])
  show ?thesis
  proof (cases "has_valid_session w rq")
    case True
    then obtain q where q: "loc = ''/'' \<and> q = [] \<or> loc = ''/?'' @ q" "get_value (parse_query q) ''flash'' = []"
      using session_redirect [OF assms(1,2) _ assms(3,4)] by blast
    then have f: "h_path ?f = ''/''" "query_of ?f ''flash'' = []" by (auto simp: query_of_def)
    have "fst (serve ?f v) = fst (handle_index ?f (secured ?f) v)"
      by (rule index_of_session) (use assms(1) True sess f in simp_all)
    with index_at_rest [OF f(2)] show ?thesis by simp
  next
    case False
    have "loc = ''/login''" by (rule stranger_redirect [OF assms(1,2) False assms(3,4)])
    then have f: "h_path ?f = ''/login''" "query_of ?f ''flash'' = []" by (simp_all add: query_of_def)
    have ns: "\<not> has_valid_session v ?f" using False sess by simp
    from login_at_rest [OF f(2) ns] show ?thesis using f(1) assms(1) by (simp add: serve_login)
  qed
qed

lemma one_redirect_at_most_witness:
  "at_rest (fst (serve (follow ''/login'' [] (demo_request ''GET'' ''/'')) demo_server))"
proof -
  let ?rq = "demo_request ''GET'' ''/''"
  have m: "h_method ?rq = ''GET''" "h_path ?rq = ''/''" by (simp_all add: demo_request_def)
  have s: "\<not> has_valid_session demo_server ?rq" by code_simp
  have c: "map_of [] session_cookie_name = cookie_of ?rq session_cookie_name"
    by (simp add: cookie_of_def demo_request_def)
  show ?thesis
    by (rule one_redirect_at_most [OF m(1) disjI1 [OF m(2)] index_of_stranger [OF m s] _ c])
      (simp add: location_redirect)
qed

end
