(* ===== verification/Spec2Isabelle.thy ===== *)
theory Spec2Isabelle
  imports FilesProps ComponentProps ServerRuns Redirects
begin

text \<open>
  A verification of caddy-waf-ui, a web service that manages the WAF overlays Caddy imports. The
  program has one job that must not go wrong: to change the configuration of a live proxy, or to leave
  it as it was and say so. This development models the whole service, from one HTTP request down to
  the single system call, and proves what that job needs.

  \<^bold>\<open>How the parts interact.\<close> \<open>cmd/server/main.go\<close> mounts four groups of routes behind the security
  headers. The API (\<open>internal/ui/api.go\<close>) stands behind a rate limit and the bearer token, the pages
  and forms (\<open>pages.go\<close>, \<open>forms.go\<close>) behind the session and the CSRF check, the login behind two
  limiters; health and static files are open. Every handler that changes something calls one of four
  operations of \<open>internal/service/chain.go\<close>: update the WAF mode, the exclusions or the IP rules, or
  roll back. They share one chain: validate, back up, generate, write atomically, reload Caddy and
  read the live configuration back, restore the old overlay if that fails, and audit the outcome.

  \<^bold>\<open>The state.\<close> Four nested records. \<open>fsys\<close> (theory \<open>FileSys\<close>) is the operating system: a tree of
  directories, the working directory, a clock, the names of temporary files, and \<open>tick\<close>, the number of
  system calls made; \<open>fault\<close> gives for each tick the error that call fails with, if any, so that a
  theorem over all states is a theorem over all I/O errors at all calls. \<open>proc\<close> (\<open>Process\<close>) adds the
  environment, the Unicode part of \<open>strings.ToLower\<close> and the structured log. \<open>world\<close> (\<open>Caddy\<close>) adds the
  Admin API as an arbitrary function of time and request, the requests sent and \<open>LastReadback\<close>.
  \<open>server\<close> (\<open>Auth\<close>) adds the three limiters. Operations pass the state explicitly and return errors as
  values; wrapped errors keep their chain, so that \<open>errors.Is\<close> is a function on them.

  \<^bold>\<open>Theories and sources.\<close>
  \<open>Prelude\<close>: byte strings and the functions of \<open>strings\<close>, \<open>strconv\<close> the sources call.
  \<open>Regex\<close>: a matcher with the leftmost-first semantics of \<open>regexp\<close>, for the program's own patterns.
  \<open>GoTime\<close>, \<open>Paths\<close>, \<open>IpNet\<close>, \<open>Json\<close>: calendar and formats, \<open>path/filepath\<close>, addresses, and JSON.
  \<open>Config\<close>: \<open>config/config.go\<close> and the level of \<open>logs/logger.go\<close>; \<open>Process\<close>: the rest of the logger.
  \<open>Domain\<close>: \<open>domain/\<close> (header, slug, scanner); \<open>Validate\<close>: \<open>service/validate.go\<close>.
  \<open>Files\<close>: \<open>files/\<close> (names, atomic write, snapshots, retention).
  \<open>Waf\<close>, \<open>IpRules\<close>: the generators of \<open>waf/\<close> and \<open>iprules/\<close>.
  \<open>Caddy\<close>: \<open>caddy/admin.go\<close>; \<open>Chain\<close>: \<open>service/chain.go\<close>.
  \<open>Overlay\<close>: \<open>ui/overlay.go\<close>; \<open>AuditReader\<close>: \<open>logs/reader.go\<close>, \<open>logs/audit.go\<close>.
  \<open>RateLimit\<close>: \<open>ratelimit/ratelimit.go\<close>; \<open>Auth\<close>: \<open>auth/\<close> and \<open>logs/request.go\<close>.
  \<open>Http\<close>: requests, responses, query strings and the routing of \<open>net/http\<close>.
  \<open>Handlers\<close>: \<open>ui/api.go\<close>, \<open>ui/forms.go\<close>; \<open>Pages\<close>: \<open>ui/pages.go\<close>;
  \<open>Server\<close>: \<open>ui/router.go\<close>, \<open>ui/static.go\<close>, the two middlewares of \<open>ratelimit.go\<close> and \<open>cmd/server/main.go\<close>.
  A definition has the name of its function in snake case, and each branch of the source is a branch
  of it.

  \<^bold>\<open>What the lemmas show.\<close> \<open>Chain\<close> proves the outcomes of the chain once, in the locale
  \<open>chain_mutation\<close>, for any step that writes the overlay; its interpretations are the three updates
  and, through its contract, the rollback. \<open>ChainProps\<close> reads off what a caller can rely on, \<open>Healthy\<close>
  (locale \<open>live_mutation\<close>) proves that without faults the chain succeeds, and \<open>Demo\<close> is a concrete
  world for the witnesses. \<open>FilesProps\<close> and \<open>ComponentProps\<close> hold the properties of the components.
  \<open>ServerProps\<close> classifies every handler as reading, or as one run of the chain, and routes every
  request to its group; \<open>FormProps\<close> relates answers to outcomes and shows that nothing is lost in a
  form; \<open>Responses\<close> (locale \<open>response_law\<close>) and \<open>ServerRuns\<close> (locale \<open>step_law\<close>) carry a property of
  responses, or a transitive relation on states, through all handlers, and are interpreted with the
  security headers, with the invariant of the state and with the accounting of rejected logins;
  \<open>Redirects\<close> shows that a browser comes to rest. This theory holds the properties of the chain.

  \<^bold>\<open>Bounds and fuel.\<close> The JSON scanner recurses on fuel, more than twice the length of its
  input; lemma \<open>json_read_value_fuel\<close> shows that any such fuel gives the same result. The regular
  expressions run with the size of the expression and the input left as the measure. All other functions are total by structure or
  by a measure given with them. Page numbers are 64-bit and wrap as in the source; durations saturate
  as in \<open>time.Time.Sub\<close>; the address parsers work on 8-bit words. The token buckets compute with
  rationals and a rounding function \<open>rd\<close>: bounds hold for every monotone \<open>rd\<close> that is exact on small
  integers, the exact rate limits for \<open>rd\<close> the identity.

  \<^bold>\<open>Assumptions.\<close> \<open>fs_wf\<close> (every directory has a listing with distinct names) is an invariant,
  proved to be kept, and assumed of the first state only. \<open>no_faults\<close> and \<open>healthy\<close> occur in the
  liveness and round-trip properties alone. A mutex makes a chain, and the model a whole request, one
  step: requests are served in sequence.

  \<^bold>\<open>Not modelled.\<close> Rendering (\<open>ui/embed.go\<close>, templates, style sheets): a page is its name and data.
  The wire format of HTTP and JSON output, \<open>http.FileServer\<close> beyond which file it serves, HMAC-SHA256
  (a parameter), the timing of comparisons, timeouts, TLS, and the forwarding of optional interfaces
  by the status recorder. Concurrency: two requests between a form's read and its chain can lose an
  entry (listed as a finding). Crashes: an atomic write interrupted by a power loss is outside the
  model, since the sources never call \<open>fsync\<close>.
\<close>

section \<open>The configuration change chain\<close>

text \<open>C1. A configuration change is all or nothing: whichever public operation fails, with
  whichever I/O error at whichever system call and whichever answer of the Admin API, the overlay
  file has the bytes it had before (or is absent as before), unless the operation reports that
  restoring the old overlay failed as well.\<close>

theorem failed_change_keeps_overlay:
  assumes "public_entry dn ip ty f" "fs_wf w" "f w = (Inl e, w')"
  shows "overlay_bytes w' ty dn = overlay_bytes w ty dn \<or> restore_failed e"
  using entry_outcome [OF assms] by simp

lemma failed_change_keeps_overlay_witness:
  "overlay_bytes (snd (update_waf_mode demo_domain ''Maybe'' ''10.0.0.9'' demo)) file_type_waf demo_domain
     = overlay_bytes demo file_type_waf demo_domain"
proof -
  have "validate_domain demo_domain = None" by code_simp
  then have "update_waf_mode demo_domain ''Maybe'' ''10.0.0.9'' demo = (Inl (Sentinel ErrInvalidMode), demo)"
    by (simp add: update_waf_mode_def mode_defs)
  from failed_change_keeps_overlay [OF public_entry.waf_mode demo_wf this]
  show ?thesis unfolding \<open>update_waf_mode _ _ _ _ = _\<close> by (simp add: restore_failed_def)
qed

text \<open>C2. A configuration change is confined: whatever its outcome, every file and directory
  other than the overlay, its temporary names and the snapshots of its type is exactly as before;
  at most new directories appear. The environment and the working directory stay.\<close>

theorem change_confined:
  assumes "public_entry dn ip ty f" "fs_wf w" "f w = (r, w')" "q \<notin> chain_paths w ty dn"
  shows "(node_at w' q = node_at w q \<or> node_at w q = None \<and> node_at w' q = Some SubDir)
    \<and> fs_wf w' \<and> env w' = env w \<and> cwd w' = cwd w"
proof -
  have "stays w w' (chain_paths w ty dn)" using entry_outcome [OF assms(1-3)] by simp
  with assms(2,4) show ?thesis by (cases "node_at w q") (auto simp: stays_def keeps_nodes_def)
qed

lemma change_confined_witness:
  "node_at (snd (update_waf_mode demo_domain mode_on ''10.0.0.9'' demo)) [''etc'', ''caddy'', ''Caddyfile'']
     = Some (Reg demo_caddyfile 420)"
proof -
  have q: "[''etc'', ''caddy'', ''Caddyfile''] \<notin> chain_paths demo file_type_waf demo_domain"
    using demo_healthy [of file_type_waf] by (simp add: healthy_def flip: demo_caddyfile_at)
  have "node_at demo [''etc'', ''caddy'', ''Caddyfile''] = Some (Reg demo_caddyfile 420)" by code_simp
  with change_confined [OF public_entry.waf_mode demo_wf surjective_pairing q]
  show ?thesis by fastforce
qed


lemma demo_update_ok: "fst (update_waf_mode demo_domain mode_on ''10.0.0.9'' demo) = Inr ()"
proof -
  have "validate_domain demo_domain = None" by code_simp
  then show ?thesis using update_waf_mode_ok [OF demo_healthy] by simp
qed

lemma demo_update_run:
  "update_waf_mode demo_domain mode_on ''10.0.0.9'' demo =
     (Inr (), snd (update_waf_mode demo_domain mode_on ''10.0.0.9'' demo))"
  using demo_update_ok by (metis prod.collapse)






text \<open>C14. A successful mode change is what the scanner reads back: scanning the managed directory
  lists the domain with exactly the mode requested, not degraded, as long as the clock reads a year
  of four digits.\<close>

theorem scan_lists_updated_site:
  assumes "fs_wf w" "update_waf_mode dn md ip w = (Inr (), w')" "no_faults w'" "\<forall>k. year_ok (clock w k)"
  shows "\<exists>sites st. fst (scan (managed_dir (env w)) w') = Inr sites \<and> st \<in> set sites
    \<and> site_domain st = dn \<and> site_mode st = md \<and> \<not> site_degraded st"
proof -
  let ?d = "managed_dir (env w)" and ?n = "overlay_name (ulower w) file_type_waf dn"
  let ?o = "overlay_at w file_type_waf dn"
  note up = update_waf_mode_Inr [OF assms(1,2)]
  have st: "cwd w' = cwd w" "fs_wf w'"
    using entry_outcome [OF public_entry.waf_mode assms(1,2)] assms(1) by (auto simp: stays_def)
  obtain k b where o: "node_at w' ?o = Some (Reg (managed_line @ nl # header dn md (clock w k) @ nl # b) 420)"
    using up(3) by (auto simp: waf_lines_def)
  obtain es where es: "tree w' (resolve (cwd w') ?d) = Some es" "map_of es ?n = Some (Reg (managed_line @ nl # header dn md (clock w k) @ nl # b) 420)"
    using o by (auto simp: overlay_at_def node_at_snoc st(1) split: option.splits)
  have r: "os_read_file (filepath_join [?d, ?n]) w' =
      (Inr (managed_line @ nl # header dn md (clock w k) @ nl # b), tock w')"
    using assms(3) o resolve_join_name [OF overlay_name_ok [OF file_types_known(1), of "ulower w" dn] dirs_not_Nil(1), of "cwd w"]
    by (simp add: os_read_file_def st(1) overlay_at_def)
  have dn: "field_ok dn" "nl \<notin> set dn"
    using up(1) host_field [of dn] by (simp_all add: validate_domain_iff)
  have md: "md = [] \<or> field_ok md" "nl \<notin> set md"
    using up(2) by (auto simp: mode_defs field_ok_def starts_tight_def ends_tight_def is_graph_def less_eq_char_def)
  obtain st where s: "entry_site ?d w' (?n, Reg (managed_line @ nl # header dn md (clock w k) @ nl # b) 420) = Some st"
    "site_domain st = dn" "site_mode st = md" "\<not> site_degraded st"
    using parse_site_header_overlay [OF r dn md, of ?n] assms(4) up(2)
    by (auto simp: entry_site_def overlay_name_def file_type_defs has_suffix_iff)
  have "st \<in> set (List.map_filter (entry_site ?d w') es)"
    using s(1) map_of_SomeD [OF es(2)] by (force simp: List.map_filter_def)
  with scan_spec [OF assms(3) es(1)] s show ?thesis by blast
qed

lemma scan_lists_updated_site_witness:
  "\<exists>sites st. fst (scan ''/ui-managed'' (snd (update_waf_mode demo_domain mode_on ''10.0.0.9'' demo))) = Inr sites
     \<and> st \<in> set sites \<and> site_mode st = mode_on"
proof -
  have "year_ok demo_time" by code_simp
  moreover have "no_faults (snd (update_waf_mode demo_domain mode_on ''10.0.0.9'' demo))"
    using entry_outcome [OF public_entry.waf_mode demo_wf demo_update_run] by (simp add: no_faults_def stays_def)
  ultimately show ?thesis
    using scan_lists_updated_site [OF demo_wf demo_update_run] by (auto simp: managed_dir_def env_or_def)
qed

text \<open>C10. A successful rollback installs the snapshot it names: the overlay of the snapshot's type
  holds the bytes that snapshot had before the call. The one exception is a rollback in the second
  a snapshot was taken: the backup of the same chain then reuses the name, and the overlay keeps
  its own bytes.\<close>

theorem rollback_installs_snapshot:
  assumes "fs_wf w" "rollback dn sid ip w = (Inr (), w')"
  shows "\<exists>ty c. backup_type sid = Inr ty \<and> node_at w' (overlay_at w ty dn) = Some (Reg c 420)
    \<and> ((\<exists>m. node_at w (backups_at w dn @ [sid]) = Some (Reg c m))
      \<or> sid = backup_name (tock w) ty \<and> overlay_bytes w ty dn = Some c)"
  using rollback_Inr [OF assms] .

lemma demo_rollback_run:
  "rollback demo_domain demo_snapshot ''10.0.0.9'' demo =
     (Inr (), snd (rollback demo_domain demo_snapshot ''10.0.0.9'' demo))"
proof -
  have v: "validate_domain demo_domain = None" "backup_type demo_snapshot = Inr file_type_waf" by code_simp+
  have l: "listing demo [''backups'', ''example_com''] = [(demo_snapshot, Reg ''old'' 384)]" by code_simp
  have k: "int (length (snaps file_type_waf (listing demo [''backups'', ''example_com'']))) < backup_keep (env demo)"
    unfolding l by code_simp
  have h: "healthy demo file_type_waf demo_domain demo_caddyfile" by (rule demo_healthy) simp
  have at: "backups_at (tock demo) demo_domain = [''backups'', ''example_com'']"
    "overlay_at (tock demo) file_type_waf demo_domain = overlay_at demo file_type_waf demo_domain"
    using demo_backups by (simp_all add: backups_at_def overlay_at_def)
  have "fst (rollback demo_domain demo_snapshot ''10.0.0.9'' demo) = Inr ()"
  proof (rule rollback_ok [OF h v])
    fix u assume b: "backup demo_domain file_type_waf (tock demo) = (Inr (), u)"
    have "node_at (tock demo) [''backups'', ''example_com'', demo_snapshot] = Some (Reg ''old'' 384)"
      using node_at_listing [of demo "[''backups'', ''example_com'']" demo_snapshot] l by simp
    with backup_keeps_snapshot [OF _ b _ _ v(2)] k h
    show "\<exists>b m. node_at u (backups_at demo demo_domain @ [demo_snapshot]) = Some (Reg b m)"
      by (simp add: at demo_backups healthy_def writable_def)
  qed
  then show ?thesis by (metis prod.collapse)
qed

lemma rollback_installs_snapshot_witness:
  "\<exists>c. node_at (snd (rollback demo_domain demo_snapshot ''10.0.0.9'' demo)) [''ui-managed'', ''waf-example_com.conf'']
     = Some (Reg c 420)"
proof -
  have "backup_type demo_snapshot = Inr file_type_waf" by code_simp
  with rollback_installs_snapshot [OF demo_wf demo_rollback_run] show ?thesis
    by (auto simp: demo_overlay)
qed



text \<open>C19. A reload that reports success did all of it: the Caddyfile was read and posted to
  \<open>/load\<close>, Caddy answered 200, the live configuration was fetched, again with 200, and every host
  the Caddyfile names is in a host matcher of it, at whatever depth.\<close>

theorem reload_verified:
  assumes "reload w = (Inr (), w')"
  shows "\<exists>caddyfile m rs rs' cfg.
    node_at w (resolve (cwd w) (caddyfile_path (env w))) = Some (Reg caddyfile m)
    \<and> net w (tick w + 1) \<lparr>rq_method = ''POST'', rq_url = admin_url (env w) @ ''/load'',
        rq_content_type = ''text/caddyfile'', rq_body = caddyfile\<rparr> = Inr rs \<and> rs_status_code rs = 200
    \<and> net w (tick w + 2) \<lparr>rq_method = ''GET'', rq_url = admin_url (env w) @ ''/config/apps/http/servers'',
        rq_content_type = [], rq_body = []\<rparr> = Inr rs' \<and> rs_status_code rs' = 200
    \<and> json_decode (limit_read (rs_body rs')) = Some cfg
    \<and> (\<forall>h \<in> set (expected_hosts caddyfile). live_host cfg h)"
  using reload_Inr [OF assms] by (blast intro: collect_hosts_live)

lemma reload_verified_witness:
  "\<exists>rs. net demo 1 \<lparr>rq_method = ''POST'', rq_url = ''http://caddy-waf:2019/load'',
     rq_content_type = ''text/caddyfile'', rq_body = demo_caddyfile\<rparr> = Inr rs \<and> rs_status_code rs = 200"
proof -
  have h: "healthy demo file_type_waf demo_domain demo_caddyfile" by (rule demo_healthy) simp
  have n: "node_at demo (resolve (cwd demo) (caddyfile_path (env demo))) = Some (Reg demo_caddyfile 420)"
    unfolding demo_caddyfile_at by code_simp
  from h have "fst (reload demo) = Inr ()"
    by (intro reload_ok [OF _ n]) (simp_all add: healthy_def writable_def)
  then have "reload demo = (Inr (), snd (reload demo))" by (metis prod.collapse)
  from reload_verified [OF this] n show ?thesis by (auto simp: admin_url_def env_or_def)
qed

section \<open>Reading back what a change installed\<close>

text \<open>C12. The exclusions shown are the exclusions set: after a successful update, reading the
  overlay back, as the views and the add form do, gives exactly the submitted list without its
  duplicates, in order, with types, values and parameters.\<close>

theorem exclusions_roundtrip:
  assumes "fs_wf w" "update_exclusions dn exs ip w = (Inr (), w')" "no_faults w'"
  shows "fst (read_exclusions dn w') = Inr (dedupe_exclusions exs) \<and> set (dedupe_exclusions exs) = set exs
    \<and> distinct (dedupe_exclusions exs)"
  using update_exclusions_read [OF assms] dedupe_exclusions_distinct by simp

lemma exclusions_roundtrip_witness:
  "\<exists>w' :: world. fst (read_exclusions demo_domain w') =
     Inr [\<lparr>ex_type = ''id'', ex_value = ''942100'', ex_param = ''q''\<rparr>]"
proof -
  let ?e = "\<lparr>ex_type = ''id'', ex_value = ''942100'', ex_param = ''q''\<rparr>"
  have v: "hostname_ok demo_domain" "list_all exclusion_ok [?e, ?e]" "dedupe_exclusions [?e, ?e] = [?e]" by code_simp+
  have h: "healthy demo file_type_exclusions demo_domain demo_caddyfile" by (rule demo_healthy) simp
  obtain w' where r: "update_exclusions demo_domain [?e, ?e] ''10.0.0.9'' demo = (Inr (), w')"
    using update_exclusions_ok [OF h] v(1,2) by (metis prod.collapse validate_domain_iff validate_exclusions_iff)
  have "no_faults w'" using entry_outcome [OF public_entry.exclusions demo_wf r] by (simp add: no_faults_def stays_def)
  from exclusions_roundtrip [OF demo_wf r this] v(3) show ?thesis by metis
qed

text \<open>C13. The IP rules shown are the rules set: after a successful update, reading the overlay back
  gives exactly the normalised allow and deny lists, in order.\<close>

theorem ip_rules_roundtrip:
  assumes "fs_wf w" "update_ip_rules dn rules ip w = (Inr (), w')" "no_faults w'"
  shows "\<exists>allow deny. fst (read_ip_rules dn w') = Inr \<lparr>allowlist = allow, denylist = deny\<rparr>
    \<and> normalize_ip_entries (allowlist rules) = Inr allow \<and> normalize_ip_entries (denylist rules) = Inr deny"
proof -
  note up = update_ip_rules_Inr [OF assms(1,2)]
  have st: "cwd w' = cwd w" "env w' = env w" "ulower w' = ulower w"
    using entry_outcome [OF public_entry.ip_rules assms(1,2)] by (auto simp: stays_def)
  obtain t deny allow where n: "normalize_ip_entries (denylist rules) = Inr deny"
      "normalize_ip_entries (allowlist rules) = Inr allow"
    and t: "node_at w' (overlay_at w file_type_ip_rules dn) = Some (Reg (unlines (ip_rules_lines (header dn [] t)
        (domain_slug (ulower w) dn) (join '' '' deny) (join '' '' allow))) 420)"
    using up(2) by blast
  have "nl \<notin> set dn" using up(1) host_field [of dn] by (simp add: validate_domain_iff)
  note parse = parse_generated_ip_rules [OF normalize_ip_entries_ok [OF n(1)] normalize_ip_entries_ok [OF n(2)]
      this slug_ok_domain_slug]
  have "resolve (cwd w') (ip_rules_config_path (ulower w') (managed_dir (env w')) dn) = overlay_at w file_type_ip_rules dn"
    using resolve_overlay(1) [of file_type_ip_rules w dn] by (simp add: config_paths st)
  with t assms(3) n parse show ?thesis
    by (simp add: read_ip_rules_def read_ip_rules_file_def os_read_file_def)
qed

lemma ip_rules_roundtrip_witness:
  "\<exists>w' :: world. fst (read_ip_rules demo_domain w') = Inr \<lparr>allowlist = [], denylist = [''192.0.2.1/32'', ''10.0.0.7/32'']\<rparr>"
proof -
  let ?r = "\<lparr>allowlist = [], denylist = [''192.0.2.1'', ''10.0.0.7'']\<rparr>"
  have v: "hostname_ok demo_domain" by code_simp
  have n: "normalize_ip_entries [''192.0.2.1'', ''10.0.0.7''] = Inr [''192.0.2.1/32'', ''10.0.0.7/32'']" by code_simp
  have h: "healthy demo file_type_ip_rules demo_domain demo_caddyfile" by (rule demo_healthy) simp
  have "validate_ip_rules ?r = None" using n by (simp add: validate_ip_rules_iff)
  then obtain w' where r: "update_ip_rules demo_domain ?r ''10.0.0.9'' demo = (Inr (), w')"
    using update_ip_rules_ok [OF h] v by (metis prod.collapse validate_domain_iff)
  have "no_faults w'" using entry_outcome [OF public_entry.ip_rules demo_wf r] by (simp add: no_faults_def stays_def)
  from ip_rules_roundtrip [OF demo_wf r this] n show ?thesis by (intro exI [of _ w']) auto
qed

end
